(* ===== verification/Prelude.thy ===== *)
theory Prelude
  imports Main "HOL-Library.Word" "HOL-Library.Char_ord" "HOL-Library.List_Lexorder"
    "HOL-Library.Product_Lexorder"
begin

text \<open>
  The vocabulary the component theories share: the machine integers of the
  source, its fallible computations, its checked arithmetic, and the ordered
  map the standard library provides. Nothing in this theory models a line of
  the repository; it models the language and its standard library.

  \<^item> A \<^verbatim>\<open>u8\<close>, \<^verbatim>\<open>u32\<close>, \<^verbatim>\<open>u64\<close> is a word of that width, a
    \<^verbatim>\<open>usize\<close> (only used for lengths and indices of vectors) a natural number.
  \<^item> \<^verbatim>\<open>anyhow::Result\<close> is a sum whose left side is the chain of error
    messages, outermost first; a message with interpolated values is the format
    string of the source.
  \<^item> Text whose bytes the code inspects is a \<^typ>\<open>string\<close> (its UTF-8 bytes);
    text whose characters it inspects is a list of Unicode scalar values.
\<close>

named_theorems result_simps \<open>inversion rules for fallible computations\<close>
named_theorems checked_simps \<open>checked machine arithmetic, read through \<^const>\<open>unat\<close>\<close>

type_synonym u8 = "8 word"
type_synonym u16 = "16 word"
type_synonym u32 = "32 word"
type_synonym u64 = "64 word"
type_synonym i32 = "32 word"
type_synonym usize = nat
type_synonym bytes = "u8 list"
type_synonym utext = "nat list"

section \<open>Fallible computations\<close>

type_synonym error = "string list"
type_synonym 'a result = "error + 'a"

definition bail :: "string \<Rightarrow> 'a result" where
  "bail m = Inl [m]"

fun and_then :: "'e + 'a \<Rightarrow> ('a \<Rightarrow> 'e + 'b) \<Rightarrow> 'e + 'b" where
  "and_then (Inl e) f = Inl e"
| "and_then (Inr x) f = f x"

fun with_context :: "string \<Rightarrow> 'a result \<Rightarrow> 'a result" where
  "with_context m (Inl e) = Inl (m # e)"
| "with_context m (Inr x) = Inr x"

fun ok_or :: "string \<Rightarrow> 'a option \<Rightarrow> 'a result" where
  "ok_or m None = bail m"
| "ok_or m (Some x) = Inr x"

fun is_ok :: "'e + 'a \<Rightarrow> bool" where
  "is_ok (Inl e) = False"
| "is_ok (Inr x) = True"

text \<open>A \<^verbatim>\<open>for\<close> loop whose body may return early with an error.\<close>

fun try_each :: "('a \<Rightarrow> 'e + unit) \<Rightarrow> 'a list \<Rightarrow> 'e + unit" where
  "try_each f [] = Inr ()"
| "try_each f (x # xs) = and_then (f x) (\<lambda>_. try_each f xs)"

fun try_fold :: "('s \<Rightarrow> 'a \<Rightarrow> 'e + 's) \<Rightarrow> 's \<Rightarrow> 'a list \<Rightarrow> 'e + 's" where
  "try_fold f s [] = Inr s"
| "try_fold f s (x # xs) = and_then (f s x) (\<lambda>s'. try_fold f s' xs)"

fun try_map :: "('a \<Rightarrow> 'e + 'b) \<Rightarrow> 'a list \<Rightarrow> 'e + 'b list" where
  "try_map f [] = Inr []"
| "try_map f (x # xs) = and_then (f x) (\<lambda>y. and_then (try_map f xs) (\<lambda>ys. Inr (y # ys)))"

lemma and_then_Inr [result_simps]:
  "and_then r f = Inr y \<longleftrightarrow> (\<exists>x. r = Inr x \<and> f x = Inr y)"
  by (cases r) auto

lemma and_then_Inl [result_simps]:
  "and_then r f = Inl e \<longleftrightarrow> r = Inl e \<or> (\<exists>x. r = Inr x \<and> f x = Inl e)"
  by (cases r) auto

lemma and_then_unit [result_simps]:
  "and_then r (\<lambda>_ :: unit. f) = Inr y \<longleftrightarrow> r = Inr () \<and> f = Inr y"
  by (cases r) auto

lemma bail_Inr [simp]: "bail m = Inr y \<longleftrightarrow> False"
  by (simp add: bail_def)

lemma Inr_bail [simp]: "Inr y = bail m \<longleftrightarrow> False"
  by (simp add: bail_def)

lemma if_bail_Inr [result_simps]:
  "(if c then bail m else r) = Inr y \<longleftrightarrow> \<not> c \<and> r = Inr y"
  by simp

lemma with_context_Inr [result_simps]: "with_context m r = Inr x \<longleftrightarrow> r = Inr x"
  by (cases r) auto

lemma ok_or_Inr [result_simps]: "ok_or m x = Inr y \<longleftrightarrow> x = Some y"
  by (cases x) auto

lemma is_ok_iff: "is_ok r \<longleftrightarrow> (\<exists>x. r = Inr x)"
  by (cases r) auto

lemma try_each_Inr [result_simps]:
  "try_each f xs = Inr u \<longleftrightarrow> (\<forall>x \<in> set xs. f x = Inr ())"
  by (induction xs) (auto simp: and_then_Inr)

lemma try_each_append:
  "try_each f (xs @ ys) = and_then (try_each f xs) (\<lambda>_. try_each f ys)"
proof (induction xs)
  case (Cons x xs)
  then show ?case by (cases "f x") auto
qed simp

lemma try_fold_append:
  "try_fold f s (xs @ ys) = and_then (try_fold f s xs) (\<lambda>s'. try_fold f s' ys)"
proof (induction xs arbitrary: s)
  case (Cons x xs)
  then show ?case by (cases "f s x") auto
qed simp

lemma try_map_Inr [result_simps]:
  "try_map f xs = Inr ys \<longleftrightarrow> list_all2 (\<lambda>x y. f x = Inr y) xs ys"
proof (induction xs arbitrary: ys)
  case (Cons x xs)
  then show ?case by (cases ys) (auto simp: and_then_Inr)
qed auto

text \<open>A loop invariant for \<^const>\<open>try_fold\<close>: what holds initially and is kept by
  every successful iteration holds of the result.\<close>

lemma try_fold_invariant:
  assumes "try_fold f s xs = Inr t" and "P s"
    and "\<And>s x s'. P s \<Longrightarrow> x \<in> set xs \<Longrightarrow> f s x = Inr s' \<Longrightarrow> P s'"
  shows "P t"
  using assms
proof (induction xs arbitrary: s)
  case (Cons x xs)
  from Cons.prems(1) obtain s' where s': "f s x = Inr s'" "try_fold f s' xs = Inr t"
    by (auto simp: and_then_Inr)
  show ?case
  proof (rule Cons.IH [OF s'(2)])
    show "P s'" by (rule Cons.prems(3) [OF Cons.prems(2) _ s'(1)]) simp
    show "P s2" if "P s1" "y \<in> set xs" "f s1 y = Inr s2" for s1 y s2
      by (rule Cons.prems(3) [OF that(1) _ that(3)]) (simp add: that(2))
  qed
qed simp

section \<open>Checked machine arithmetic\<close>

definition checked_add :: "'a::len word \<Rightarrow> 'a word \<Rightarrow> 'a word option" where
  "checked_add a b = (if unat a + unat b < 2 ^ LENGTH('a) then Some (a + b) else None)"

definition checked_sub :: "'a::len word \<Rightarrow> 'a word \<Rightarrow> 'a word option" where
  "checked_sub a b = (if b \<le> a then Some (a - b) else None)"

definition checked_mul :: "'a::len word \<Rightarrow> 'a word \<Rightarrow> 'a word option" where
  "checked_mul a b = (if unat a * unat b < 2 ^ LENGTH('a) then Some (a * b) else None)"

definition saturating_add :: "'a::len word \<Rightarrow> 'a word \<Rightarrow> 'a word" where
  "saturating_add a b = (case checked_add a b of Some c \<Rightarrow> c | None \<Rightarrow> - 1)"

definition saturating_sub :: "'a::len word \<Rightarrow> 'a word \<Rightarrow> 'a word" where
  "saturating_sub a b = (if b \<le> a then a - b else 0)"

lemma checked_add_Some [checked_simps]:
  fixes a b c :: "'a::len word"
  shows "checked_add a b = Some c \<longleftrightarrow> unat c = unat a + unat b"
proof
  assume "checked_add a b = Some c"
  then have "unat a + unat b < 2 ^ LENGTH('a)" "c = a + b"
    by (auto simp: checked_add_def split: if_splits)
  then show "unat c = unat a + unat b" by (simp add: unat_word_ariths(1))
next
  assume eq: "unat c = unat a + unat b"
  have bound: "unat a + unat b < 2 ^ LENGTH('a)"
    using unsigned_less [of c, where ?'a = nat] by (simp only: eq)
  then have "unat (a + b) = unat c" by (simp add: unat_word_ariths(1) eq)
  then have "a + b = c" by (rule unsigned_word_eqI)
  with bound show "checked_add a b = Some c" by (simp add: checked_add_def)
qed

lemma checked_sub_Some [checked_simps]:
  fixes a b c :: "'a::len word"
  shows "checked_sub a b = Some c \<longleftrightarrow> unat a = unat c + unat b"
proof
  assume "checked_sub a b = Some c"
  then have le: "b \<le> a" and c: "c = a - b" by (auto simp: checked_sub_def split: if_splits)
  from le have "unat b \<le> unat a" by (simp only: word_le_nat_alt)
  then show "unat a = unat c + unat b" by (simp add: c unat_sub [OF le])
next
  assume eq: "unat a = unat c + unat b"
  then have le: "b \<le> a" by (simp only: word_le_nat_alt)
  have "unat (a - b) = unat c" by (simp add: unat_sub [OF le] eq)
  then have "a - b = c" by (rule unsigned_word_eqI)
  with le show "checked_sub a b = Some c" by (simp add: checked_sub_def)
qed

lemma checked_add_None [checked_simps]:
  fixes a b :: "'a::len word"
  shows "checked_add a b = None \<longleftrightarrow> 2 ^ LENGTH('a) \<le> unat a + unat b"
  by (auto simp: checked_add_def)

lemma checked_mul_Some [checked_simps]:
  fixes a b c :: "'a::len word"
  shows "checked_mul a b = Some c \<longleftrightarrow> unat c = unat a * unat b"
proof
  assume "checked_mul a b = Some c"
  then have "unat a * unat b < 2 ^ LENGTH('a)" "c = a * b"
    by (auto simp: checked_mul_def split: if_splits)
  then show "unat c = unat a * unat b" by (simp add: unat_word_ariths(2))
next
  assume eq: "unat c = unat a * unat b"
  have bound: "unat a * unat b < 2 ^ LENGTH('a)"
    using unsigned_less [of c, where ?'a = nat] by (simp only: eq)
  then have "unat (a * b) = unat c" by (simp add: unat_word_ariths(2) eq)
  then have "a * b = c" by (rule unsigned_word_eqI)
  with bound show "checked_mul a b = Some c" by (simp add: checked_mul_def)
qed

text \<open>Lengths are 64-bit on the supported targets.\<close>

definition usize_checked_add :: "usize \<Rightarrow> usize \<Rightarrow> usize option" where
  "usize_checked_add a b = (if a + b < 2 ^ 64 then Some (a + b) else None)"

text \<open>Indexing a slice; the error stands for the panic of an index out of range.\<close>

definition index_out_of_bounds :: error where
  "index_out_of_bounds = [''panic: index out of bounds'']"

definition slice_index :: "'a list \<Rightarrow> usize \<Rightarrow> 'a result" where
  "slice_index xs i = (if i < length xs then Inr (xs ! i) else Inl index_out_of_bounds)"

lemma slice_index_Inr [result_simps]: "slice_index xs i = Inr x \<longleftrightarrow> i < length xs \<and> x = xs ! i"
  by (auto simp: slice_index_def)

text \<open>Computations that never index out of range, established structurally.\<close>

definition no_panic :: "'a result \<Rightarrow> bool" where
  "no_panic r \<longleftrightarrow> r \<noteq> Inl index_out_of_bounds"

named_theorems no_panic_intros \<open>rules for computations that do not panic\<close>

lemma no_panic_Inr [no_panic_intros, simp]: "no_panic (Inr x)"
  by (simp add: no_panic_def)

lemma no_panic_bail [no_panic_intros]:
  "hd m \<noteq> CHR ''p'' \<or> hd (tl m) \<noteq> CHR ''a'' \<or> hd (tl (tl m)) \<noteq> CHR ''n'' \<Longrightarrow> no_panic (bail m)"
  by (auto simp: no_panic_def bail_def index_out_of_bounds_def)

lemma no_panic_and_then [no_panic_intros]:
  "no_panic r \<Longrightarrow> (\<And>x. r = Inr x \<Longrightarrow> no_panic (f x)) \<Longrightarrow> no_panic (and_then r f)"
  by (cases r) (auto simp: no_panic_def)

lemma no_panic_if [no_panic_intros]:
  "(c \<Longrightarrow> no_panic r) \<Longrightarrow> (\<not> c \<Longrightarrow> no_panic s) \<Longrightarrow> no_panic (if c then r else s)"
  by simp

lemma no_panic_ok_or [no_panic_intros]:
  "no_panic (bail m :: 'a result) \<Longrightarrow> no_panic (ok_or m (x :: 'a option))"
  by (cases x) auto

lemma no_panic_slice_index [no_panic_intros]: "i < length xs \<Longrightarrow> no_panic (slice_index xs i)"
  by (simp add: slice_index_def)

lemma no_panic_try_each [no_panic_intros]:
  "(\<And>x. x \<in> set xs \<Longrightarrow> no_panic (f x)) \<Longrightarrow> no_panic (try_each f xs)"
  by (induction xs) (auto intro: no_panic_and_then)

lemma no_panic_try_fold [no_panic_intros]:
  "(\<And>s x. x \<in> set xs \<Longrightarrow> no_panic (f s x)) \<Longrightarrow> no_panic (try_fold f s xs)"
  by (induction xs arbitrary: s) (auto intro: no_panic_and_then)

section \<open>Bytes\<close>

definition bytes_of :: "string \<Rightarrow> bytes" where
  "bytes_of s = map of_char s"

definition to_be_bytes :: "u32 \<Rightarrow> bytes" where
  "to_be_bytes w = [ucast (drop_bit 24 w), ucast (drop_bit 16 w), ucast (drop_bit 8 w), ucast w]"

definition usize_to_u32 :: "usize \<Rightarrow> u32 result" where
  "usize_to_u32 n = (if n < 2 ^ 32 then Inr (word_of_nat n)
    else bail ''out of range integral type conversion attempted'')"

lemma unat_word_of_nat_32 [simp]: "n < 4294967296 \<Longrightarrow> unat (word_of_nat n :: u32) = n"
  by (simp add: unat_of_nat take_bit_nat_eq_self_iff)

lemma unat_u32_less: "unat (w :: u32) < 4294967296"
  using unsigned_less [of w, where ?'a = nat] by simp

lemma usize_to_u32_Inr [result_simps]:
  "usize_to_u32 n = Inr w \<longleftrightarrow> unat w = n"
proof -
  have "unat w < 4294967296" by (rule unat_u32_less)
  then show ?thesis by (auto simp: usize_to_u32_def word_unat_eq_iff)
qed

end
