(* ===== verification/Resources.thy ===== *)
theory Resources
  imports Prelude "HOL-Library.Multiset"
begin

text \<open>
  Hierarchical resource quotas (\<^verbatim>\<open>src/resources.rs\<close>): claims with twelve
  \<^verbatim>\<open>u64\<close> dimensions, limits, the policy and its validation, the pools and their
  reservations, accounts layered over a global and a per-user pool, and the
  governor that hands them out.

  A \<^verbatim>\<open>ResourcePool\<close> is a shared \<^verbatim>\<open>Arc\<close>; the model keeps the pools in an explicit
  store and a handle is the address of its pool. A reservation is given back by
  its destructor, which panics when the accounting underflows: that panic is the
  value \<^const>\<open>None\<close> of \<^verbatim>\<open>PoolReservation_drop\<close>.
\<close>

section \<open>Claims\<close>

definition MIB :: u64 where
  "MIB = 1024 * 1024"

definition GIB :: u64 where
  "GIB = 1024 * MIB"

definition DEFAULT_TERMINAL_HISTORY_ROWS :: u64 where
  "DEFAULT_TERMINAL_HISTORY_ROWS = 10000"

definition MAX_TERMINAL_HISTORY_ROWS :: u64 where
  "MAX_TERMINAL_HISTORY_ROWS = 1000000"

definition MAX_TERMINAL_HISTORY_BYTES :: u64 where
  "MAX_TERMINAL_HISTORY_BYTES = GIB"

record ResourceClaim =
  connections :: u64
  streams :: u64
  workers :: u64
  terminals :: u64
  attachments :: u64
  terminal_memory_bytes :: u64
  history_bytes :: u64
  forward_connections :: u64
  forward_buffer_bytes :: u64
  file_handles :: u64
  uploads :: u64
  upload_bytes :: u64

definition ResourceClaim_default :: ResourceClaim where
  "ResourceClaim_default = \<lparr> connections = 0, streams = 0, workers = 0, terminals = 0,
     attachments = 0, terminal_memory_bytes = 0, history_bytes = 0,
     forward_connections = 0, forward_buffer_bytes = 0, file_handles = 0,
     uploads = 0, upload_bytes = 0 \<rparr>"

definition ResourceClaim_connection :: ResourceClaim where
  "ResourceClaim_connection = ResourceClaim_default \<lparr> connections := 1 \<rparr>"

definition ResourceClaim_stream :: ResourceClaim where
  "ResourceClaim_stream = ResourceClaim_default \<lparr> streams := 1 \<rparr>"

definition ResourceClaim_attachment :: ResourceClaim where
  "ResourceClaim_attachment = ResourceClaim_default \<lparr> attachments := 1 \<rparr>"

definition ResourceClaim_file_handle :: ResourceClaim where
  "ResourceClaim_file_handle = ResourceClaim_default \<lparr> file_handles := 1 \<rparr>"

definition ResourceClaim_upload :: "u64 \<Rightarrow> ResourceClaim" where
  "ResourceClaim_upload n = ResourceClaim_default \<lparr> uploads := 1, upload_bytes := n \<rparr>"

definition claim_checked_add :: "ResourceClaim \<Rightarrow> ResourceClaim \<Rightarrow> ResourceClaim option" where
  "claim_checked_add a b =
    Option.bind (checked_add (connections a) (connections b)) (\<lambda>cn.
    Option.bind (checked_add (streams a) (streams b)) (\<lambda>st.
    Option.bind (checked_add (workers a) (workers b)) (\<lambda>wk.
    Option.bind (checked_add (terminals a) (terminals b)) (\<lambda>tm.
    Option.bind (checked_add (attachments a) (attachments b)) (\<lambda>att.
    Option.bind (checked_add (terminal_memory_bytes a) (terminal_memory_bytes b)) (\<lambda>mem.
    Option.bind (checked_add (history_bytes a) (history_bytes b)) (\<lambda>hb.
    Option.bind (checked_add (forward_connections a) (forward_connections b)) (\<lambda>fc.
    Option.bind (checked_add (forward_buffer_bytes a) (forward_buffer_bytes b)) (\<lambda>fb.
    Option.bind (checked_add (file_handles a) (file_handles b)) (\<lambda>fh.
    Option.bind (checked_add (uploads a) (uploads b)) (\<lambda>up.
    Option.bind (checked_add (upload_bytes a) (upload_bytes b)) (\<lambda>ub.
      Some \<lparr> connections = cn, streams = st, workers = wk, terminals = tm,
        attachments = att, terminal_memory_bytes = mem, history_bytes = hb,
        forward_connections = fc, forward_buffer_bytes = fb, file_handles = fh,
        uploads = up, upload_bytes = ub \<rparr>))))))))))))"

definition claim_checked_sub :: "ResourceClaim \<Rightarrow> ResourceClaim \<Rightarrow> ResourceClaim option" where
  "claim_checked_sub a b =
    Option.bind (checked_sub (connections a) (connections b)) (\<lambda>cn.
    Option.bind (checked_sub (streams a) (streams b)) (\<lambda>st.
    Option.bind (checked_sub (workers a) (workers b)) (\<lambda>wk.
    Option.bind (checked_sub (terminals a) (terminals b)) (\<lambda>tm.
    Option.bind (checked_sub (attachments a) (attachments b)) (\<lambda>att.
    Option.bind (checked_sub (terminal_memory_bytes a) (terminal_memory_bytes b)) (\<lambda>mem.
    Option.bind (checked_sub (history_bytes a) (history_bytes b)) (\<lambda>hb.
    Option.bind (checked_sub (forward_connections a) (forward_connections b)) (\<lambda>fc.
    Option.bind (checked_sub (forward_buffer_bytes a) (forward_buffer_bytes b)) (\<lambda>fb.
    Option.bind (checked_sub (file_handles a) (file_handles b)) (\<lambda>fh.
    Option.bind (checked_sub (uploads a) (uploads b)) (\<lambda>up.
    Option.bind (checked_sub (upload_bytes a) (upload_bytes b)) (\<lambda>ub.
      Some \<lparr> connections = cn, streams = st, workers = wk, terminals = tm,
        attachments = att, terminal_memory_bytes = mem, history_bytes = hb,
        forward_connections = fc, forward_buffer_bytes = fb, file_handles = fh,
        uploads = up, upload_bytes = ub \<rparr>))))))))))))"

definition dimensions :: "ResourceClaim \<Rightarrow> (string \<times> u64) list" where
  "dimensions c = [
     (''connections'', connections c),
     (''streams'', streams c),
     (''workers'', workers c),
     (''terminals'', terminals c),
     (''attachments'', attachments c),
     (''terminal_memory_bytes'', terminal_memory_bytes c),
     (''history_bytes'', history_bytes c),
     (''forward_connections'', forward_connections c),
     (''forward_buffer_bytes'', forward_buffer_bytes c),
     (''file_handles'', file_handles c),
     (''uploads'', uploads c),
     (''upload_bytes'', upload_bytes c)]"

text \<open>The lookup ends in an \<^verbatim>\<open>expect\<close>; it is only called with the names of
  \<^const>\<open>dimensions\<close>, where the lookup succeeds (\<^verbatim>\<open>value_defined\<close> below).\<close>

definition claim_value :: "ResourceClaim \<Rightarrow> string \<Rightarrow> u64" where
  "claim_value c name = the (map_of (dimensions c) name)"

section \<open>Limits and policy\<close>

record ResourceLimits =
  lim_connections :: u64
  lim_streams :: u64
  lim_workers :: u64
  lim_terminals :: u64
  lim_attachments :: u64
  lim_terminal_memory_bytes :: u64
  lim_history_bytes :: u64
  lim_forward_connections :: u64
  lim_forward_buffer_bytes :: u64
  lim_file_handles :: u64
  lim_uploads :: u64
  lim_upload_bytes :: u64

definition ResourceLimits_global_defaults :: ResourceLimits where
  "ResourceLimits_global_defaults = \<lparr>
     lim_connections = 1024, lim_streams = 8192, lim_workers = 64,
     lim_terminals = 4096, lim_attachments = 16384,
     lim_terminal_memory_bytes = 16 * GIB, lim_history_bytes = 32 * GIB,
     lim_forward_connections = 256, lim_forward_buffer_bytes = 64 * MIB,
     lim_file_handles = 16384, lim_uploads = 1024, lim_upload_bytes = 512 * GIB \<rparr>"

definition ResourceLimits_user_defaults :: ResourceLimits where
  "ResourceLimits_user_defaults = \<lparr>
     lim_connections = 8, lim_streams = 256, lim_workers = 1,
     lim_terminals = 64, lim_attachments = 256,
     lim_terminal_memory_bytes = 256 * MIB, lim_history_bytes = 512 * MIB,
     lim_forward_connections = 32, lim_forward_buffer_bytes = 8 * MIB,
     lim_file_handles = 256, lim_uploads = 16, lim_upload_bytes = 8 * GIB \<rparr>"

definition as_claim :: "ResourceLimits \<Rightarrow> ResourceClaim" where
  "as_claim l = \<lparr> connections = lim_connections l, streams = lim_streams l,
     workers = lim_workers l, terminals = lim_terminals l, attachments = lim_attachments l,
     terminal_memory_bytes = lim_terminal_memory_bytes l, history_bytes = lim_history_bytes l,
     forward_connections = lim_forward_connections l,
     forward_buffer_bytes = lim_forward_buffer_bytes l,
     file_handles = lim_file_handles l, uploads = lim_uploads l,
     upload_bytes = lim_upload_bytes l \<rparr>"

definition starts_with :: "string \<Rightarrow> string \<Rightarrow> bool" where
  "starts_with s p = (take (length p) s = p)"

definition ResourceLimits_validate :: "ResourceLimits \<Rightarrow> string \<Rightarrow> unit result" where
  "ResourceLimits_validate l scope =
    try_each (\<lambda>(resource, limit).
      if 0 < limit \<or> starts_with resource ''forward_'' then Inr ()
      else bail ''{scope} {resource} limit must be nonzero'')
    (dimensions (as_claim l))"

record ResourcePolicy =
  policy_global :: ResourceLimits
  policy_user :: ResourceLimits
  terminal_base_memory_bytes :: u64
  terminal_cell_memory_bytes :: u64
  terminal_history_rows :: u64
  terminal_history_bytes :: u64

definition ResourcePolicy_default :: ResourcePolicy where
  "ResourcePolicy_default = \<lparr>
     policy_global = ResourceLimits_global_defaults,
     policy_user = ResourceLimits_user_defaults,
     terminal_base_memory_bytes = 4 * MIB,
     terminal_cell_memory_bytes = 64,
     terminal_history_rows = DEFAULT_TERMINAL_HISTORY_ROWS,
     terminal_history_bytes = 8 * MIB \<rparr>"

definition ResourcePolicy_validate :: "ResourcePolicy \<Rightarrow> unit result" where
  "ResourcePolicy_validate p =
    and_then (ResourceLimits_validate (policy_global p) ''global'') (\<lambda>_.
    and_then (ResourceLimits_validate (policy_user p) ''user'') (\<lambda>_.
      if \<not> lim_workers (policy_user p) = 1 then
        bail ''each Unix user must own exactly one managed worker capacity''
      else if \<not> (0 < terminal_base_memory_bytes p \<and> 0 < terminal_cell_memory_bytes p
          \<and> 0 < terminal_history_rows p \<and> 0 < terminal_history_bytes p) then
        bail ''per-terminal capacity values must be nonzero''
      else if \<not> terminal_history_rows p \<le> MAX_TERMINAL_HISTORY_ROWS then
        bail ''per-terminal history rows exceed the server hard limit''
      else if \<not> terminal_history_bytes p \<le> MAX_TERMINAL_HISTORY_BYTES then
        bail ''per-terminal history bytes exceed the server hard limit''
      else if \<not> terminal_base_memory_bytes p \<le> lim_terminal_memory_bytes (policy_user p) then
        bail ''user terminal memory must fit one terminal base reservation''
      else if \<not> terminal_history_bytes p \<le> lim_history_bytes (policy_user p) then
        bail ''user history capacity must fit one terminal reservation''
      else try_each (\<lambda>(resource, user_limit).
        if user_limit \<le> claim_value (as_claim (policy_global p)) resource then Inr ()
        else bail ''global {resource} limit must fit one complete user capacity'')
        (dimensions (as_claim (policy_user p)))))"

definition worker_capacity_claim :: "ResourcePolicy \<Rightarrow> ResourceClaim" where
  "worker_capacity_claim p = ResourceClaim_default \<lparr>
     workers := 1,
     terminals := lim_terminals (policy_user p),
     attachments := lim_attachments (policy_user p),
     terminal_memory_bytes := lim_terminal_memory_bytes (policy_user p),
     history_bytes := lim_history_bytes (policy_user p),
     file_handles := lim_file_handles (policy_user p),
     uploads := lim_uploads (policy_user p),
     upload_bytes := lim_upload_bytes (policy_user p),
     forward_connections := lim_forward_connections (policy_user p),
     forward_buffer_bytes := lim_forward_buffer_bytes (policy_user p) \<rparr>"

definition ResourceClaim_terminal ::
  "u32 \<Rightarrow> u32 \<Rightarrow> ResourcePolicy \<Rightarrow> ResourceClaim result" where
  "ResourceClaim_terminal rows columns p =
    and_then (ok_or ''terminal cell count overflow''
      (checked_mul (ucast rows :: u64) (ucast columns))) (\<lambda>cells.
    and_then (ok_or ''terminal memory claim overflow''
      (checked_mul cells (terminal_cell_memory_bytes p))) (\<lambda>grid_bytes.
    Inr (ResourceClaim_default \<lparr>
      terminals := 1,
      terminal_memory_bytes := max grid_bytes (terminal_base_memory_bytes p),
      history_bytes := terminal_history_bytes p \<rparr>)))"

section \<open>Pools, reservations, accounts and the governor\<close>

record QuotaExceeded =
  quota_scope :: string
  quota_resource :: string
  quota_requested :: u64
  quota_current :: u64
  quota_limit :: u64

record ResourcePoolInner =
  pool_scope :: string
  pool_limits :: ResourceLimits
  pool_usage :: ResourceClaim

type_synonym pool_addr = nat
type_synonym pool_store = "ResourcePoolInner list"
type_synonym PoolReservation = "pool_addr \<times> ResourceClaim"
type_synonym ResourceAccount = "pool_addr list"

definition ResourcePool_new :: "string \<Rightarrow> ResourceLimits \<Rightarrow> ResourcePoolInner result" where
  "ResourcePool_new scope l =
    and_then (ResourceLimits_validate l scope) (\<lambda>_.
      Inr \<lparr> pool_scope = scope, pool_limits = l, pool_usage = ResourceClaim_default \<rparr>)"

definition ResourcePool_reserve ::
  "ResourcePoolInner \<Rightarrow> ResourceClaim \<Rightarrow> QuotaExceeded + ResourcePoolInner" where
  "ResourcePool_reserve p claim = (
    case claim_checked_add (pool_usage p) claim of
      None \<Rightarrow> Inl \<lparr> quota_scope = pool_scope p, quota_resource = ''counter'',
        quota_requested = 1, quota_current = - 1, quota_limit = - 1 \<rparr>
    | Some next_usage \<Rightarrow>
        let limits = as_claim (pool_limits p) in
        (case find (\<lambda>(resource, requested).
            claim_value limits resource < claim_value next_usage resource) (dimensions claim) of
          Some (resource, requested) \<Rightarrow> Inl \<lparr> quota_scope = pool_scope p,
            quota_resource = resource, quota_requested = requested,
            quota_current = claim_value (pool_usage p) resource,
            quota_limit = claim_value limits resource \<rparr>
        | None \<Rightarrow> Inr (p \<lparr> pool_usage := next_usage \<rparr>)))"

definition ResourcePool_release ::
  "ResourcePoolInner \<Rightarrow> ResourceClaim \<Rightarrow> ResourcePoolInner option" where
  "ResourcePool_release p claim =
    map_option (\<lambda>u. p \<lparr> pool_usage := u \<rparr>) (claim_checked_sub (pool_usage p) claim)"

fun PoolReservation_drop :: "pool_store \<Rightarrow> PoolReservation \<Rightarrow> pool_store option" where
  "PoolReservation_drop store (a, claim) =
    map_option (\<lambda>p. store[a := p]) (ResourcePool_release (store ! a) claim)"

fun drop_reservations :: "pool_store \<Rightarrow> PoolReservation list \<Rightarrow> pool_store option" where
  "drop_reservations store [] = Some store"
| "drop_reservations store (r # rs) =
    Option.bind (PoolReservation_drop store r) (\<lambda>store'. drop_reservations store' rs)"

text \<open>The loop of \<^verbatim>\<open>ResourceAccount::reserve\<close>: its \<^verbatim>\<open>?\<close> leaves with the error and
  drops the reservations made so far.\<close>

fun account_reserve_loop ::
  "pool_store \<Rightarrow> ResourceAccount \<Rightarrow> ResourceClaim \<Rightarrow> PoolReservation list
    \<Rightarrow> (pool_store \<times> (QuotaExceeded + PoolReservation list)) option" where
  "account_reserve_loop store [] claim done_so_far = Some (store, Inr done_so_far)"
| "account_reserve_loop store (a # rest) claim done_so_far = (
    case ResourcePool_reserve (store ! a) claim of
      Inl e \<Rightarrow> map_option (\<lambda>store'. (store', Inl e)) (drop_reservations store done_so_far)
    | Inr p \<Rightarrow>
        account_reserve_loop (store[a := p]) rest claim (done_so_far @ [(a, claim)]))"

definition ResourceAccount_reserve ::
  "pool_store \<Rightarrow> ResourceAccount \<Rightarrow> ResourceClaim
    \<Rightarrow> (pool_store \<times> (QuotaExceeded + PoolReservation list)) option" where
  "ResourceAccount_reserve store account claim = account_reserve_loop store account claim []"

definition ResourceAccount_standalone ::
  "pool_store \<Rightarrow> string \<Rightarrow> ResourceLimits \<Rightarrow> (pool_store \<times> ResourceAccount) result" where
  "ResourceAccount_standalone store scope l =
    and_then (ResourcePool_new scope l) (\<lambda>p. Inr (store @ [p], [length store]))"

definition ResourceAccount_layered :: "pool_addr \<Rightarrow> pool_addr \<Rightarrow> ResourceAccount" where
  "ResourceAccount_layered global user = [global, user]"

record ResourceGovernor =
  gov_global :: pool_addr
  gov_users :: "string \<rightharpoonup> pool_addr"
  gov_user_limits :: ResourceLimits

definition ResourceGovernor_new ::
  "pool_store \<Rightarrow> ResourcePolicy \<Rightarrow> (pool_store \<times> ResourceGovernor) result" where
  "ResourceGovernor_new store policy =
    and_then (ResourcePolicy_validate policy) (\<lambda>_.
    and_then (ResourcePool_new ''global'' (policy_global policy)) (\<lambda>p.
      Inr (store @ [p], \<lparr> gov_global = length store, gov_users = Map.empty,
        gov_user_limits = policy_user policy \<rparr>)))"

definition ResourceGovernor_account ::
  "pool_store \<Rightarrow> ResourceGovernor \<Rightarrow> string
    \<Rightarrow> (pool_store \<times> ResourceGovernor \<times> ResourceAccount) result" where
  "ResourceGovernor_account store g user = (
    if user = [] then bail ''resource account user is empty''
    else case gov_users g user of
      Some a \<Rightarrow> Inr (store, g, ResourceAccount_layered (gov_global g) a)
    | None \<Rightarrow>
        and_then (ResourcePool_new (''user '' @ user) (gov_user_limits g)) (\<lambda>p.
          let a = length store in
          Inr (store @ [p], g \<lparr> gov_users := (gov_users g)(user \<mapsto> a) \<rparr>,
            ResourceAccount_layered (gov_global g) a)))"

text \<open>The pools as threads see them. Each step is one critical section of a pool's
  lock, so the relation covers every interleaving of concurrent reservations and
  destructors; \<^verbatim>\<open>live\<close> collects the \<^verbatim>\<open>PoolReservation\<close> values alive.\<close>

type_synonym quota_state = "pool_store \<times> PoolReservation multiset"

inductive quota_step :: "quota_state \<Rightarrow> quota_state \<Rightarrow> bool" where
  pool_created:
    "ResourcePool_new scope l = Inr p \<Longrightarrow> quota_step (store, live) (store @ [p], live)"
| reserved:
    "a < length store \<Longrightarrow> ResourcePool_reserve (store ! a) claim = Inr p \<Longrightarrow>
     quota_step (store, live) (store[a := p], add_mset (a, claim) live)"
| dropped:
    "r \<in># live \<Longrightarrow> PoolReservation_drop store r = Some store' \<Longrightarrow>
     quota_step (store, live) (store', live - {#r#})"

inductive_cases quota_stepE: "quota_step (store, live) st"

section \<open>Claims as vectors of amounts\<close>

definition resource_names :: "string list" where
  "resource_names = map fst (dimensions ResourceClaim_default)"

definition amount :: "ResourceClaim \<Rightarrow> string \<Rightarrow> nat" where
  "amount c r = unat (claim_value c r)"

lemma map_fst_dimensions: "map fst (dimensions c) = resource_names"
  by (simp add: resource_names_def dimensions_def)

lemma value_defined:
  assumes "r \<in> set resource_names"
  obtains v where "map_of (dimensions c) r = Some v"
proof -
  have "r \<in> fst ` set (dimensions c)"
    using assms by (metis list.set_map map_fst_dimensions)
  then have "map_of (dimensions c) r \<noteq> None"
    by (simp add: map_of_eq_None_iff)
  then show thesis using that by auto
qed

lemma distinct_resource_names: "distinct resource_names"
  by (simp add: resource_names_def dimensions_def)

lemma claim_value_simps [simp]:
  "claim_value c ''connections'' = connections c"
  "claim_value c ''streams'' = streams c"
  "claim_value c ''workers'' = workers c"
  "claim_value c ''terminals'' = terminals c"
  "claim_value c ''attachments'' = attachments c"
  "claim_value c ''terminal_memory_bytes'' = terminal_memory_bytes c"
  "claim_value c ''history_bytes'' = history_bytes c"
  "claim_value c ''forward_connections'' = forward_connections c"
  "claim_value c ''forward_buffer_bytes'' = forward_buffer_bytes c"
  "claim_value c ''file_handles'' = file_handles c"
  "claim_value c ''uploads'' = uploads c"
  "claim_value c ''upload_bytes'' = upload_bytes c"
  by (simp_all add: claim_value_def dimensions_def)

lemma ball_resource_names:
  "(\<forall>r \<in> set resource_names. P r) \<longleftrightarrow>
    P ''connections'' \<and> P ''streams'' \<and> P ''workers'' \<and> P ''terminals'' \<and> P ''attachments'' \<and>
    P ''terminal_memory_bytes'' \<and> P ''history_bytes'' \<and> P ''forward_connections'' \<and>
    P ''forward_buffer_bytes'' \<and> P ''file_handles'' \<and> P ''uploads'' \<and> P ''upload_bytes''"
  by (simp add: resource_names_def dimensions_def)

lemma dimensions_iff:
  "(r, v) \<in> set (dimensions c) \<longleftrightarrow> r \<in> set resource_names \<and> v = claim_value c r"
proof
  assume v: "(r, v) \<in> set (dimensions c)"
  have "distinct (map fst (dimensions c))"
    by (simp add: map_fst_dimensions distinct_resource_names)
  with v have "map_of (dimensions c) r = Some v" by (rule map_of_is_SomeI [rotated])
  moreover have "r \<in> set (map fst (dimensions c))" using v by force
  ultimately show "r \<in> set resource_names \<and> v = claim_value c r"
    by (simp add: claim_value_def map_fst_dimensions del: set_map)
next
  assume r: "r \<in> set resource_names \<and> v = claim_value c r"
  then obtain w where w: "map_of (dimensions c) r = Some w" using value_defined by blast
  with r have "v = w" by (simp add: claim_value_def)
  with w show "(r, v) \<in> set (dimensions c)" by (simp add: map_of_SomeD)
qed

lemma claim_eqI:
  assumes "\<And>r. r \<in> set resource_names \<Longrightarrow> claim_value a r = claim_value b r"
  shows "a = b"
proof -
  have "\<forall>r \<in> set resource_names. claim_value a r = claim_value b r" using assms by blast
  then show ?thesis unfolding ball_resource_names by (cases a; cases b) simp
qed

lemma claim_checked_add_Some:
  "claim_checked_add a b = Some c \<longleftrightarrow>
    (\<forall>r \<in> set resource_names. amount c r = amount a r + amount b r)"
proof -
  have "claim_checked_add a b = Some c \<longleftrightarrow>
    (\<forall>r \<in> set resource_names.
      checked_add (claim_value a r) (claim_value b r) = Some (claim_value c r))"
    unfolding ball_resource_names
    by (cases c) (simp add: claim_checked_add_def bind_eq_Some_conv)
  then show ?thesis by (simp add: checked_add_Some amount_def)
qed

lemma claim_checked_sub_Some:
  "claim_checked_sub a b = Some c \<longleftrightarrow>
    (\<forall>r \<in> set resource_names. amount a r = amount c r + amount b r)"
proof -
  have "claim_checked_sub a b = Some c \<longleftrightarrow>
    (\<forall>r \<in> set resource_names.
      checked_sub (claim_value a r) (claim_value b r) = Some (claim_value c r))"
    unfolding ball_resource_names
    by (cases c) (simp add: claim_checked_sub_def bind_eq_Some_conv)
  then show ?thesis by (simp add: checked_sub_Some amount_def)
qed

lemma amount_less [simp]: "amount c r < 2 ^ 64"
  using unsigned_less [of "claim_value c r", where ?'a = nat] by (simp add: amount_def)

lemma claim_checked_add_total:
  assumes "\<And>r. r \<in> set resource_names \<Longrightarrow> amount a r + amount b r < 2 ^ 64"
  obtains c where "claim_checked_add a b = Some c"
proof -
  have "\<forall>r \<in> set resource_names. \<exists>v. checked_add (claim_value a r) (claim_value b r) = Some v"
    using assms by (simp add: checked_add_def amount_def)
  then have "claim_checked_add a b \<noteq> None"
    unfolding ball_resource_names by (auto simp: claim_checked_add_def)
  then show thesis using that by auto
qed

lemma claim_checked_sub_total:
  assumes "\<And>r. r \<in> set resource_names \<Longrightarrow> amount b r \<le> amount a r"
  obtains c where "claim_checked_sub a b = Some c"
proof -
  have "\<forall>r \<in> set resource_names. \<exists>v. checked_sub (claim_value a r) (claim_value b r) = Some v"
    using assms by (simp add: checked_sub_def amount_def word_le_nat_alt)
  then have "claim_checked_sub a b \<noteq> None"
    unfolding ball_resource_names by (auto simp: claim_checked_sub_def)
  then show thesis using that by auto
qed

lemma amount_default [simp]: "r \<in> set resource_names \<Longrightarrow> amount ResourceClaim_default r = 0"
  by (auto simp: amount_def resource_names_def dimensions_def ResourceClaim_default_def)

lemma claim_amount_eqI:
  "(\<And>r. r \<in> set resource_names \<Longrightarrow> amount a r = amount b r) \<Longrightarrow> a = b"
  by (rule claim_eqI, rule unsigned_word_eqI [where ?'a = nat]) (simp add: amount_def)

section \<open>The contract of a pool\<close>

text \<open>What the users of a pool rely on: a granted reservation adds its amounts and
  stays under the caps, a release that is covered succeeds and takes exactly its
  amounts away, and neither changes the caps. From these laws alone the pool is
  balanced against the reservations alive, whatever their order.\<close>

locale quota_ledger =
  fixes used :: "'p \<Rightarrow> 'r \<Rightarrow> nat"
    and cap :: "'p \<Rightarrow> 'r \<Rightarrow> nat"
    and amt :: "'c \<Rightarrow> 'r \<Rightarrow> nat"
    and dims :: "'r set"
    and reserve :: "'p \<Rightarrow> 'c \<Rightarrow> 'e + 'p"
    and release :: "'p \<Rightarrow> 'c \<Rightarrow> 'p option"
  assumes reserve_used: "reserve p c = Inr q \<Longrightarrow> r \<in> dims \<Longrightarrow> used q r = used p r + amt c r"
    and reserve_fits: "reserve p c = Inr q \<Longrightarrow> r \<in> dims \<Longrightarrow> used q r \<le> cap p r"
    and reserve_cap: "reserve p c = Inr q \<Longrightarrow> cap q = cap p"
    and release_total: "(\<And>r. r \<in> dims \<Longrightarrow> amt c r \<le> used p r) \<Longrightarrow> \<exists>q. release p c = Some q"
    and release_used: "release p c = Some q \<Longrightarrow> r \<in> dims \<Longrightarrow> used p r = used q r + amt c r"
    and release_cap: "release p c = Some q \<Longrightarrow> cap q = cap p"
begin

definition balanced :: "'p \<Rightarrow> 'c multiset \<Rightarrow> bool" where
  "balanced p live \<longleftrightarrow>
    (\<forall>r \<in> dims. used p r = (\<Sum>c \<in># live. amt c r) \<and> used p r \<le> cap p r)"

lemma balanced_reserve:
  "balanced p live \<Longrightarrow> reserve p c = Inr q \<Longrightarrow> balanced q (add_mset c live)"
  using reserve_used reserve_fits reserve_cap by (fastforce simp: balanced_def)

lemma covered:
  assumes "balanced p live" "c \<in># live" "r \<in> dims"
  shows "amt c r \<le> used p r"
proof -
  obtain rest where "live = add_mset c rest" using assms(2) by (metis insert_DiffM)
  with assms show ?thesis by (auto simp: balanced_def)
qed

lemma live_release_total: "balanced p live \<Longrightarrow> c \<in># live \<Longrightarrow> \<exists>q. release p c = Some q"
  by (rule release_total) (rule covered)

lemma balanced_release:
  assumes "balanced p live" "c \<in># live" "release p c = Some q"
  shows "balanced q (live - {#c#})"
proof -
  obtain rest where rest: "live = add_mset c rest" using assms(2) by (metis insert_DiffM)
  have "used p r = used q r + amt c r" "cap q = cap p" if "r \<in> dims" for r
    using release_used release_cap assms(3) that by blast+
  with assms(1) show ?thesis by (fastforce simp: balanced_def rest)
qed

lemma reserve_release:
  assumes "reserve p c = Inr q"
  obtains q' where "release q c = Some q'" "\<And>r. r \<in> dims \<Longrightarrow> used q' r = used p r"
proof -
  have "amt c r \<le> used q r" if "r \<in> dims" for r
    using reserve_used [OF assms that] by simp
  then obtain q' where q': "release q c = Some q'" using release_total by blast
  moreover have "used q' r = used p r" if "r \<in> dims" for r
    using release_used [OF q' that] reserve_used [OF assms that] by simp
  ultimately show thesis using that by blast
qed

end

definition pool_used :: "ResourcePoolInner \<Rightarrow> string \<Rightarrow> nat" where
  "pool_used p r = amount (pool_usage p) r"

definition pool_cap :: "ResourcePoolInner \<Rightarrow> string \<Rightarrow> nat" where
  "pool_cap p r = amount (as_claim (pool_limits p)) r"

lemma find_excess_None:
  "find (\<lambda>(r, v). claim_value l r < claim_value u r) (dimensions c) = None \<longleftrightarrow>
    (\<forall>r \<in> set resource_names. amount u r \<le> amount l r)"
proof -
  have "\<not> claim_value l r < claim_value u r \<longleftrightarrow> amount u r \<le> amount l r" for r
    by (simp add: amount_def word_less_nat_alt linorder_not_less)
  then show ?thesis by (force simp: find_None_iff dimensions_iff)
qed

lemma ResourcePool_reserve_Inr:
  "ResourcePool_reserve p c = Inr q \<longleftrightarrow>
    (\<exists>u. q = p \<lparr> pool_usage := u \<rparr> \<and>
      (\<forall>r \<in> set resource_names. amount u r = amount (pool_usage p) r + amount c r
        \<and> amount u r \<le> pool_cap p r))"
proof (cases "claim_checked_add (pool_usage p) c")
  case None
  then have "\<not> (\<forall>r \<in> set resource_names. amount u r = amount (pool_usage p) r + amount c r)" for u
    using claim_checked_add_Some [of "pool_usage p" c u] by simp
  moreover have "ResourcePool_reserve p c \<noteq> Inr q"
    using None by (simp add: ResourcePool_reserve_def)
  ultimately show ?thesis by blast
next
  case (Some u)
  let ?find = "find (\<lambda>(r, v). claim_value (as_claim (pool_limits p)) r < claim_value u r)
    (dimensions c)"
  have u: "u = u'" if "\<forall>r \<in> set resource_names. amount u' r = amount (pool_usage p) r + amount c r"
    for u' using Some that claim_checked_add_Some [of "pool_usage p" c u'] by simp
  have "ResourcePool_reserve p c = Inr q \<longleftrightarrow> ?find = None \<and> q = p \<lparr> pool_usage := u \<rparr>"
    using Some by (cases ?find) (auto simp: ResourcePool_reserve_def Let_def)
  also have "\<dots> \<longleftrightarrow> (\<forall>r \<in> set resource_names. amount u r \<le> pool_cap p r)
      \<and> q = p \<lparr> pool_usage := u \<rparr>"
    by (simp add: find_excess_None pool_cap_def)
  finally show ?thesis
    using Some [unfolded claim_checked_add_Some] u by blast
qed

lemma ResourcePool_release_Some:
  "ResourcePool_release p c = Some q \<longleftrightarrow>
    (\<exists>u. q = p \<lparr> pool_usage := u \<rparr> \<and>
      (\<forall>r \<in> set resource_names. amount (pool_usage p) r = amount u r + amount c r))"
  unfolding ResourcePool_release_def map_option_eq_Some claim_checked_sub_Some by blast

interpretation pool: quota_ledger pool_used pool_cap amount "set resource_names"
  ResourcePool_reserve ResourcePool_release
proof unfold_locales
  fix p c
  assume "\<And>r. r \<in> set resource_names \<Longrightarrow> amount c r \<le> pool_used p r"
  then obtain u where "claim_checked_sub (pool_usage p) c = Some u"
    using claim_checked_sub_total [of c "pool_usage p"] by (auto simp: pool_used_def)
  then show "\<exists>q. ResourcePool_release p c = Some q" by (simp add: ResourcePool_release_def)
qed (auto simp: ResourcePool_reserve_Inr ResourcePool_release_Some pool_used_def pool_cap_def
    fun_eq_iff)

section \<open>Every interleaving keeps the pools balanced\<close>

definition live_at :: "pool_addr \<Rightarrow> PoolReservation multiset \<Rightarrow> ResourceClaim multiset" where
  "live_at a live = image_mset snd (filter_mset (\<lambda>r. fst r = a) live)"

definition quota_inv :: "quota_state \<Rightarrow> bool" where
  "quota_inv st \<longleftrightarrow>
    (\<forall>a < length (fst st). pool.balanced (fst st ! a) (live_at a (snd st))) \<and>
    (\<forall>r \<in># snd st. fst r < length (fst st))"

lemma live_at_add [simp]:
  "live_at a (add_mset (b, c) live) = (if a = b then add_mset c (live_at a live) else live_at a live)"
  by (simp add: live_at_def)

lemma live_at_remove:
  "(b, c) \<in># live \<Longrightarrow> live_at a (live - {#(b, c)#})
    = (if a = b then live_at a live - {#c#} else live_at a live)"
  by (auto simp: live_at_def image_mset_Diff dest!: multi_member_split)

lemma live_at_member: "(a, c) \<in># live \<Longrightarrow> c \<in># live_at a live"
  by (force simp: live_at_def)

lemma live_at_fresh: "\<forall>r \<in># live. fst r < n \<Longrightarrow> live_at n live = {#}"
  by (induction live) (auto simp: live_at_def)

lemma fresh_balanced:
  assumes "ResourcePool_new scope l = Inr p"
  shows "pool.balanced p {#}"
  using assms unfolding pool.balanced_def
  by (auto simp: ResourcePool_new_def result_simps pool_used_def)

lemma quota_inv_initial: "quota_inv ([], {#})"
  by (simp add: quota_inv_def)

lemma quota_inv_new:
  assumes inv: "quota_inv (store, live)" and new: "ResourcePool_new scope l = Inr p"
  shows "quota_inv (store @ [p], live)"
proof -
  from inv have fresh: "live_at (length store) live = {#}"
    by (intro live_at_fresh) (simp add: quota_inv_def)
  show ?thesis
    using inv fresh fresh_balanced [OF new]
    by (auto simp: quota_inv_def nth_append less_Suc_eq)
qed

lemma quota_inv_reserve:
  assumes "quota_inv (store, live)" "a < length store" "ResourcePool_reserve (store ! a) c = Inr p"
  shows "quota_inv (store[a := p], add_mset (a, c) live)"
  using assms pool.balanced_reserve by (auto simp: quota_inv_def nth_list_update)

lemma quota_inv_drop:
  assumes inv: "quota_inv (store, live)" and r: "r \<in># live"
    and drop: "PoolReservation_drop store r = Some store'"
  shows "quota_inv (store', live - {#r#})"
proof -
  obtain a c where ac: "r = (a, c)" by (cases r)
  obtain p where p: "ResourcePool_release (store ! a) c = Some p" "store' = store[a := p]"
    using drop by (auto simp: ac)
  have a: "a < length store" using inv r by (auto simp: quota_inv_def ac)
  have "pool.balanced p (live_at a live - {#c#})"
    using inv a r p(1) by (intro pool.balanced_release [OF _ live_at_member])
      (auto simp: quota_inv_def ac)
  then show ?thesis
    using inv r by (auto simp: quota_inv_def ac p(2) nth_list_update live_at_remove dest: in_diffD)
qed

lemma quota_inv_step: "quota_step st st' \<Longrightarrow> quota_inv st \<Longrightarrow> quota_inv st'"
  by (induction rule: quota_step.induct)
    (auto intro: quota_inv_new quota_inv_reserve quota_inv_drop)

lemma quota_inv_reachable: "quota_step\<^sup>*\<^sup>* ([], {#}) st \<Longrightarrow> quota_inv st"
  by (induction rule: rtranclp_induct) (auto intro: quota_inv_step quota_inv_initial)

text \<open>C17. Quota accounting. In every state reachable by creating pools, granting
  reservations and dropping them in any interleaving, the recorded usage of every
  pool is, in each of the twelve dimensions, exactly the sum of the claims of the
  reservations alive on that pool, and it is within the limit of the pool.\<close>

theorem quota_accounting:
  assumes "quota_step\<^sup>*\<^sup>* ([], {#}) (store, live)"
    and "a < length store" and "r \<in> set resource_names"
  shows "amount (pool_usage (store ! a)) r = (\<Sum>c \<in># live_at a live. amount c r) \<and>
    amount (pool_usage (store ! a)) r \<le> amount (as_claim (pool_limits (store ! a))) r"
proof -
  have "pool.balanced (store ! a) (live_at a live)"
    using quota_inv_reachable [OF assms(1)] assms(2) by (simp add: quota_inv_def)
  then show ?thesis
    using assms(3) unfolding pool.balanced_def pool_used_def pool_cap_def by blast
qed

text \<open>A reachable state with one reservation, on which the properties are applied.\<close>

definition demo_pool :: ResourcePoolInner where
  "demo_pool = \<lparr> pool_scope = ''user demo'', pool_limits = ResourceLimits_user_defaults,
    pool_usage = ResourceClaim_default \<rparr>"

definition demo_pool_busy :: ResourcePoolInner where
  "demo_pool_busy = demo_pool \<lparr> pool_usage := ResourceClaim_stream \<rparr>"

lemma demo_pool_new: "ResourcePool_new ''user demo'' ResourceLimits_user_defaults = Inr demo_pool"
  by (simp add: ResourcePool_new_def demo_pool_def ResourceLimits_validate_def
      ResourceLimits_user_defaults_def as_claim_def dimensions_def MIB_def GIB_def)

lemma demo_pool_reserve: "ResourcePool_reserve demo_pool ResourceClaim_stream = Inr demo_pool_busy"
  unfolding ResourcePool_reserve_Inr
  by (intro exI [of _ ResourceClaim_stream])
    (simp add: demo_pool_busy_def ball_resource_names amount_def demo_pool_def pool_cap_def
      ResourceClaim_stream_def ResourceClaim_default_def ResourceLimits_user_defaults_def
      as_claim_def MIB_def GIB_def)

lemma demo_reachable:
  "quota_step\<^sup>*\<^sup>* ([], {#}) ([demo_pool_busy], {#(0, ResourceClaim_stream)#})"
proof -
  have "quota_step ([], {#}) ([demo_pool], {#})"
    using quota_step.pool_created [OF demo_pool_new, of "[]" "{#}"] by simp
  moreover have "quota_step ([demo_pool], {#}) ([demo_pool_busy], {#(0, ResourceClaim_stream)#})"
    using quota_step.reserved [of 0 "[demo_pool]" ResourceClaim_stream demo_pool_busy "{#}"]
      demo_pool_reserve by simp
  ultimately show ?thesis by (rule rtranclp_trans [OF r_into_rtranclp r_into_rtranclp])
qed

theorem quota_accounting_witness:
  "amount (pool_usage demo_pool_busy) ''streams'' =
      (\<Sum>c \<in># live_at 0 {#(0, ResourceClaim_stream)#}. amount c ''streams'') \<and>
    amount (pool_usage demo_pool_busy) ''streams'' = 1"
  using quota_accounting [OF demo_reachable, of 0 "''streams''"]
  by (simp add: resource_names_def dimensions_def amount_def demo_pool_busy_def
      ResourceClaim_stream_def)

text \<open>C33. A destructor never panics: in every reachable state, dropping any
  reservation that is alive succeeds, so the \<^verbatim>\<open>expect\<close> on the underflow of the
  accounting in \<^verbatim>\<open>PoolReservation::drop\<close> cannot fire.\<close>

theorem drop_never_panics:
  assumes "quota_step\<^sup>*\<^sup>* ([], {#}) (store, live)" and "r \<in># live"
  shows "\<exists>store'. PoolReservation_drop store r = Some store' \<and>
    quota_step (store, live) (store', live - {#r#})"
proof -
  obtain a c where ac: "r = (a, c)" by (cases r)
  have inv: "quota_inv (store, live)" by (rule quota_inv_reachable [OF assms(1)])
  then have "pool.balanced (store ! a) (live_at a live)"
    using assms(2) by (auto simp: quota_inv_def ac)
  then obtain p where "ResourcePool_release (store ! a) c = Some p"
    using pool.live_release_total live_at_member assms(2) ac by blast
  then have "PoolReservation_drop store r = Some (store[a := p])" by (simp add: ac)
  then show ?thesis using assms(2) quota_step.dropped by blast
qed

theorem drop_never_panics_witness:
  "\<exists>store'. PoolReservation_drop [demo_pool_busy] (0, ResourceClaim_stream) = Some store'"
  using drop_never_panics [OF demo_reachable, of "(0, ResourceClaim_stream)"] by auto

section \<open>Reservations are all or nothing\<close>

lemma ResourcePool_reserve_ok_iff:
  "(\<exists>q. ResourcePool_reserve p c = Inr q) \<longleftrightarrow>
    (\<forall>r \<in> set resource_names. amount (pool_usage p) r + amount c r \<le> pool_cap p r)"
    (is "?L \<longleftrightarrow> ?R")
proof
  assume ?L
  then obtain u where "\<forall>r \<in> set resource_names. amount u r = amount (pool_usage p) r + amount c r
      \<and> amount u r \<le> pool_cap p r"
    unfolding ResourcePool_reserve_Inr by blast
  then show ?R by fastforce
next
  assume fits: ?R
  have "amount (pool_usage p) r + amount c r < 2 ^ 64" if "r \<in> set resource_names" for r
    using fits that amount_less [of "as_claim (pool_limits p)" r]
    by (auto simp: pool_cap_def intro: le_less_trans)
  then obtain u where u: "claim_checked_add (pool_usage p) c = Some u"
    using claim_checked_add_total by blast
  then have "ResourcePool_reserve p c = Inr (p \<lparr> pool_usage := u \<rparr>)"
    using fits unfolding ResourcePool_reserve_Inr claim_checked_add_Some
    by (intro exI [of _ u]) simp
  then show ?L by blast
qed

lemma reserve_then_release:
  assumes "ResourcePool_reserve p c = Inr q"
  shows "ResourcePool_release q c = Some p"
proof -
  obtain u where q: "q = p \<lparr> pool_usage := u \<rparr>"
    and u: "\<forall>r \<in> set resource_names. amount u r = amount (pool_usage p) r + amount c r"
    using assms unfolding ResourcePool_reserve_Inr by blast
  show ?thesis unfolding ResourcePool_release_Some
    by (rule exI [of _ "pool_usage p"]) (simp add: q u)
qed

lemma drop_reservations_append:
  "drop_reservations store (rs @ rs') =
    Option.bind (drop_reservations store rs) (\<lambda>store'. drop_reservations store' rs')"
proof (induction rs arbitrary: store)
  case (Cons r rs)
  then show ?case by (cases "PoolReservation_drop store r") simp_all
qed simp

lemma drop_reservations_frame:
  "a \<notin> fst ` set rs \<Longrightarrow> drop_reservations store rs = Some store' \<Longrightarrow>
    drop_reservations (store[a := p]) rs = Some (store'[a := p]) \<and> store' ! a = store ! a"
proof (induction rs arbitrary: store)
  case (Cons r rs)
  obtain b c where r: "r = (b, c)" by (cases r)
  then have "a \<noteq> b" using Cons.prems(1) by simp
  from Cons.prems(2) obtain q where q: "ResourcePool_release (store ! b) c = Some q"
    "drop_reservations (store[b := q]) rs = Some store'"
    by (auto simp: r bind_eq_Some_conv)
  show ?case
    using Cons.IH [OF _ q(2)] Cons.prems(1) q(1) \<open>a \<noteq> b\<close>
    by (simp add: r list_update_swap [of a b])
qed simp

lemma drop_reservations_length:
  "drop_reservations store rs = Some store' \<Longrightarrow> length store' = length store"
  by (induction rs arbitrary: store) (auto simp: bind_eq_Some_conv)

lemma account_reserve_loop_atomic:
  assumes "distinct (map fst done_so_far @ account)" "\<forall>a \<in> set account. a < length store"
    and "drop_reservations store done_so_far = Some store0"
  obtains store' res where
    "account_reserve_loop store account claim done_so_far = Some (store', res)"
    "res = Inr (done_so_far @ map (\<lambda>a. (a, claim)) account)
      \<and> drop_reservations store' (done_so_far @ map (\<lambda>a. (a, claim)) account) = Some store0
     \<or> (\<exists>e. res = Inl e \<and> store' = store0)"
  using assms
proof (induction account arbitrary: store done_so_far thesis)
  case (Cons a account)
  show ?case
  proof (cases "ResourcePool_reserve (store ! a) claim")
    case (Inl e)
    then show ?thesis using Cons.prems by simp
  next
    case (Inr p)
    have a: "a \<notin> fst ` set done_so_far" "a < length store" using Cons.prems by auto
    have frame: "drop_reservations (store[a := p]) done_so_far = Some (store0[a := p])"
      "store0 ! a = store ! a"
      using drop_reservations_frame [OF a(1) Cons.prems(4)] by blast+
    have dropped: "drop_reservations (store[a := p]) (done_so_far @ [(a, claim)]) = Some store0"
      using a(2) reserve_then_release [OF Inr] drop_reservations_length [OF Cons.prems(4)]
      by (simp add: drop_reservations_append frame(1) flip: frame(2))
    show ?thesis
      by (rule Cons.IH [of "store[a := p]" "done_so_far @ [(a, claim)]"])
        (use Cons.prems dropped Inr in auto)
  qed
qed auto

text \<open>C34. Account reservations are atomic. On an account over distinct pools the
  layered reservation always returns; a refusal leaves every pool exactly as it
  was, and a grant holds the claim on every pool of the account, so that dropping
  the reservation restores the store.\<close>

theorem account_reserve_atomic:
  assumes "distinct account" and "\<forall>a \<in> set account. a < length store"
  shows "\<exists>store' res. ResourceAccount_reserve store account claim = Some (store', res) \<and>
    (case res of
      Inl e \<Rightarrow> store' = store
    | Inr rs \<Rightarrow> rs = map (\<lambda>a. (a, claim)) account \<and> drop_reservations store' rs = Some store)"
proof (rule account_reserve_loop_atomic [of "[]" account store store claim])
  fix store' res
  assume "account_reserve_loop store account claim [] = Some (store', res)"
    and "res = Inr ([] @ map (\<lambda>a. (a, claim)) account)
      \<and> drop_reservations store' ([] @ map (\<lambda>a. (a, claim)) account) = Some store
     \<or> (\<exists>e. res = Inl e \<and> store' = store)"
  then show ?thesis unfolding ResourceAccount_reserve_def by auto
qed (use assms in auto)

theorem account_reserve_atomic_witness:
  "\<exists>store' res. ResourceAccount_reserve [demo_pool, demo_pool_busy] [0, 1] ResourceClaim_stream
      = Some (store', res) \<and>
    (case res of
      Inl e \<Rightarrow> store' = [demo_pool, demo_pool_busy]
    | Inr rs \<Rightarrow> rs = map (\<lambda>a. (a, ResourceClaim_stream)) [0, 1]
        \<and> drop_reservations store' rs = Some [demo_pool, demo_pool_busy])"
  by (rule account_reserve_atomic) simp_all

section \<open>What a validated policy guarantees\<close>

lemma ResourcePolicy_validate_fits:
  assumes "ResourcePolicy_validate p = Inr ()" and r: "r \<in> set resource_names"
  shows "amount (as_claim (policy_user p)) r \<le> amount (as_claim (policy_global p)) r"
proof -
  have "try_each (\<lambda>(resource, user_limit).
        if user_limit \<le> claim_value (as_claim (policy_global p)) resource then Inr ()
        else bail ''global {resource} limit must fit one complete user capacity'')
        (dimensions (as_claim (policy_user p))) = Inr ()"
    using assms(1) unfolding ResourcePolicy_validate_def and_then_Inr if_bail_Inr by blast
  moreover have "(r, claim_value (as_claim (policy_user p)) r) \<in> set (dimensions (as_claim (policy_user p)))"
    using r by (simp add: dimensions_iff)
  ultimately have "claim_value (as_claim (policy_user p)) r \<le> claim_value (as_claim (policy_global p)) r"
    unfolding try_each_Inr by (fastforce split: if_splits)
  then show ?thesis by (simp add: amount_def word_le_nat_alt)
qed

lemma worker_capacity_within_user:
  assumes "ResourcePolicy_validate p = Inr ()" and "r \<in> set resource_names"
  shows "amount (worker_capacity_claim p) r \<le> amount (as_claim (policy_user p)) r"
proof -
  have one: "lim_workers (policy_user p) = 1"
    using assms(1) unfolding ResourcePolicy_validate_def and_then_Inr if_bail_Inr by blast
  have "\<forall>r \<in> set resource_names. amount (worker_capacity_claim p) r \<le> amount (as_claim (policy_user p)) r"
    unfolding ball_resource_names
    by (simp add: amount_def worker_capacity_claim_def as_claim_def ResourceClaim_default_def one)
  then show ?thesis using assms(2) by blast
qed

lemma ResourcePolicy_validate_limits:
  assumes "ResourcePolicy_validate p = Inr ()"
  shows "ResourceLimits_validate (policy_global p) scope = Inr ()"
    and "ResourceLimits_validate (policy_user p) scope = Inr ()"
  using assms unfolding ResourcePolicy_validate_def and_then_unit ResourceLimits_validate_def
  by blast+

definition fresh_pool :: "string \<Rightarrow> ResourceLimits \<Rightarrow> ResourcePoolInner" where
  "fresh_pool scope l =
    \<lparr> pool_scope = scope, pool_limits = l, pool_usage = ResourceClaim_default \<rparr>"

lemma fresh_pool_reserve:
  assumes "\<And>r. r \<in> set resource_names \<Longrightarrow> amount c r \<le> amount (as_claim l) r"
  obtains q where "ResourcePool_reserve (fresh_pool scope l) c = Inr q"
proof -
  have "\<exists>q. ResourcePool_reserve (fresh_pool scope l) c = Inr q"
    unfolding ResourcePool_reserve_ok_iff
    using assms by (simp add: fresh_pool_def pool_cap_def)
  then show thesis using that by blast
qed

lemma second_worker_refused:
  assumes valid: "ResourcePolicy_validate p = Inr ()"
    and first: "ResourcePool_reserve (fresh_pool scope (policy_user p)) (worker_capacity_claim p) = Inr q"
  obtains e where "ResourcePool_reserve q (worker_capacity_claim p) = Inl e"
proof -
  let ?w = "''workers''"
  have w: "?w \<in> set resource_names" by (simp add: resource_names_def dimensions_def)
  obtain u where q: "q = fresh_pool scope (policy_user p) \<lparr> pool_usage := u \<rparr>"
    and u: "\<forall>r \<in> set resource_names. amount u r = amount (worker_capacity_claim p) r"
    using first unfolding ResourcePool_reserve_Inr by (auto simp: fresh_pool_def)
  have "lim_workers (policy_user p) = 1"
    using valid unfolding ResourcePolicy_validate_def and_then_Inr if_bail_Inr by blast
  then have cap: "pool_cap q ?w = 1" by (simp add: q pool_cap_def fresh_pool_def amount_def as_claim_def)
  have one: "amount (worker_capacity_claim p) ?w = 1"
    by (simp add: amount_def worker_capacity_claim_def)
  have "amount (pool_usage q) ?w = 1" using u w one by (simp add: q)
  with one cap w have "\<not> (\<exists>q'. ResourcePool_reserve q (worker_capacity_claim p) = Inr q')"
    unfolding ResourcePool_reserve_ok_iff by force
  then show thesis using that by (metis Inr_Inl_False sum.exhaust_sel)
qed

text \<open>C35. A policy that validates can host a worker. The governor of a validated
  policy starts; on it, any user with a nonempty name gets an account on which the
  complete worker capacity of that user can be reserved, and while that
  reservation lives a second worker for the user is refused without changing any
  pool.\<close>

theorem validated_policy_hosts_one_worker:
  assumes "ResourcePolicy_validate p = Inr ()" and "user \<noteq> []"
  shows "\<exists>store g store' g' account store'' rs e.
    ResourceGovernor_new [] p = Inr (store, g) \<and>
    ResourceGovernor_account store g user = Inr (store', g', account) \<and>
    ResourceAccount_reserve store' account (worker_capacity_claim p) = Some (store'', Inr rs) \<and>
    ResourceAccount_reserve store'' account (worker_capacity_claim p) = Some (store'', Inl e)"
proof -
  let ?c = "worker_capacity_claim p"
  let ?G = "fresh_pool ''global'' (policy_global p)"
  let ?U = "fresh_pool (''user '' @ user) (policy_user p)"
  define g where "g = \<lparr> gov_global = 0, gov_users = Map.empty, gov_user_limits = policy_user p \<rparr>"
  note fits = worker_capacity_within_user [OF assms(1)] ResourcePolicy_validate_fits [OF assms(1)]
  obtain G1 where G1: "ResourcePool_reserve ?G ?c = Inr G1"
    using fits by (rule fresh_pool_reserve [OF le_trans])
  obtain U1 where U1: "ResourcePool_reserve ?U ?c = Inr U1"
    using fits(1) by (rule fresh_pool_reserve)
  obtain e where e: "ResourcePool_reserve U1 ?c = Inl e"
    using second_worker_refused [OF assms(1) U1] .
  have new: "ResourceGovernor_new [] p = Inr ([?G], g)"
    using assms(1) ResourcePolicy_validate_limits [OF assms(1)]
    by (simp add: ResourceGovernor_new_def ResourcePool_new_def fresh_pool_def g_def)
  have account: "ResourceGovernor_account [?G] g user =
      Inr ([?G, ?U], g \<lparr> gov_users := [user \<mapsto> 1] \<rparr>, [0, 1])"
    using assms(2) ResourcePolicy_validate_limits [OF assms(1)]
    by (simp add: ResourceGovernor_account_def ResourcePool_new_def fresh_pool_def g_def Let_def
        ResourceAccount_layered_def)
  have first: "ResourceAccount_reserve [?G, ?U] [0, 1] ?c = Some ([G1, U1], Inr [(0, ?c), (1, ?c)])"
    using G1 U1 by (simp add: ResourceAccount_reserve_def)
  have "\<exists>e. ResourceAccount_reserve [G1, U1] [0, 1] ?c = Some ([G1, U1], Inl e)"
    using e by (auto simp: ResourceAccount_reserve_def reserve_then_release split: sum.split)
  with new account first show ?thesis by blast
qed

lemma ResourcePolicy_default_valid: "ResourcePolicy_validate ResourcePolicy_default = Inr ()"
  by (simp add: ResourcePolicy_validate_def ResourceLimits_validate_def ResourcePolicy_default_def
      ResourceLimits_user_defaults_def ResourceLimits_global_defaults_def as_claim_def
      dimensions_def MIB_def GIB_def starts_with_def MAX_TERMINAL_HISTORY_ROWS_def
      MAX_TERMINAL_HISTORY_BYTES_def DEFAULT_TERMINAL_HISTORY_ROWS_def claim_value_def)

theorem validated_policy_hosts_one_worker_witness:
  "\<exists>store g store' g' account store'' rs e.
    ResourceGovernor_new [] ResourcePolicy_default = Inr (store, g) \<and>
    ResourceGovernor_account store g ''alice'' = Inr (store', g', account) \<and>
    ResourceAccount_reserve store' account (worker_capacity_claim ResourcePolicy_default)
      = Some (store'', Inr rs) \<and>
    ResourceAccount_reserve store'' account (worker_capacity_claim ResourcePolicy_default)
      = Some (store'', Inl e)"
  by (rule validated_policy_hosts_one_worker) (simp_all add: ResourcePolicy_default_valid)

end
