(* ===== verification/Terminal_State.thy ===== *)
theory Terminal_State
  imports Prelude
begin

text \<open>
  The semantic terminal state (\<^verbatim>\<open>src/terminal_state_v2.rs\<close>): its messages as
  records, its enumerations as datatypes, and the validators every received state
  and history page passes. Two functions are not part of the repository and are
  parameters of the validators that call them: the encoded length of a message
  (\<^verbatim>\<open>prost\<close>) and the number of grapheme clusters of a string
  (\<^verbatim>\<open>unicode-segmentation\<close>).

  The lemmas read the validators declaratively: what a successful validation says
  of the rows, cells, tables and cursors, and that validation never indexes a row
  that is not there.
\<close>

section \<open>Bounds\<close>

definition SCHEMA_VERSION :: u32 where
  "SCHEMA_VERSION = 2"

definition EPOCH_BYTES :: usize where
  "EPOCH_BYTES = 16"

definition MAX_ENCODED_STATE_BYTES :: usize where
  "MAX_ENCODED_STATE_BYTES = 8 * 1024 * 1024"

definition MAX_ENCODED_HISTORY_PAGE_BYTES :: usize where
  "MAX_ENCODED_HISTORY_PAGE_BYTES = 4 * 1024 * 1024"

definition MAX_DIMENSION :: u32 where
  "MAX_DIMENSION = 1000"

definition MAX_INCLUDED_ROWS :: usize where
  "MAX_INCLUDED_ROWS = 4096"

definition MAX_HISTORY_PAGE_ROWS :: usize where
  "MAX_HISTORY_PAGE_ROWS = 512"

definition MAX_CELLS :: usize where
  "MAX_CELLS = 1000000"

definition MAX_GRAPHEME_BYTES :: usize where
  "MAX_GRAPHEME_BYTES = 256"

definition MAX_STYLES :: usize where
  "MAX_STYLES = 4096"

definition MAX_HYPERLINKS :: usize where
  "MAX_HYPERLINKS = 4096"

definition MAX_HYPERLINK_URI_BYTES :: usize where
  "MAX_HYPERLINK_URI_BYTES = 16 * 1024"

definition MAX_HYPERLINK_EXPLICIT_ID_BYTES :: usize where
  "MAX_HYPERLINK_EXPLICIT_ID_BYTES = 1024"

definition MAX_TITLE_BYTES :: usize where
  "MAX_TITLE_BYTES = 512"

definition MAX_WORKING_DIRECTORY_BYTES :: usize where
  "MAX_WORKING_DIRECTORY_BYTES = 16 * 1024"

section \<open>Messages\<close>

record Anchor =
  logical_line_id :: u64
  cell_offset :: u32

record Cell =
  cell_column :: u32
  cell_grapheme :: string
  cell_width :: u32
  cell_style_id :: u32
  cell_hyperlink_id :: u64

record Row =
  row_start :: "Anchor option"
  row_version :: u64
  row_cells :: "Cell list"
  wrapped_to_next :: bool

record Cursor =
  cursor_x :: u32
  cursor_y :: u32
  cursor_anchor :: "Anchor option"
  cursor_shape :: i32
  cursor_visible :: bool
  cursor_version :: u64
  wrap_pending :: bool

record Screen =
  included_rows :: "Row list"
  viewport_start :: u32
  screen_cursor :: "Cursor option"
  saved_cursor :: "Cursor option"
  oldest_available :: "Anchor option"
  newest_available :: "Anchor option"
  included_start :: "Anchor option"
  included_end :: "Anchor option"
  scroll_margin_top :: u32
  scroll_margin_bottom :: u32
  scroll_margin_left :: u32
  scroll_margin_right :: u32
  tab_stops :: "u32 list"

datatype color_Value = DefaultColor bool | PaletteIndex u32 | Rgb u32

record Color =
  color_value :: "color_Value option"

record Style =
  style_id :: u32
  foreground :: "Color option"
  background :: "Color option"
  underline_color :: "Color option"
  style_intensity :: i32
  style_underline :: i32
  style_blink :: i32
  italic :: bool
  reverse :: bool
  strikethrough :: bool
  invisible :: bool
  overline :: bool
  style_semantic_type :: i32
  style_vertical_align :: i32

record Hyperlink =
  hyperlink_id :: u64
  uri :: string
  explicit_id :: string

record Modes =
  application_cursor_keys :: bool
  application_keypad :: bool
  bracketed_paste :: bool
  focus_tracking :: bool
  origin :: bool
  insert_mode :: bool
  auto_wrap :: bool
  reverse_wraparound :: bool
  newline :: bool
  left_right_margin :: bool
  reverse_video :: bool
  mouse_tracking :: i32
  mouse_encoding :: i32
  keyboard_encoding :: i32
  keyboard_flags :: u32
  alternate_scroll :: bool

record Palette =
  indexed_rgb :: "u32 list"
  foreground_rgb :: u32
  background_rgb :: u32
  cursor_fg_rgb :: u32
  cursor_bg_rgb :: u32
  selection_fg_rgb :: u32
  selection_bg_rgb :: u32

record State =
  schema_version :: u32
  state_epoch :: bytes
  state_generation :: u64
  state_rows :: u32
  state_cols :: u32
  primary :: "Screen option"
  alternate :: "Screen option"
  active_screen :: i32
  styles :: "Style list"
  hyperlinks :: "Hyperlink list"
  modes :: "Modes option"
  title :: string
  working_directory :: string
  palette :: "Palette option"

record HistoryPageRequest =
  request_epoch :: bytes
  before :: "Anchor option"
  maximum_rows :: u32

record HistoryPage =
  page_request_id :: u64
  page_epoch :: bytes
  page_generation :: u64
  page_cols :: u32
  page_included_rows :: "Row list"
  page_oldest_available :: "Anchor option"
  page_newest_available :: "Anchor option"
  page_included_start :: "Anchor option"
  page_included_end :: "Anchor option"
  page_styles :: "Style list"
  page_hyperlinks :: "Hyperlink list"
  more_before :: bool
  reset_required :: bool

section \<open>Enumerations\<close>

datatype ScreenKind = ScreenKind_Unspecified | ScreenKind_Primary | ScreenKind_Alternate

datatype CursorShape =
  CursorShape_Unspecified | CursorShape_Block | CursorShape_Underline | CursorShape_Bar

datatype Intensity = Intensity_Normal | Intensity_Bold | Intensity_Faint

datatype Underline = Underline_None | Underline_Single | Underline_Double
  | Underline_Curly | Underline_Dotted | Underline_Dashed

datatype Blink = Blink_None | Blink_Slow | Blink_Rapid

datatype SemanticType = SemanticType_Output | SemanticType_Input | SemanticType_Prompt

datatype VerticalAlign =
  VerticalAlign_Baseline | VerticalAlign_Superscript | VerticalAlign_Subscript

datatype MouseTracking = MouseTracking_None | MouseTracking_X10 | MouseTracking_Vt200
  | MouseTracking_ButtonEvent | MouseTracking_AnyEvent

datatype MouseEncoding = MouseEncoding_Default | MouseEncoding_Utf8 | MouseEncoding_Sgr
  | MouseEncoding_SgrPixels

datatype KeyboardEncoding = KeyboardEncoding_Xterm | KeyboardEncoding_CsiU | KeyboardEncoding_Kitty

text \<open>The derived \<^verbatim>\<open>TryFrom<i32>\<close>: the variants in the order of their values from 0.\<close>

definition enum_try_from :: "'a list \<Rightarrow> i32 \<Rightarrow> 'a option" where
  "enum_try_from variants v =
    (if unat v < length variants then Some (variants ! unat v) else None)"

definition ScreenKind_try_from :: "i32 \<Rightarrow> ScreenKind option" where
  "ScreenKind_try_from =
    enum_try_from [ScreenKind_Unspecified, ScreenKind_Primary, ScreenKind_Alternate]"

definition CursorShape_try_from :: "i32 \<Rightarrow> CursorShape option" where
  "CursorShape_try_from = enum_try_from
    [CursorShape_Unspecified, CursorShape_Block, CursorShape_Underline, CursorShape_Bar]"

definition Intensity_try_from :: "i32 \<Rightarrow> Intensity option" where
  "Intensity_try_from = enum_try_from [Intensity_Normal, Intensity_Bold, Intensity_Faint]"

definition Underline_try_from :: "i32 \<Rightarrow> Underline option" where
  "Underline_try_from = enum_try_from [Underline_None, Underline_Single, Underline_Double,
    Underline_Curly, Underline_Dotted, Underline_Dashed]"

definition Blink_try_from :: "i32 \<Rightarrow> Blink option" where
  "Blink_try_from = enum_try_from [Blink_None, Blink_Slow, Blink_Rapid]"

definition SemanticType_try_from :: "i32 \<Rightarrow> SemanticType option" where
  "SemanticType_try_from =
    enum_try_from [SemanticType_Output, SemanticType_Input, SemanticType_Prompt]"

definition VerticalAlign_try_from :: "i32 \<Rightarrow> VerticalAlign option" where
  "VerticalAlign_try_from =
    enum_try_from [VerticalAlign_Baseline, VerticalAlign_Superscript, VerticalAlign_Subscript]"

definition MouseTracking_try_from :: "i32 \<Rightarrow> MouseTracking option" where
  "MouseTracking_try_from = enum_try_from [MouseTracking_None, MouseTracking_X10,
    MouseTracking_Vt200, MouseTracking_ButtonEvent, MouseTracking_AnyEvent]"

definition MouseEncoding_try_from :: "i32 \<Rightarrow> MouseEncoding option" where
  "MouseEncoding_try_from = enum_try_from
    [MouseEncoding_Default, MouseEncoding_Utf8, MouseEncoding_Sgr, MouseEncoding_SgrPixels]"

definition KeyboardEncoding_try_from :: "i32 \<Rightarrow> KeyboardEncoding option" where
  "KeyboardEncoding_try_from =
    enum_try_from [KeyboardEncoding_Xterm, KeyboardEncoding_CsiU, KeyboardEncoding_Kitty]"

section \<open>Validators\<close>

definition anchor_key :: "Anchor \<Rightarrow> u64 \<times> u32" where
  "anchor_key a = (logical_line_id a, cell_offset a)"

definition required_anchor :: "Anchor option \<Rightarrow> string \<Rightarrow> Anchor result" where
  "required_anchor anchor name =
    and_then (ok_or (name @ '' is missing'') anchor) (\<lambda>a.
      if \<not> logical_line_id a \<noteq> 0 then bail (name @ '' has logical line ID zero'')
      else Inr a)"

definition required_cursor :: "Cursor option \<Rightarrow> string \<Rightarrow> Cursor result" where
  "required_cursor cursor name = ok_or (name @ '' is missing'') cursor"

definition validate_color :: "Color \<Rightarrow> unit result" where
  "validate_color color =
    and_then (ok_or ''style color is missing a value'' (color_value color)) (\<lambda>v.
      case v of
        DefaultColor _ \<Rightarrow> Inr ()
      | PaletteIndex index \<Rightarrow>
          if \<not> index < 256 then bail ''style palette index is out of range'' else Inr ()
      | Rgb rgb \<Rightarrow>
          if \<not> rgb \<le> 0x00ffffff then bail ''style RGB is out of range'' else Inr ())"

definition validate_style :: "Style \<Rightarrow> unit result" where
  "validate_style style =
    and_then (ok_or ''style foreground is missing'' (foreground style)) (\<lambda>fg.
    and_then (validate_color fg) (\<lambda>_.
    and_then (ok_or ''style background is missing'' (background style)) (\<lambda>bg.
    and_then (validate_color bg) (\<lambda>_.
    and_then (ok_or ''style underline color is missing'' (underline_color style)) (\<lambda>ul.
    and_then (validate_color ul) (\<lambda>_.
    and_then (ok_or ''unknown intensity enum'' (Intensity_try_from (style_intensity style))) (\<lambda>_.
    and_then (ok_or ''unknown underline enum'' (Underline_try_from (style_underline style))) (\<lambda>_.
    and_then (ok_or ''unknown blink enum'' (Blink_try_from (style_blink style))) (\<lambda>_.
    and_then (ok_or ''unknown semantic type enum''
      (SemanticType_try_from (style_semantic_type style))) (\<lambda>_.
    and_then (ok_or ''unknown vertical align enum''
      (VerticalAlign_try_from (style_vertical_align style))) (\<lambda>_.
      Inr ())))))))))))"

definition validate_palette :: "Palette \<Rightarrow> unit result" where
  "validate_palette p = (
    if \<not> length (indexed_rgb p) = 256 then
      bail ''terminal palette must contain 256 indexed colors''
    else try_each (\<lambda>rgb.
        if \<not> rgb \<le> 0x00ffffff then bail ''terminal palette RGB is out of range'' else Inr ())
      (indexed_rgb p @ [foreground_rgb p, background_rgb p, cursor_fg_rgb p, cursor_bg_rgb p,
        selection_fg_rgb p, selection_bg_rgb p]))"

definition validate_modes :: "Modes \<Rightarrow> unit result" where
  "validate_modes m =
    and_then (ok_or ''unknown mouse tracking enum''
      (MouseTracking_try_from (mouse_tracking m))) (\<lambda>_.
    and_then (ok_or ''unknown mouse encoding enum''
      (MouseEncoding_try_from (mouse_encoding m))) (\<lambda>_.
    and_then (ok_or ''unknown keyboard encoding enum''
      (KeyboardEncoding_try_from (keyboard_encoding m))) (\<lambda>encoding.
      case encoding of
        KeyboardEncoding_Kitty \<Rightarrow>
          if \<not> and (keyboard_flags m) (not 0x1f) = 0 then bail ''unknown kitty keyboard flags''
          else Inr ()
      | _ \<Rightarrow>
          if \<not> keyboard_flags m = 0 then bail ''keyboard flags require kitty encoding''
          else Inr ())))"

definition validate_table_style :: "u32 set \<Rightarrow> Style \<Rightarrow> (u32 set) result" where
  "validate_table_style ids style =
    and_then (validate_style style) (\<lambda>_.
      if \<not> (style_id style \<noteq> 0 \<and> style_id style \<notin> ids) then
        bail ''terminal style IDs must be unique and nonzero''
      else Inr (insert (style_id style) ids))"

definition validate_table_hyperlink :: "u64 set \<Rightarrow> Hyperlink \<Rightarrow> (u64 set) result" where
  "validate_table_hyperlink ids h = (
    if \<not> (hyperlink_id h \<noteq> 0 \<and> hyperlink_id h \<notin> ids) then
      bail ''terminal hyperlink IDs must be unique and nonzero''
    else if \<not> uri h \<noteq> [] then bail ''terminal hyperlink URI is empty''
    else if \<not> length (uri h) \<le> MAX_HYPERLINK_URI_BYTES then
      bail ''terminal hyperlink URI is too large''
    else if \<not> length (explicit_id h) \<le> MAX_HYPERLINK_EXPLICIT_ID_BYTES then
      bail ''terminal hyperlink explicit ID is too large''
    else Inr (insert (hyperlink_id h) ids))"

definition validate_tables ::
  "Style list \<Rightarrow> Hyperlink list \<Rightarrow> (u32 set \<times> u64 set) result" where
  "validate_tables ss hs = (
    if \<not> length ss \<le> MAX_STYLES then bail ''too many terminal styles''
    else and_then (try_fold validate_table_style {} ss) (\<lambda>style_ids.
      if \<not> length hs \<le> MAX_HYPERLINKS then bail ''too many terminal hyperlinks''
      else and_then (try_fold validate_table_hyperlink {} hs) (\<lambda>hyperlink_ids.
        Inr (style_ids, hyperlink_ids))))"

text \<open>The body of the loop over the cells of a row; the state of the loop is the end
  of the previous cell, absent before the first.\<close>

definition validate_cell ::
  "(string \<Rightarrow> nat) \<Rightarrow> u32 \<Rightarrow> u32 set \<Rightarrow> u64 set \<Rightarrow> u32 option \<Rightarrow> Cell \<Rightarrow> (u32 option) result" where
  "validate_cell graphemes cols style_ids hyperlink_ids previous_end cell = (
    if \<not> cell_grapheme cell \<noteq> [] then bail ''terminal grapheme is empty''
    else if \<not> graphemes (cell_grapheme cell) = 1 then
      bail ''terminal cell must contain exactly one grapheme''
    else if \<not> length (cell_grapheme cell) \<le> MAX_GRAPHEME_BYTES then
      bail ''terminal grapheme is too large''
    else if \<not> (cell_width cell = 1 \<or> cell_width cell = 2) then
      bail ''terminal grapheme width must be one or two''
    else and_then (ok_or ''terminal cell column overflows''
        (checked_add (cell_column cell) (cell_width cell))) (\<lambda>cell_end.
      if \<not> cell_end \<le> cols then bail ''terminal cell extends beyond terminal cols''
      else if \<not> (case previous_end of None \<Rightarrow> True | Some e \<Rightarrow> e \<le> cell_column cell) then
        bail ''terminal cells overlap or are out of order''
      else if \<not> (cell_style_id cell = 0 \<or> cell_style_id cell \<in> style_ids) then
        bail ''terminal cell references an unknown style''
      else if \<not> (cell_hyperlink_id cell = 0 \<or> cell_hyperlink_id cell \<in> hyperlink_ids) then
        bail ''terminal cell references an unknown hyperlink''
      else Inr (Some cell_end)))"

definition validate_cells ::
  "(string \<Rightarrow> nat) \<Rightarrow> Row \<Rightarrow> u32 \<Rightarrow> u32 set \<Rightarrow> u64 set \<Rightarrow> usize \<Rightarrow> usize result" where
  "validate_cells graphemes row cols style_ids hyperlink_ids cell_count =
    and_then (ok_or ''terminal cell count overflows''
      (usize_checked_add cell_count (length (row_cells row)))) (\<lambda>count.
    if \<not> count \<le> MAX_CELLS then bail ''too many terminal cells''
    else and_then (try_fold (validate_cell graphemes cols style_ids hyperlink_ids) None
        (row_cells row)) (\<lambda>_. Inr count))"

definition validate_row_step :: "u32 \<Rightarrow> Row \<Rightarrow> Anchor \<Rightarrow> Row \<Rightarrow> unit result" where
  "validate_row_step cols row start next_row =
    and_then (required_anchor (row_start next_row) ''next row anchor'') (\<lambda>next_start.
      if wrapped_to_next row then
        (if \<not> logical_line_id next_start = logical_line_id start then
          bail ''wrapped rows changed logical line ID''
        else and_then (ok_or ''wrapped row offset overflows''
            (checked_add (cell_offset start) cols)) (\<lambda>expected_offset.
          if \<not> cell_offset next_start = expected_offset then
            bail ''wrapped row offset does not advance by terminal cols''
          else Inr ()))
      else if \<not> logical_line_id start < logical_line_id next_start then
        bail ''hard line break did not advance logical line ID''
      else Inr ())"

fun validate_rows_loop ::
  "(string \<Rightarrow> nat) \<Rightarrow> u32 \<Rightarrow> u64 \<Rightarrow> u32 set \<Rightarrow> u64 set \<Rightarrow> Anchor option \<Rightarrow> Row list \<Rightarrow> usize
    \<Rightarrow> usize result" where
  "validate_rows_loop graphemes cols gen style_ids hyperlink_ids previous [] count = Inr count"
| "validate_rows_loop graphemes cols gen style_ids hyperlink_ids previous (row # rest) count =
    and_then (required_anchor (row_start row) ''row anchor'') (\<lambda>start.
      if \<not> (0 < row_version row \<and> row_version row \<le> gen) then
        bail ''row version is outside the state generation''
      else if \<not> (case previous of None \<Rightarrow> True | Some p \<Rightarrow> anchor_key p < anchor_key start) then
        bail ''terminal row anchors are not strictly ordered''
      else and_then (case rest of [] \<Rightarrow> Inr () | next_row # _ \<Rightarrow>
          validate_row_step cols row start next_row) (\<lambda>_.
        and_then (validate_cells graphemes row cols style_ids hyperlink_ids count) (\<lambda>count'.
          validate_rows_loop graphemes cols gen style_ids hyperlink_ids (Some start) rest count')))"

definition validate_rows ::
  "(string \<Rightarrow> nat) \<Rightarrow> Row list \<Rightarrow> u32 \<Rightarrow> u64 \<Rightarrow> u32 set \<Rightarrow> u64 set \<Rightarrow> usize \<Rightarrow> usize result" where
  "validate_rows graphemes rows cols gen style_ids hyperlink_ids count =
    validate_rows_loop graphemes cols gen style_ids hyperlink_ids None rows count"

definition validate_tab_stop :: "u32 \<Rightarrow> u32 option \<Rightarrow> u32 \<Rightarrow> (u32 option) result" where
  "validate_tab_stop cols previous stop = (
    if \<not> stop < cols then bail ''tab stop is outside terminal cols''
    else if \<not> (case previous of None \<Rightarrow> True | Some p \<Rightarrow> p < stop) then
      bail ''tab stops are not strictly ordered''
    else Inr (Some stop))"

definition validate_margins_and_tabs :: "Screen \<Rightarrow> State \<Rightarrow> unit result" where
  "validate_margins_and_tabs screen state = (
    if \<not> (scroll_margin_top screen < scroll_margin_bottom screen
        \<and> scroll_margin_bottom screen \<le> state_rows state) then
      bail ''vertical scroll margins are invalid''
    else if \<not> (scroll_margin_left screen < scroll_margin_right screen
        \<and> scroll_margin_right screen \<le> state_cols state) then
      bail ''horizontal scroll margins are invalid''
    else if \<not> length (tab_stops screen) \<le> unat (state_cols state) then bail ''too many tab stops''
    else and_then (try_fold (validate_tab_stop (state_cols state)) None (tab_stops screen))
      (\<lambda>_. Inr ()))"

text \<open>The addition of the cursor column to the offset of its row is unchecked in the
  source: it wraps in a release build (and panics in a debug build); the model
  follows the release build.\<close>

definition validate_cursor :: "Cursor \<Rightarrow> Screen \<Rightarrow> State \<Rightarrow> unit result" where
  "validate_cursor cursor screen state = (
    if \<not> (cursor_x cursor < state_cols state \<and> cursor_y cursor < state_rows state) then
      bail ''terminal cursor ({}, {}) is outside {}x{} viewport''
    else if \<not> (0 < cursor_version cursor \<and> cursor_version cursor \<le> state_generation state) then
      bail ''terminal cursor version is outside the state generation''
    else and_then (ok_or ''unknown cursor shape enum''
        (CursorShape_try_from (cursor_shape cursor))) (\<lambda>shape.
      if \<not> shape \<noteq> CursorShape_Unspecified then bail ''cursor shape is unspecified''
      else let viewport_index = unat (viewport_start screen) + unat (cursor_y cursor) in
        and_then (slice_index (included_rows screen) viewport_index) (\<lambda>row.
        and_then (required_anchor (row_start row) ''cursor row anchor'') (\<lambda>start.
        and_then (required_anchor (cursor_anchor cursor) ''cursor anchor'') (\<lambda>anchor.
          if \<not> logical_line_id anchor = logical_line_id start then
            bail ''cursor anchor has the wrong logical line ID''
          else if \<not> cell_offset anchor = cell_offset start + cursor_x cursor then
            bail ''cursor anchor has the wrong cell offset''
          else Inr ())))))"

definition validate_screen ::
  "(string \<Rightarrow> nat) \<Rightarrow> Screen \<Rightarrow> bool \<Rightarrow> State \<Rightarrow> u32 set \<Rightarrow> u64 set \<Rightarrow> usize \<Rightarrow> usize result" where
  "validate_screen graphemes screen is_alternate state style_ids hyperlink_ids cell_count = (
    let rows = included_rows screen; start = unat (viewport_start screen) in
    if \<not> rows \<noteq> [] then bail ''terminal screen has no included rows''
    else if is_alternate \<and> \<not> (start = 0 \<and> length rows = unat (state_rows state)) then
      bail ''alternate screen must contain exactly one viewport and no history''
    else and_then (ok_or ''terminal viewport overflows''
        (usize_checked_add start (unat (state_rows state)))) (\<lambda>viewport_end.
      if \<not> viewport_end \<le> length rows then bail ''terminal viewport is not fully included''
      else and_then (validate_margins_and_tabs screen state) (\<lambda>_.
        and_then (required_anchor (oldest_available screen) ''oldest available anchor'') (\<lambda>oldest.
        and_then (required_anchor (newest_available screen) ''newest available anchor'') (\<lambda>newest.
        and_then (required_anchor (included_start screen) ''included start anchor'') (\<lambda>inc_start.
        and_then (required_anchor (included_end screen) ''included end anchor'') (\<lambda>inc_end.
          if \<not> anchor_key oldest \<le> anchor_key inc_start then
            bail ''included rows start before available history''
          else if \<not> anchor_key inc_start \<le> anchor_key inc_end then
            bail ''included row range is reversed''
          else if \<not> anchor_key inc_end \<le> anchor_key newest then
            bail ''included rows end after available history''
          else and_then (slice_index rows 0) (\<lambda>first_row.
            and_then (required_anchor (row_start first_row) ''first row anchor'') (\<lambda>first_start.
            and_then (slice_index rows (length rows - 1)) (\<lambda>last_row.
            and_then (required_anchor (row_start last_row) ''last row anchor'') (\<lambda>last_start.
              if \<not> (first_start = inc_start \<and> last_start = inc_end) then
                bail ''included row boundary anchors do not match rows''
              else and_then (validate_rows graphemes rows (state_cols state)
                  (state_generation state) style_ids hyperlink_ids cell_count) (\<lambda>count.
                and_then (required_cursor (screen_cursor screen) ''cursor'') (\<lambda>cursor.
                and_then (validate_cursor cursor screen state) (\<lambda>_.
                and_then (case saved_cursor screen of
                    Some saved \<Rightarrow> validate_cursor saved screen state
                  | None \<Rightarrow> Inr ()) (\<lambda>_. Inr count)))))))))))))))"

definition validate ::
  "(State \<Rightarrow> nat) \<Rightarrow> (string \<Rightarrow> nat) \<Rightarrow> State \<Rightarrow> unit result" where
  "validate encoded_len graphemes state = (
    if \<not> schema_version state = SCHEMA_VERSION then
      bail ''unsupported terminal state schema version {}''
    else if \<not> length (state_epoch state) = EPOCH_BYTES then
      bail ''terminal state epoch must be {EPOCH_BYTES} bytes''
    else if \<not> 0 < state_generation state then bail ''terminal state generation must be nonzero''
    else if \<not> (1 \<le> state_rows state \<and> state_rows state \<le> MAX_DIMENSION) then
      bail ''terminal rows are out of range''
    else if \<not> (1 \<le> state_cols state \<and> state_cols state \<le> MAX_DIMENSION) then
      bail ''terminal cols are out of range''
    else if \<not> encoded_len state \<le> MAX_ENCODED_STATE_BYTES then
      bail ''terminal state exceeds {MAX_ENCODED_STATE_BYTES} encoded bytes''
    else if \<not> length (title state) \<le> MAX_TITLE_BYTES then bail ''terminal title is too large''
    else if \<not> length (working_directory state) \<le> MAX_WORKING_DIRECTORY_BYTES then
      bail ''terminal working directory is too large''
    else and_then (ok_or ''unknown active screen enum''
        (ScreenKind_try_from (active_screen state))) (\<lambda>active.
      if \<not> active \<noteq> ScreenKind_Unspecified then bail ''active screen is unspecified''
      else and_then (ok_or ''terminal modes are missing'' (modes state)) (\<lambda>m.
        and_then (validate_modes m) (\<lambda>_.
        and_then (ok_or ''terminal palette is missing'' (palette state)) (\<lambda>p.
        and_then (validate_palette p) (\<lambda>_.
        and_then (validate_tables (styles state) (hyperlinks state)) (\<lambda>(style_ids, hyperlink_ids).
        and_then (ok_or ''primary screen is missing'' (primary state)) (\<lambda>prim.
        and_then (ok_or ''alternate screen is missing'' (alternate state)) (\<lambda>alt.
          if \<not> length (included_rows prim) + length (included_rows alt) \<le> MAX_INCLUDED_ROWS then
            bail ''too many included terminal rows''
          else and_then (validate_screen graphemes prim False state style_ids hyperlink_ids 0)
              (\<lambda>count.
            and_then (validate_screen graphemes alt True state style_ids hyperlink_ids count)
              (\<lambda>count'.
              if \<not> count' \<le> MAX_CELLS then bail ''too many terminal cells'' else Inr ())))))))))))"

definition validate_history_page_request :: "HistoryPageRequest \<Rightarrow> unit result" where
  "validate_history_page_request request = (
    if \<not> length (request_epoch request) = EPOCH_BYTES then
      bail ''history request epoch must be {EPOCH_BYTES} bytes''
    else and_then (required_anchor (before request) ''history request anchor'') (\<lambda>_.
      if \<not> (1 \<le> maximum_rows request \<and> unat (maximum_rows request) \<le> MAX_HISTORY_PAGE_ROWS) then
        bail ''history request row count is out of range''
      else Inr ()))"

definition validate_history_page ::
  "(HistoryPage \<Rightarrow> nat) \<Rightarrow> (string \<Rightarrow> nat) \<Rightarrow> HistoryPage \<Rightarrow> unit result" where
  "validate_history_page encoded_len graphemes page = (
    let rows = page_included_rows page in
    if \<not> 0 < page_request_id page then bail ''history page request ID is zero''
    else if \<not> length (page_epoch page) = EPOCH_BYTES then
      bail ''history page epoch must be {EPOCH_BYTES} bytes''
    else if \<not> 0 < page_generation page then bail ''history page generation is zero''
    else if \<not> (1 \<le> page_cols page \<and> page_cols page \<le> MAX_DIMENSION) then
      bail ''history page columns are out of range''
    else if \<not> encoded_len page \<le> MAX_ENCODED_HISTORY_PAGE_BYTES then
      bail ''history page exceeds {MAX_ENCODED_HISTORY_PAGE_BYTES} encoded bytes''
    else
      and_then (required_anchor (page_oldest_available page) ''history oldest available anchor'')
        (\<lambda>oldest.
      and_then (required_anchor (page_newest_available page) ''history newest available anchor'')
        (\<lambda>newest.
      if \<not> anchor_key oldest \<le> anchor_key newest then bail ''history available range is reversed''
      else if reset_required page then
        (if \<not> (rows = [] \<and> page_included_start page = None \<and> page_included_end page = None
            \<and> page_styles page = [] \<and> page_hyperlinks page = [] \<and> \<not> more_before page) then
          bail ''history reset page contains page data''
        else Inr ())
      else if \<not> length rows \<le> MAX_HISTORY_PAGE_ROWS then
        bail ''history page contains too many rows''
      else if rows = [] then
        (if \<not> (page_included_start page = None \<and> page_included_end page = None
            \<and> page_styles page = [] \<and> page_hyperlinks page = [] \<and> \<not> more_before page) then
          bail ''empty history page contains range data''
        else Inr ())
      else
        and_then (required_anchor (page_included_start page) ''history included start anchor'')
          (\<lambda>inc_start.
        and_then (required_anchor (page_included_end page) ''history included end anchor'')
          (\<lambda>inc_end.
        if \<not> (anchor_key oldest \<le> anchor_key inc_start \<and> anchor_key inc_start \<le> anchor_key inc_end
            \<and> anchor_key inc_end \<le> anchor_key newest) then
          bail ''history included range is outside available rows''
        else if \<not> (row_start (hd rows) = Some inc_start \<and> row_start (last rows) = Some inc_end) then
          bail ''history page boundary anchors do not match rows''
        else if \<not> more_before page = (anchor_key oldest < anchor_key inc_start) then
          bail ''history page continuation flag is inconsistent''
        else and_then (validate_tables (page_styles page) (page_hyperlinks page))
            (\<lambda>(style_ids, hyperlink_ids).
          and_then (validate_rows graphemes rows (page_cols page) (page_generation page)
            style_ids hyperlink_ids 0) (\<lambda>_. Inr ())))))))"

section \<open>What the row validators establish\<close>

lemma required_anchor_Inr [result_simps]:
  "required_anchor a n = Inr x \<longleftrightarrow> a = Some x \<and> logical_line_id x \<noteq> 0"
  by (auto simp: required_anchor_def and_then_Inr ok_or_Inr)

definition cell_end :: "Cell \<Rightarrow> nat" where
  "cell_end c = unat (cell_column c) + unat (cell_width c)"

text \<open>The declarative reading: a cell on its own, and the cells of a row side by side.\<close>

definition cell_ok :: "(string \<Rightarrow> nat) \<Rightarrow> u32 \<Rightarrow> u32 set \<Rightarrow> u64 set \<Rightarrow> Cell \<Rightarrow> bool" where
  "cell_ok graphemes cols S H c \<longleftrightarrow>
    cell_grapheme c \<noteq> [] \<and> graphemes (cell_grapheme c) = 1 \<and>
    length (cell_grapheme c) \<le> MAX_GRAPHEME_BYTES \<and> (cell_width c = 1 \<or> cell_width c = 2) \<and>
    cell_end c \<le> unat cols \<and> (cell_style_id c = 0 \<or> cell_style_id c \<in> S) \<and>
    (cell_hyperlink_id c = 0 \<or> cell_hyperlink_id c \<in> H)"

definition cells_ok :: "(string \<Rightarrow> nat) \<Rightarrow> u32 \<Rightarrow> u32 set \<Rightarrow> u64 set \<Rightarrow> Cell list \<Rightarrow> bool" where
  "cells_ok graphemes cols S H cs \<longleftrightarrow>
    (\<forall>c \<in> set cs. cell_ok graphemes cols S H c) \<and>
    sorted_wrt (\<lambda>c d. cell_end c \<le> unat (cell_column d)) cs"

lemma validate_cell_Inr:
  "validate_cell gr cols S H previous c = Inr e \<longleftrightarrow>
    cell_ok gr cols S H c \<and> (\<forall>p. previous = Some p \<longrightarrow> unat p \<le> unat (cell_column c)) \<and>
    (\<exists>w. e = Some w \<and> unat w = cell_end c)"
proof -
  have "unat w = cell_end c \<Longrightarrow> w \<le> cols \<longleftrightarrow> cell_end c \<le> unat cols" for w
    by (simp add: word_le_nat_alt)
  then show ?thesis
    unfolding validate_cell_def if_bail_Inr and_then_Inr ok_or_Inr checked_add_Some
      cell_ok_def cell_end_def [symmetric] not_not
    by (cases previous) (auto simp: word_le_nat_alt intro: sym
      dest: unsigned_word_eqI [where ?'a = nat])
qed

lemma cell_end_word:
  assumes "cell_ok gr cols S H c"
  obtains w :: u32 where "unat w = cell_end c"
proof -
  have "cell_end c < 2 ^ LENGTH(32)"
    using assms unsigned_less [of cols, where ?'a = nat] by (simp add: cell_ok_def)
  then have "unat (word_of_nat (cell_end c) :: u32) = cell_end c"
    by (simp add: unat_of_nat take_bit_nat_eq_self_iff)
  then show thesis using that by blast
qed

lemma validate_cells_loop:
  "(\<exists>e. try_fold (validate_cell gr cols S H) previous cs = Inr e) \<longleftrightarrow>
    cells_ok gr cols S H cs \<and>
    (\<forall>c \<in> set cs. \<forall>p. previous = Some p \<longrightarrow> unat p \<le> unat (cell_column c))"
proof (induction cs arbitrary: previous)
  case (Cons c cs)
  show ?case
  proof (cases "cell_ok gr cols S H c")
    case True
    obtain w :: u32 where w: "unat w = cell_end c" using cell_end_word [OF True] .
    have "unat v = cell_end c \<longleftrightarrow> v = w" for v using w by (simp add: word_unat_eq_iff)
    then have "validate_cell gr cols S H previous c = Inr e \<longleftrightarrow>
        (\<forall>p. previous = Some p \<longrightarrow> unat p \<le> unat (cell_column c)) \<and> e = Some w" for e
      using True by (auto simp: validate_cell_Inr)
    then have "(\<exists>e. try_fold (validate_cell gr cols S H) previous (c # cs) = Inr e) \<longleftrightarrow>
        (\<forall>p. previous = Some p \<longrightarrow> unat p \<le> unat (cell_column c)) \<and>
        (\<exists>e. try_fold (validate_cell gr cols S H) (Some w) cs = Inr e)"
      by (auto simp: and_then_Inr)
    moreover have "unat (cell_column c) \<le> cell_end c" by (simp add: cell_end_def)
    ultimately show ?thesis
      unfolding Cons.IH using True w by (fastforce simp: cells_ok_def)
  qed (auto simp: validate_cell_Inr and_then_Inr cells_ok_def)
qed (simp add: cells_ok_def)

lemma validate_cells_Inr:
  "validate_cells gr row cols S H n = Inr m \<longleftrightarrow>
    cells_ok gr cols S H (row_cells row) \<and> m = n + length (row_cells row) \<and> m \<le> MAX_CELLS"
proof -
  have "(\<exists>e. try_fold (validate_cell gr cols S H) None (row_cells row) = Inr e) \<longleftrightarrow>
      cells_ok gr cols S H (row_cells row)"
    unfolding validate_cells_loop by simp
  moreover have "k \<le> MAX_CELLS \<Longrightarrow> k < 2 ^ 64" for k by (simp add: MAX_CELLS_def)
  ultimately show ?thesis
    unfolding validate_cells_def and_then_Inr if_bail_Inr ok_or_Inr usize_checked_add_def
    by auto
qed

definition row_key :: "Row \<Rightarrow> u64 \<times> u32" where
  "row_key r = anchor_key (the (row_start r))"

definition row_ok :: "(string \<Rightarrow> nat) \<Rightarrow> u32 \<Rightarrow> u64 \<Rightarrow> u32 set \<Rightarrow> u64 set \<Rightarrow> Row \<Rightarrow> bool" where
  "row_ok graphemes cols gen S H r \<longleftrightarrow>
    (\<exists>a. row_start r = Some a \<and> logical_line_id a \<noteq> 0) \<and>
    0 < row_version r \<and> row_version r \<le> gen \<and> cells_ok graphemes cols S H (row_cells r)"

text \<open>Two neighbouring rows: a wrapped row continues its logical line one terminal
  width further on, any other row is followed by a later logical line.\<close>

definition rows_follow :: "u32 \<Rightarrow> Row \<Rightarrow> Row \<Rightarrow> bool" where
  "rows_follow cols r s \<longleftrightarrow>
    (if wrapped_to_next r then
      logical_line_id (the (row_start s)) = logical_line_id (the (row_start r)) \<and>
      unat (cell_offset (the (row_start s))) = unat (cell_offset (the (row_start r))) + unat cols
    else logical_line_id (the (row_start r)) < logical_line_id (the (row_start s)))"

definition rows_ok :: "(string \<Rightarrow> nat) \<Rightarrow> u32 \<Rightarrow> u64 \<Rightarrow> u32 set \<Rightarrow> u64 set \<Rightarrow> Row list \<Rightarrow> bool" where
  "rows_ok graphemes cols gen S H rows \<longleftrightarrow>
    (\<forall>r \<in> set rows. row_ok graphemes cols gen S H r) \<and>
    sorted_wrt (<) (map row_key rows) \<and> successively (rows_follow cols) rows"

lemma validate_row_step_Inr:
  assumes "row_start r = Some a"
  shows "validate_row_step cols r a s = Inr u \<longleftrightarrow>
    (\<exists>b. row_start s = Some b \<and> logical_line_id b \<noteq> 0) \<and> rows_follow cols r s"
  using assms
  by (auto simp: validate_row_step_def rows_follow_def and_then_Inr ok_or_Inr checked_add_Some
      required_anchor_Inr if_bail_Inr split: if_splits)

definition cell_total :: "Row list \<Rightarrow> nat" where
  "cell_total rows = sum_list (map (\<lambda>r. length (row_cells r)) rows)"

lemma validate_rows_loop_Inr:
  "validate_rows_loop gr cols gen S H previous rows n = Inr m \<longleftrightarrow>
    rows_ok gr cols gen S H rows \<and>
    (\<forall>r \<in> set rows. \<forall>p. previous = Some p \<longrightarrow> anchor_key p < row_key r) \<and>
    m = n + cell_total rows \<and> (rows \<noteq> [] \<longrightarrow> m \<le> MAX_CELLS)"
proof (induction rows arbitrary: previous n)
  case (Cons row rest)
  show ?case
  proof (cases "row_start row")
    case None
    then show ?thesis by (simp add: rows_ok_def row_ok_def and_then_Inr required_anchor_Inr)
  next
    case (Some a)
    have key: "row_key row = anchor_key a" by (simp add: row_key_def Some)
    let ?n = "n + length (row_cells row)"
    have step: "(case rest of [] \<Rightarrow> Inr () | s # _ \<Rightarrow> validate_row_step cols row a s) = Inr () \<longleftrightarrow>
        (rest \<noteq> [] \<longrightarrow> (\<exists>b. row_start (hd rest) = Some b \<and> logical_line_id b \<noteq> 0)
          \<and> rows_follow cols row (hd rest))"
      by (cases rest) (simp_all add: validate_row_step_Inr [OF Some])
    have "validate_rows_loop gr cols gen S H previous (row # rest) n = Inr m \<longleftrightarrow>
        logical_line_id a \<noteq> 0 \<and> 0 < row_version row \<and> row_version row \<le> gen \<and>
        (\<forall>p. previous = Some p \<longrightarrow> anchor_key p < anchor_key a) \<and>
        (rest \<noteq> [] \<longrightarrow> (\<exists>b. row_start (hd rest) = Some b \<and> logical_line_id b \<noteq> 0)
          \<and> rows_follow cols row (hd rest)) \<and>
        cells_ok gr cols S H (row_cells row) \<and> ?n \<le> MAX_CELLS \<and>
        validate_rows_loop gr cols gen S H (Some a) rest ?n = Inr m"
      by (cases previous) (auto simp: and_then_Inr and_then_unit required_anchor_Inr Some step
          validate_cells_Inr)
    also have "\<dots> \<longleftrightarrow> rows_ok gr cols gen S H (row # rest) \<and>
        (\<forall>r \<in> set (row # rest). \<forall>p. previous = Some p \<longrightarrow> anchor_key p < row_key r) \<and>
        m = n + cell_total (row # rest) \<and> m \<le> MAX_CELLS"
      unfolding Cons.IH
      by (cases rest)
        (auto simp: rows_ok_def row_ok_def Some key cell_total_def intro: less_trans)
    finally show ?thesis by simp
  qed
qed (auto simp: rows_ok_def cell_total_def)

lemma validate_rows_Inr:
  "validate_rows gr rows cols gen S H n = Inr m \<longleftrightarrow>
    rows_ok gr cols gen S H rows \<and> m = n + cell_total rows \<and> (rows \<noteq> [] \<longrightarrow> m \<le> MAX_CELLS)"
  unfolding validate_rows_def validate_rows_loop_Inr by simp

lemma validate_table_styles_Inr:
  "try_fold validate_table_style ids ss = Inr S \<Longrightarrow> S = ids \<union> style_id ` set ss"
proof (induction ss arbitrary: ids)
  case (Cons s ss)
  then obtain ids' where "validate_table_style ids s = Inr ids'"
    "try_fold validate_table_style ids' ss = Inr S" by (auto simp: and_then_Inr)
  with Cons.IH [OF this(2)] show ?case
    by (auto simp: validate_table_style_def and_then_unit split: if_splits)
qed simp

lemma validate_table_hyperlinks_Inr:
  "try_fold validate_table_hyperlink ids hs = Inr H \<Longrightarrow> H = ids \<union> hyperlink_id ` set hs"
proof (induction hs arbitrary: ids)
  case (Cons h hs)
  then obtain ids' where "validate_table_hyperlink ids h = Inr ids'"
    "try_fold validate_table_hyperlink ids' hs = Inr H" by (auto simp: and_then_Inr)
  with Cons.IH [OF this(2)] show ?case
    by (auto simp: validate_table_hyperlink_def split: if_splits)
qed simp

lemma validate_tables_Inr:
  assumes "validate_tables ss hs = Inr (S, H)"
  shows "S = style_id ` set ss \<and> H = hyperlink_id ` set hs"
  using assms unfolding validate_tables_def if_bail_Inr and_then_Inr
  by (auto dest!: validate_table_styles_Inr validate_table_hyperlinks_Inr)

section \<open>What a validated state is\<close>

definition screen_ok :: "(string \<Rightarrow> nat) \<Rightarrow> State \<Rightarrow> Screen \<Rightarrow> bool" where
  "screen_ok graphemes st s \<longleftrightarrow>
    included_rows s \<noteq> [] \<and>
    rows_ok graphemes (state_cols st) (state_generation st) (style_id ` set (styles st))
      (hyperlink_id ` set (hyperlinks st)) (included_rows s) \<and>
    unat (viewport_start s) + unat (state_rows st) \<le> length (included_rows s)"

lemma validate_screen_Inr:
  assumes "validate_screen gr s alt st (style_id ` set (styles st))
      (hyperlink_id ` set (hyperlinks st)) n = Inr m"
  shows "screen_ok gr st s \<and> m = n + cell_total (included_rows s) \<and> m \<le> MAX_CELLS"
proof -
  have "included_rows s \<noteq> []"
    and "unat (viewport_start s) + unat (state_rows st) \<le> length (included_rows s)"
    using assms unfolding validate_screen_def Let_def if_bail_Inr and_then_Inr ok_or_Inr
      usize_checked_add_def by (auto split: if_splits)
  moreover have "validate_rows gr (included_rows s) (state_cols st) (state_generation st)
      (style_id ` set (styles st)) (hyperlink_id ` set (hyperlinks st)) n = Inr m"
    using assms unfolding validate_screen_def Let_def if_bail_Inr and_then_Inr by auto
  ultimately show ?thesis unfolding validate_rows_Inr screen_ok_def by simp
qed

lemma validate_Inr:
  assumes "validate el gr st = Inr ()"
  obtains p a where "primary st = Some p" "alternate st = Some a" "screen_ok gr st p"
    "screen_ok gr st a" "cell_total (included_rows p) + cell_total (included_rows a) \<le> MAX_CELLS"
    "length (included_rows p) + length (included_rows a) \<le> MAX_INCLUDED_ROWS"
proof -
  obtain S H p a n m where tables: "validate_tables (styles st) (hyperlinks st) = Inr (S, H)"
    and pa: "primary st = Some p" "alternate st = Some a"
    and p: "validate_screen gr p False st S H 0 = Inr n"
    and a: "validate_screen gr a True st S H n = Inr m"
    and total: "length (included_rows p) + length (included_rows a) \<le> MAX_INCLUDED_ROWS"
    using assms unfolding validate_def if_bail_Inr and_then_Inr ok_or_Inr
    by (auto simp: and_then_Inr ok_or_Inr split: if_splits)
  have SH: "S = style_id ` set (styles st)" "H = hyperlink_id ` set (hyperlinks st)"
    using validate_tables_Inr [OF tables] by simp_all
  show thesis
    using that [OF pa] validate_screen_Inr [OF p [unfolded SH]]
      validate_screen_Inr [OF a [unfolded SH]] total by simp
qed

lemma validate_bounds:
  assumes "validate el gr st = Inr ()"
  shows "schema_version st = SCHEMA_VERSION" "length (state_epoch st) = EPOCH_BYTES"
    "0 < state_generation st" "el st \<le> MAX_ENCODED_STATE_BYTES"
    "1 \<le> state_rows st" "state_rows st \<le> MAX_DIMENSION"
    "1 \<le> state_cols st" "state_cols st \<le> MAX_DIMENSION"
  using assms unfolding validate_def if_bail_Inr by blast+

lemma rows_ok_anchored:
  assumes "rows_ok gr cols gen S H rows"
  shows "\<forall>r \<in> set rows. row_start r \<noteq> None" "distinct (map row_key rows)"
  using assms by (auto simp: rows_ok_def row_ok_def strict_sorted_iff)

lemma distinct_row_start: "distinct (map row_key rows) \<Longrightarrow> distinct (map row_start rows)"
  by (induction rows) (auto simp: row_key_def)

text \<open>C18. A validated state can be drawn. On each screen every visible row is among
  the included rows, no two rows share an anchor, and on every row the cells keep
  inside the terminal width, do not overlap, and refer only to styles and
  hyperlinks of the tables of the state.\<close>

theorem validated_state_renderable:
  assumes "validate el gr st = Inr ()" and "primary st = Some s \<or> alternate st = Some s"
  shows "distinct (map row_start (included_rows s)) \<and>
    (\<forall>y < unat (state_rows st). unat (viewport_start s) + y < length (included_rows s)) \<and>
    (\<forall>r \<in> set (included_rows s).
      (\<forall>i j. i < j \<longrightarrow> j < length (row_cells r) \<longrightarrow>
        cell_end (row_cells r ! i) \<le> unat (cell_column (row_cells r ! j))) \<and>
      (\<forall>c \<in> set (row_cells r). cell_end c \<le> unat (state_cols st) \<and>
        (cell_style_id c = 0 \<or> cell_style_id c \<in> style_id ` set (styles st)) \<and>
        (cell_hyperlink_id c = 0 \<or> cell_hyperlink_id c \<in> hyperlink_id ` set (hyperlinks st))))"
proof -
  have ok: "screen_ok gr st s" using assms by (metis option.inject validate_Inr)
  then have rows: "rows_ok gr (state_cols st) (state_generation st) (style_id ` set (styles st))
      (hyperlink_id ` set (hyperlinks st)) (included_rows s)" by (simp add: screen_ok_def)
  then have "distinct (map row_start (included_rows s))"
    by (intro distinct_row_start rows_ok_anchored(2))
  moreover have "cells_ok gr (state_cols st) (style_id ` set (styles st))
      (hyperlink_id ` set (hyperlinks st)) (row_cells r)" if "r \<in> set (included_rows s)" for r
    using rows that by (simp add: rows_ok_def row_ok_def)
  ultimately show ?thesis
    using ok by (auto simp: screen_ok_def cells_ok_def cell_ok_def sorted_wrt_iff_nth_less)
qed

text \<open>A small valid state: one row of text and one blank row on both screens.\<close>

definition demo_anchor :: "u64 \<Rightarrow> Anchor" where
  "demo_anchor line = \<lparr> logical_line_id = line, cell_offset = 0 \<rparr>"

definition demo_cell :: "u32 \<Rightarrow> string \<Rightarrow> Cell" where
  "demo_cell col g = \<lparr> cell_column = col, cell_grapheme = g, cell_width = 1, cell_style_id = 0,
     cell_hyperlink_id = 0 \<rparr>"

definition demo_row :: "u64 \<Rightarrow> Cell list \<Rightarrow> Row" where
  "demo_row line cs = \<lparr> row_start = Some (demo_anchor line), row_version = 1, row_cells = cs,
     wrapped_to_next = False \<rparr>"

definition demo_cursor :: Cursor where
  "demo_cursor = \<lparr> cursor_x = 0, cursor_y = 0, cursor_anchor = Some (demo_anchor 1),
     cursor_shape = 1, cursor_visible = True, cursor_version = 1, wrap_pending = False \<rparr>"

definition demo_screen :: "Cell list \<Rightarrow> Screen" where
  "demo_screen cs = \<lparr> included_rows = [demo_row 1 cs, demo_row 2 []], viewport_start = 0,
     screen_cursor = Some demo_cursor, saved_cursor = None,
     oldest_available = Some (demo_anchor 1), newest_available = Some (demo_anchor 2),
     included_start = Some (demo_anchor 1), included_end = Some (demo_anchor 2),
     scroll_margin_top = 0, scroll_margin_bottom = 2, scroll_margin_left = 0,
     scroll_margin_right = 4, tab_stops = [0] \<rparr>"

definition demo_modes :: Modes where
  "demo_modes = \<lparr> application_cursor_keys = False, application_keypad = False,
     bracketed_paste = False, focus_tracking = False, origin = False, insert_mode = False,
     auto_wrap = True, reverse_wraparound = False, newline = False, left_right_margin = False,
     reverse_video = False, mouse_tracking = 0, mouse_encoding = 0, keyboard_encoding = 0,
     keyboard_flags = 0, alternate_scroll = False \<rparr>"

definition demo_palette :: Palette where
  "demo_palette = \<lparr> indexed_rgb = replicate 256 0, foreground_rgb = 0, background_rgb = 0,
     cursor_fg_rgb = 0, cursor_bg_rgb = 0, selection_fg_rgb = 0, selection_bg_rgb = 0 \<rparr>"

definition demo_state :: "u64 \<Rightarrow> Cell list \<Rightarrow> State" where
  "demo_state gen cs = \<lparr> schema_version = 2, state_epoch = replicate 16 7,
     state_generation = gen, state_rows = 2, state_cols = 4, primary = Some (demo_screen cs),
     alternate = Some (demo_screen []), active_screen = 1, styles = [], hyperlinks = [],
     modes = Some demo_modes, title = ''sh'', working_directory = ''/'',
     palette = Some demo_palette \<rparr>"

definition demo_encoded_len :: "State \<Rightarrow> nat" where
  "demo_encoded_len st = 1000 + length (title st) + length (working_directory st)"

lemmas demo_defs = demo_state_def demo_screen_def demo_row_def demo_cursor_def demo_anchor_def
  demo_cell_def demo_modes_def demo_palette_def demo_encoded_len_def

lemma demo_screen_sel:
  "included_rows (demo_screen cs) = [demo_row 1 cs, demo_row 2 []]"
  "viewport_start (demo_screen cs) = 0"
  "screen_cursor (demo_screen cs) = Some demo_cursor" "saved_cursor (demo_screen cs) = None"
  "oldest_available (demo_screen cs) = Some (demo_anchor 1)"
  "newest_available (demo_screen cs) = Some (demo_anchor 2)"
  "included_start (demo_screen cs) = Some (demo_anchor 1)"
  "included_end (demo_screen cs) = Some (demo_anchor 2)"
  "state_rows (demo_state gen cs) = 2" "state_cols (demo_state gen cs) = 4"
  "state_generation (demo_state gen cs) = gen"
  "row_start (demo_row line cs) = Some (demo_anchor line)"
  "logical_line_id (demo_anchor line) = line" "cell_offset (demo_anchor line) = 0"
  by (simp_all add: demo_screen_def demo_state_def demo_row_def demo_anchor_def)

lemma demo_screen_valid:
  assumes "0 < gen" and "cells_ok length 4 {} {} cs" and "n + length cs \<le> MAX_CELLS"
  shows "validate_screen length (demo_screen cs) alt (demo_state gen ds) {} {} n
    = Inr (n + length cs)"
proof -
  have gen: "1 \<le> gen" using assms(1) by (simp add: word_le_nat_alt word_less_nat_alt)
  have rows: "validate_rows length [demo_row 1 cs, demo_row 2 []] 4 gen {} {} n = Inr (n + length cs)"
    using assms gen unfolding validate_rows_Inr
    by (simp add: rows_ok_def row_ok_def cells_ok_def rows_follow_def row_key_def anchor_key_def
        cell_total_def demo_defs)
  have cursor: "validate_cursor demo_cursor (demo_screen cs) (demo_state gen ds) = Inr ()"
    using gen by (simp add: validate_cursor_def slice_index_def required_anchor_def
        CursorShape_try_from_def enum_try_from_def demo_defs)
  have tabs: "validate_margins_and_tabs (demo_screen cs) (demo_state gen ds) = Inr ()"
    by (simp add: validate_margins_and_tabs_def validate_tab_stop_def demo_defs)
  show ?thesis
    using rows cursor tabs
    by (simp add: validate_screen_def Let_def slice_index_def usize_checked_add_def
        required_anchor_def required_cursor_def anchor_key_def demo_screen_sel)
qed

lemma demo_state_valid:
  assumes "0 < gen" and "cells_ok length 4 {} {} cs" and "length cs \<le> MAX_CELLS"
  shows "validate demo_encoded_len length (demo_state gen cs) = Inr ()"
proof -
  have "validate_palette demo_palette = Inr ()"
    by (simp add: validate_palette_def try_each_Inr demo_defs)
  moreover have "validate_modes demo_modes = Inr ()"
    by (simp add: validate_modes_def demo_defs MouseTracking_try_from_def MouseEncoding_try_from_def
        KeyboardEncoding_try_from_def enum_try_from_def)
  moreover have "validate_screen length (demo_screen cs) False (demo_state gen cs) {} {} 0
      = Inr (length cs)"
    using demo_screen_valid [OF assms(1,2), of 0] assms(3) by simp
  moreover have "validate_screen length (demo_screen []) True (demo_state gen cs) {} {} (length cs)
      = Inr (length cs)"
    using demo_screen_valid [OF assms(1), of "[]" "length cs"] assms(3) by (simp add: cells_ok_def)
  ultimately show ?thesis
    using assms
    by (simp add: validate_def demo_state_def demo_encoded_len_def SCHEMA_VERSION_def
        EPOCH_BYTES_def MAX_DIMENSION_def MAX_ENCODED_STATE_BYTES_def MAX_TITLE_BYTES_def
        MAX_WORKING_DIRECTORY_BYTES_def ScreenKind_try_from_def enum_try_from_def
        validate_tables_def MAX_STYLES_def MAX_HYPERLINKS_def MAX_INCLUDED_ROWS_def
        demo_screen_def)
qed

lemma demo_cells_ok: "cells_ok length 4 {} {} [demo_cell 0 ''a'', demo_cell 1 ''b'']"
  by (simp add: cells_ok_def cell_ok_def cell_end_def demo_cell_def MAX_GRAPHEME_BYTES_def)

theorem validated_state_renderable_witness:
  "distinct (map row_start (included_rows (demo_screen [demo_cell 0 ''a'', demo_cell 1 ''b'']))) \<and>
    1 < length (included_rows (demo_screen [demo_cell 0 ''a'', demo_cell 1 ''b''])) \<and>
    cell_end (demo_cell 0 ''a'') \<le> unat (cell_column (demo_cell 1 ''b''))"
proof -
  let ?cs = "[demo_cell 0 ''a'', demo_cell 1 ''b'']"
  have valid: "validate demo_encoded_len length (demo_state 3 ?cs) = Inr ()"
    using demo_cells_ok by (intro demo_state_valid) (simp_all add: MAX_CELLS_def)
  have prim: "primary (demo_state 3 ?cs) = Some (demo_screen ?cs)" by (simp add: demo_state_def)
  note facts = validated_state_renderable [OF valid, of "demo_screen ?cs"]
  have row: "demo_row 1 ?cs \<in> set (included_rows (demo_screen ?cs))"
    "row_cells (demo_row 1 ?cs) = ?cs" by (simp_all add: demo_screen_sel demo_row_def)
  from facts prim have "distinct (map row_start (included_rows (demo_screen ?cs)))"
    "\<forall>y < unat (state_rows (demo_state 3 ?cs)).
      unat (viewport_start (demo_screen ?cs)) + y < length (included_rows (demo_screen ?cs))"
    "\<forall>i j. i < j \<longrightarrow> j < length (row_cells (demo_row 1 ?cs)) \<longrightarrow>
      cell_end (row_cells (demo_row 1 ?cs) ! i) \<le> unat (cell_column (row_cells (demo_row 1 ?cs) ! j))"
    using row(1) by blast+
  from this(1) this(2) [rule_format, of 1] this(3) [rule_format, of 0 1] show ?thesis
    by (simp add: demo_screen_sel row(2))
qed

text \<open>C36. The loop over the rows decides exactly the intended predicate: starting
  with no cells counted, the validator accepts a list of rows if and only if every
  row is sound, the anchors increase strictly, neighbouring rows follow each other,
  and (when there is a row) the cells stay within the global bound.\<close>

theorem validate_rows_decides:
  "(\<exists>m. validate_rows gr rows cols gen S H 0 = Inr m) =
    (rows_ok gr cols gen S H rows \<and> (rows = [] \<or> cell_total rows \<le> MAX_CELLS))"
  unfolding validate_rows_Inr by auto

section \<open>Validation never indexes out of range\<close>

lemma no_panic_required_anchor [no_panic_intros]:
  "hd n \<noteq> CHR ''p'' \<Longrightarrow> n \<noteq> [] \<Longrightarrow> no_panic (required_anchor a n)"
  unfolding required_anchor_def by (intro no_panic_intros) auto

lemma no_panic_validate_cells [no_panic_intros]: "no_panic (validate_cells gr row cols S H n)"
  unfolding validate_cells_def validate_cell_def by (intro no_panic_intros) auto

lemma no_panic_validate_row_step [no_panic_intros]: "no_panic (validate_row_step cols row a next_row)"
  unfolding validate_row_step_def by (intro no_panic_intros) auto

lemma no_panic_validate_rows [no_panic_intros]: "no_panic (validate_rows gr rows cols gen S H n)"
proof -
  have "no_panic (validate_rows_loop gr cols gen S H previous rows n)" for previous
  proof (induction rows arbitrary: previous n)
    case (Cons row rest)
    have "no_panic (case rest of [] \<Rightarrow> Inr () | s # _ \<Rightarrow> validate_row_step cols row a s)" for a
      by (cases rest) (simp_all add: no_panic_validate_row_step)
    then show ?case
      unfolding validate_rows_loop.simps by (intro no_panic_intros Cons.IH) auto
  qed simp
  then show ?thesis unfolding validate_rows_def .
qed

lemma no_panic_validate_cursor [no_panic_intros]:
  assumes "unat (viewport_start s) + unat (state_rows st) \<le> length (included_rows s)"
  shows "no_panic (validate_cursor cursor s st)"
proof -
  have "unat (viewport_start s) + unat (cursor_y cursor) < length (included_rows s)"
    if "cursor_y cursor < state_rows st"
    using assms that by (simp add: word_less_nat_alt)
  then show ?thesis
    unfolding validate_cursor_def Let_def by (intro no_panic_intros) auto
qed

lemma no_panic_validate_margins_and_tabs [no_panic_intros]:
  "no_panic (validate_margins_and_tabs s st)"
  unfolding validate_margins_and_tabs_def validate_tab_stop_def by (intro no_panic_intros) auto

lemma no_panic_validate_screen [no_panic_intros]:
  "no_panic (validate_screen gr s alt st S H n)"
proof -
  have saved: "no_panic (case saved_cursor s of Some c \<Rightarrow> validate_cursor c s st | None \<Rightarrow> Inr ())"
    if "unat (viewport_start s) + unat (state_rows st) \<le> length (included_rows s)"
    using that by (simp add: no_panic_validate_cursor split: option.split)
  show ?thesis
    unfolding validate_screen_def Let_def required_cursor_def
    by (intro no_panic_intros saved)
      (auto simp: ok_or_Inr usize_checked_add_def split: if_splits)
qed

lemma no_panic_validate_tables [no_panic_intros]: "no_panic (validate_tables ss hs)"
proof -
  have color: "no_panic (validate_color c)" for c
    unfolding validate_color_def
    by (intro no_panic_intros) (auto simp: no_panic_bail split: color_Value.split)
  show ?thesis
    unfolding validate_tables_def validate_table_style_def validate_table_hyperlink_def
      validate_style_def
    by (intro no_panic_intros color) auto
qed

text \<open>Validation is safe on untrusted input: whatever the state received, the
  validator returns an answer without indexing a row out of range, so a hostile
  peer cannot make it panic through \<^verbatim>\<open>included_rows[viewport_index]\<close>.\<close>

lemma validate_never_panics:
  "validate el gr st \<noteq> Inl index_out_of_bounds"
proof -
  have modes: "no_panic (validate_modes m)" for m
    unfolding validate_modes_def
    by (intro no_panic_intros) (auto intro: no_panic_bail split: KeyboardEncoding.split)
  have pal: "no_panic (validate_palette p)" for p
    unfolding validate_palette_def by (intro no_panic_intros) auto
  have "no_panic (validate el gr st)"
    unfolding validate_def case_prod_beta by (intro no_panic_intros modes pal) auto
  then show ?thesis by (simp add: no_panic_def)
qed

end
