(* ===== verification/Terminal_Sync.thy ===== *)
theory Terminal_Sync
  imports Terminal_State
begin

text \<open>
  Reliable state synchronisation (\<^verbatim>\<open>src/terminal_sync.rs\<close> with its messages in
  \<^verbatim>\<open>src/protocol.rs\<close>): the per-attachment window with at most one generation in
  flight, the row diff between two states and its application. The encoded lengths
  of a state and of a diff (\<^verbatim>\<open>prost\<close>) are parameters.

  The results are the round trip of diff and application, and the agreement of a
  window with the client that follows it over the reliable stream.
\<close>

section \<open>Messages\<close>

datatype terminal_state_row_Source = BaseAnchor Anchor | Replacement Row

record TerminalStateRow =
  row_source :: "terminal_state_row_Source option"

record TerminalStateDiff =
  diff_epoch :: bytes
  base_generation :: u64
  target_generation :: u64
  target_metadata :: "State option"
  primary_rows :: "TerminalStateRow list"
  alternate_rows :: "TerminalStateRow list"

record TerminalStateAck =
  ack_epoch :: bytes
  ack_generation :: u64

datatype AckDisposition = Accepted | Duplicate

datatype PreparedStateUpdate = Snapshot State | Diff TerminalStateDiff

section \<open>Row diffs\<close>

definition rows_by_anchor_insert ::
  "(u64 \<times> u32 \<rightharpoonup> Row) \<Rightarrow> Row \<Rightarrow> (u64 \<times> u32 \<rightharpoonup> Row) result" where
  "rows_by_anchor_insert m row =
    and_then (ok_or ''terminal state row has no anchor'' (row_start row)) (\<lambda>anchor.
      if \<not> m (anchor_key anchor) = None then bail ''terminal state repeats a row anchor''
      else Inr (m(anchor_key anchor \<mapsto> row)))"

definition rows_by_anchor :: "Row list \<Rightarrow> (u64 \<times> u32 \<rightharpoonup> Row) result" where
  "rows_by_anchor rows = try_fold rows_by_anchor_insert Map.empty rows"

definition diff_row :: "(u64 \<times> u32 \<rightharpoonup> Row) \<Rightarrow> Row \<Rightarrow> TerminalStateRow result" where
  "diff_row base_rows row =
    and_then (ok_or ''target row has no anchor'' (row_start row)) (\<lambda>anchor.
      Inr \<lparr> row_source = Some (
        if base_rows (anchor_key anchor) = Some row then BaseAnchor anchor else Replacement row) \<rparr>)"

definition diff_rows :: "Screen \<Rightarrow> Screen \<Rightarrow> TerminalStateRow list result" where
  "diff_rows base target =
    and_then (rows_by_anchor (included_rows base)) (\<lambda>base_rows.
      try_map (diff_row base_rows) (included_rows target))"

definition apply_row ::
  "(u64 \<times> u32 \<rightharpoonup> Row) \<Rightarrow> (u64 \<times> u32) set \<times> Row list \<Rightarrow> TerminalStateRow
    \<Rightarrow> ((u64 \<times> u32) set \<times> Row list) result" where
  "apply_row base_rows acc row =
    and_then (ok_or ''terminal state diff row source is missing'' (row_source row)) (\<lambda>source.
    and_then (case source of
        BaseAnchor anchor \<Rightarrow> ok_or ''terminal state diff references an unavailable base row''
          (base_rows (anchor_key anchor))
      | Replacement r \<Rightarrow> Inr r) (\<lambda>reconstructed.
    and_then (ok_or ''terminal state diff row has no anchor'' (row_start reconstructed)) (\<lambda>anchor.
      if \<not> anchor_key anchor \<notin> fst acc then bail ''terminal state diff repeats a row anchor''
      else Inr (insert (anchor_key anchor) (fst acc), snd acc @ [reconstructed]))))"

definition apply_rows :: "Screen \<Rightarrow> TerminalStateRow list \<Rightarrow> Row list result" where
  "apply_rows base rows = (
    if \<not> length rows \<le> MAX_INCLUDED_ROWS then bail ''terminal state diff contains too many rows''
    else and_then (rows_by_anchor (included_rows base)) (\<lambda>base_rows.
      and_then (try_fold (apply_row base_rows) ({}, []) rows) (\<lambda>acc. Inr (snd acc))))"

definition screen_metadata :: "Screen \<Rightarrow> Screen" where
  "screen_metadata screen = \<lparr>
     included_rows = [],
     viewport_start = viewport_start screen,
     screen_cursor = screen_cursor screen,
     saved_cursor = saved_cursor screen,
     oldest_available = oldest_available screen,
     newest_available = newest_available screen,
     included_start = included_start screen,
     included_end = included_end screen,
     scroll_margin_top = scroll_margin_top screen,
     scroll_margin_bottom = scroll_margin_bottom screen,
     scroll_margin_left = scroll_margin_left screen,
     scroll_margin_right = scroll_margin_right screen,
     tab_stops = tab_stops screen \<rparr>"

definition state_metadata :: "State \<Rightarrow> State" where
  "state_metadata state = \<lparr>
     schema_version = schema_version state,
     state_epoch = state_epoch state,
     state_generation = state_generation state,
     state_rows = state_rows state,
     state_cols = state_cols state,
     primary = map_option screen_metadata (primary state),
     alternate = map_option screen_metadata (alternate state),
     active_screen = active_screen state,
     styles = styles state,
     hyperlinks = hyperlinks state,
     modes = modes state,
     title = title state,
     working_directory = working_directory state,
     palette = palette state \<rparr>"

definition terminal_state_diff ::
  "(State \<Rightarrow> nat) \<Rightarrow> (string \<Rightarrow> nat) \<Rightarrow> State \<Rightarrow> State \<Rightarrow> TerminalStateDiff result" where
  "terminal_state_diff encoded_len graphemes base target =
    and_then (with_context ''base terminal state is invalid''
      (validate encoded_len graphemes base)) (\<lambda>_.
    and_then (with_context ''target terminal state is invalid''
      (validate encoded_len graphemes target)) (\<lambda>_.
    if \<not> state_epoch base = state_epoch target then bail ''terminal state diff crosses epochs''
    else if \<not> state_generation base < state_generation target then
      bail ''terminal state diff target does not advance generation''
    else
      and_then (ok_or ''base primary screen is missing'' (primary base)) (\<lambda>base_primary.
      and_then (ok_or ''base alternate screen is missing'' (alternate base)) (\<lambda>base_alternate.
      and_then (ok_or ''target primary screen is missing'' (primary target)) (\<lambda>target_primary.
      and_then (ok_or ''target alternate screen is missing'' (alternate target))
        (\<lambda>target_alternate.
      and_then (diff_rows base_primary target_primary) (\<lambda>p_rows.
      and_then (diff_rows base_alternate target_alternate) (\<lambda>a_rows.
        Inr \<lparr> diff_epoch = state_epoch target,
          base_generation = state_generation base,
          target_generation = state_generation target,
          target_metadata = Some (state_metadata target),
          primary_rows = p_rows,
          alternate_rows = a_rows \<rparr>))))))))"

definition apply_terminal_state_diff ::
  "(State \<Rightarrow> nat) \<Rightarrow> (string \<Rightarrow> nat) \<Rightarrow> State \<Rightarrow> TerminalStateDiff \<Rightarrow> State result" where
  "apply_terminal_state_diff encoded_len graphemes base diff =
    and_then (with_context ''base terminal state is invalid''
      (validate encoded_len graphemes base)) (\<lambda>_.
    if \<not> length (diff_epoch diff) = EPOCH_BYTES then bail ''terminal state diff epoch is invalid''
    else if \<not> state_epoch base = diff_epoch diff then
      bail ''terminal state diff base epoch changed''
    else if \<not> state_generation base = base_generation diff then
      bail ''terminal state diff base generation does not match''
    else if \<not> base_generation diff < target_generation diff then
      bail ''terminal state diff target does not advance generation''
    else and_then (ok_or ''terminal state diff target metadata is missing''
        (target_metadata diff)) (\<lambda>target.
      if \<not> state_epoch target = diff_epoch diff then
        bail ''terminal state diff target epoch changed''
      else if \<not> state_generation target = target_generation diff then
        bail ''terminal state diff target generation does not match metadata''
      else case (primary target, alternate target) of
        (Some p, Some a) \<Rightarrow>
          if \<not> (included_rows p = [] \<and> included_rows a = []) then
            bail ''terminal state diff metadata contains full rows''
          else
            and_then (ok_or ''base primary screen is missing'' (primary base)) (\<lambda>base_primary.
            and_then (apply_rows base_primary (primary_rows diff)) (\<lambda>p_rows.
            and_then (ok_or ''base alternate screen is missing'' (alternate base)) (\<lambda>base_alternate.
            and_then (apply_rows base_alternate (alternate_rows diff)) (\<lambda>a_rows.
            let target' = target \<lparr> primary := Some (p \<lparr> included_rows := p_rows \<rparr>),
              alternate := Some (a \<lparr> included_rows := a_rows \<rparr>) \<rparr> in
            and_then (with_context ''reconstructed terminal state is invalid''
              (validate encoded_len graphemes target')) (\<lambda>_. Inr target')))))
      | _ \<Rightarrow> bail ''terminal state diff metadata contains full rows''))"

section \<open>The synchronisation window\<close>

record StateSyncWindow =
  acknowledged :: "State option"
  in_flight :: "State option"
  dirty :: bool

definition StateSyncWindow_default :: StateSyncWindow where
  "StateSyncWindow_default = \<lparr> acknowledged = None, in_flight = None, dirty = False \<rparr>"

definition begin_initial :: "StateSyncWindow \<Rightarrow> State \<Rightarrow> StateSyncWindow result" where
  "begin_initial w state = (
    if \<not> in_flight w = None then bail ''terminal state is already in flight''
    else Inr (w \<lparr> in_flight := Some state \<rparr>))"

definition mark_dirty :: "StateSyncWindow \<Rightarrow> StateSyncWindow" where
  "mark_dirty w = w \<lparr> dirty := True \<rparr>"

definition needs_update :: "StateSyncWindow \<Rightarrow> bool" where
  "needs_update w = (dirty w \<and> in_flight w = None)"

text \<open>The window is returned with the result: an error of the diff leaves it with the
  dirty bit cleared.\<close>

definition prepare_update ::
  "(State \<Rightarrow> nat) \<Rightarrow> (TerminalStateDiff \<Rightarrow> nat) \<Rightarrow> (string \<Rightarrow> nat) \<Rightarrow> StateSyncWindow \<Rightarrow> State \<Rightarrow> bool
    \<Rightarrow> StateSyncWindow \<times> PreparedStateUpdate option result" where
  "prepare_update encoded_len diff_len graphemes w latest allow_diff = (
    if \<not> in_flight w = None then (w, bail ''terminal state ACK is still pending'')
    else
      let w = w \<lparr> dirty := False \<rparr>;
        sent = w \<lparr> in_flight := Some latest \<rparr>;
        snapshot = (sent, Inr (Some (Snapshot latest))) in
      case acknowledged w of
        None \<Rightarrow> snapshot
      | Some base \<Rightarrow>
          if state_epoch base = state_epoch latest
              \<and> state_generation latest \<le> state_generation base then (w, Inr None)
          else if allow_diff \<and> state_epoch base = state_epoch latest
              \<and> state_generation base < state_generation latest then
            (case terminal_state_diff encoded_len graphemes base latest of
              Inl e \<Rightarrow> (w, Inl e)
            | Inr diff \<Rightarrow>
                if diff_len diff < encoded_len latest then (sent, Inr (Some (Diff diff)))
                else snapshot)
          else snapshot)"

definition acknowledge ::
  "StateSyncWindow \<Rightarrow> TerminalStateAck \<Rightarrow> (StateSyncWindow \<times> AckDisposition) result" where
  "acknowledge w ack = (
    if \<not> length (ack_epoch ack) = EPOCH_BYTES then bail ''terminal state ACK epoch is invalid''
    else if \<not> 0 < ack_generation ack then bail ''terminal state ACK generation is zero''
    else if (case acknowledged w of None \<Rightarrow> False | Some state \<Rightarrow>
        state_epoch state = ack_epoch ack \<and> ack_generation ack \<le> state_generation state) then
      Inr (w, Duplicate)
    else and_then (ok_or ''terminal state ACK has no matching in-flight update'' (in_flight w))
      (\<lambda>sent.
        if \<not> (state_epoch sent = ack_epoch ack \<and> state_generation sent = ack_generation ack) then
          bail ''terminal state ACK does not match the in-flight generation''
        else Inr (w \<lparr> acknowledged := in_flight w, in_flight := None \<rparr>, Accepted)))"

section \<open>Diff and application are inverse\<close>

definition anchored :: "Row list \<Rightarrow> bool" where
  "anchored rows \<longleftrightarrow> (\<forall>r \<in> set rows. row_start r \<noteq> None) \<and> distinct (map row_key rows)"

lemma anchored_Cons:
  "anchored (r # rows) \<longleftrightarrow>
    row_start r \<noteq> None \<and> (\<forall>q \<in> set rows. row_key q \<noteq> row_key r) \<and> anchored rows"
  unfolding anchored_def by (simp add: image_iff) metis

lemma screen_ok_anchored: "screen_ok gr st s \<Longrightarrow> anchored (included_rows s)"
  unfolding screen_ok_def anchored_def using rows_ok_anchored by blast

lemma row_key_Some [simp]: "row_start r = Some a \<Longrightarrow> anchor_key a = row_key r"
  by (simp add: row_key_def)

lemma rows_by_anchor_total:
  assumes "anchored rows"
  obtains m where "rows_by_anchor rows = Inr m"
proof -
  have loop: "\<exists>m'. try_fold rows_by_anchor_insert m rows = Inr m'"
    if "anchored rows" "\<forall>r \<in> set rows. m (row_key r) = None" for m
    using that
  proof (induction rows arbitrary: m)
    case (Cons r rows)
    then obtain a where a: "row_start r = Some a" by (auto simp: anchored_def)
    have "rows_by_anchor_insert m r = Inr (m(row_key r \<mapsto> r))"
      using Cons.prems(2) a by (simp add: rows_by_anchor_insert_def)
    moreover have "\<exists>m'. try_fold rows_by_anchor_insert (m(row_key r \<mapsto> r)) rows = Inr m'"
      using Cons.prems by (intro Cons.IH) (auto simp: anchored_Cons)
    ultimately show ?case by simp
  qed simp
  obtain m where "try_fold rows_by_anchor_insert Map.empty rows = Inr m"
    using loop [OF assms, of Map.empty] by auto
  then show thesis using that by (simp add: rows_by_anchor_def)
qed

lemma diff_rows_total:
  assumes "anchored (included_rows base)" "anchored (included_rows target)"
  obtains m where "rows_by_anchor (included_rows base) = Inr m"
    and "diff_rows base target = Inr (map (\<lambda>r. \<lparr> row_source = Some (
      if m (row_key r) = Some r then BaseAnchor (the (row_start r)) else Replacement r) \<rparr>)
      (included_rows target))"
proof -
  obtain m where m: "rows_by_anchor (included_rows base) = Inr m"
    using rows_by_anchor_total [OF assms(1)] .
  have "try_map (diff_row m) rows = Inr (map (\<lambda>r. \<lparr> row_source = Some (
      if m (row_key r) = Some r then BaseAnchor (the (row_start r)) else Replacement r) \<rparr>) rows)"
    if "\<forall>r \<in> set rows. row_start r \<noteq> None" for rows
    using that by (induction rows) (auto simp: diff_row_def)
  then show thesis using that m assms(2) by (simp add: diff_rows_def anchored_def)
qed

lemma apply_rows_loop:
  assumes "anchored rows" "\<forall>r \<in> set rows. row_key r \<notin> seen"
  shows "try_fold (apply_row m) (seen, acc) (map (\<lambda>r. \<lparr> row_source = Some (
      if m (row_key r) = Some r then BaseAnchor (the (row_start r)) else Replacement r) \<rparr>) rows)
    = Inr (seen \<union> row_key ` set rows, acc @ rows)"
  using assms
proof (induction rows arbitrary: seen acc)
  case (Cons r rows)
  then obtain a where a: "row_start r = Some a" by (auto simp: anchored_def)
  have rest: "anchored rows" "\<forall>q \<in> set rows. row_key q \<notin> insert (row_key r) seen"
    using Cons.prems by (auto simp: anchored_Cons)
  show ?case
    using Cons.IH [OF rest, of "acc @ [r]"] Cons.prems a by (simp add: apply_row_def)
qed simp

lemma apply_diff_rows:
  assumes "anchored (included_rows base)" "anchored (included_rows target)"
    and "length (included_rows target) \<le> MAX_INCLUDED_ROWS"
  obtains rows where "diff_rows base target = Inr rows"
    and "apply_rows base rows = Inr (included_rows target)"
proof (rule diff_rows_total [OF assms(1,2)])
  fix m
  assume m: "rows_by_anchor (included_rows base) = Inr m"
    and d: "diff_rows base target = Inr (map (\<lambda>r. \<lparr> row_source = Some (
      if m (row_key r) = Some r then BaseAnchor (the (row_start r)) else Replacement r) \<rparr>)
      (included_rows target))" (is "_ = Inr ?rows")
  have "apply_rows base ?rows = Inr (included_rows target)"
    using assms(3) apply_rows_loop [OF assms(2), of "{}" m "[]"] by (simp add: apply_rows_def m)
  with d that show thesis by blast
qed

lemma screen_metadata_rows [simp]:
  "included_rows (screen_metadata s) = []"
  "screen_metadata s \<lparr> included_rows := included_rows s \<rparr> = s"
  by (simp_all add: screen_metadata_def)

lemma state_metadata_sel:
  "state_epoch (state_metadata st) = state_epoch st"
  "state_generation (state_metadata st) = state_generation st"
  "primary (state_metadata st) = map_option screen_metadata (primary st)"
  "alternate (state_metadata st) = map_option screen_metadata (alternate st)"
  "state_rows (state_metadata st) = state_rows st" "state_cols (state_metadata st) = state_cols st"
  "styles (state_metadata st) = styles st" "hyperlinks (state_metadata st) = hyperlinks st"
  "modes (state_metadata st) = modes st" "title (state_metadata st) = title st"
  "working_directory (state_metadata st) = working_directory st"
  "palette (state_metadata st) = palette st"
  by (simp_all add: state_metadata_def)

lemma state_metadata_restore:
  assumes "primary st = Some p" "alternate st = Some a"
  shows "state_metadata st \<lparr> primary := Some p, alternate := Some a \<rparr> = st"
  using assms by (cases st) (simp add: state_metadata_def)

lemma diff_apply_round_trip:
  assumes "validate el gr base = Inr ()" and "validate el gr target = Inr ()"
    and "state_epoch base = state_epoch target"
    and "state_generation base < state_generation target"
  obtains d where "terminal_state_diff el gr base target = Inr d"
    and "apply_terminal_state_diff el gr base d = Inr target"
proof -
  obtain bp ba where b: "primary base = Some bp" "alternate base = Some ba"
    "screen_ok gr base bp" "screen_ok gr base ba"
    using assms(1) by (rule validate_Inr)
  obtain tp ta where t: "primary target = Some tp" "alternate target = Some ta"
    "screen_ok gr target tp" "screen_ok gr target ta"
    "length (included_rows tp) + length (included_rows ta) \<le> MAX_INCLUDED_ROWS"
    using assms(2) by (rule validate_Inr)
  obtain p_rows where p: "diff_rows bp tp = Inr p_rows" "apply_rows bp p_rows = Inr (included_rows tp)"
    using b t by (auto intro: apply_diff_rows screen_ok_anchored)
  obtain a_rows where a: "diff_rows ba ta = Inr a_rows" "apply_rows ba a_rows = Inr (included_rows ta)"
    using b t by (auto intro: apply_diff_rows screen_ok_anchored)
  let ?d = "\<lparr> diff_epoch = state_epoch target, base_generation = state_generation base,
    target_generation = state_generation target, target_metadata = Some (state_metadata target),
    primary_rows = p_rows, alternate_rows = a_rows \<rparr>"
  have "terminal_state_diff el gr base target = Inr ?d"
    using assms b t p a by (simp add: terminal_state_diff_def)
  moreover have "apply_terminal_state_diff el gr base ?d = Inr target"
    using assms b t p a state_metadata_restore [OF t(1,2)] validate_bounds(2) [OF assms(1)]
    by (simp add: apply_terminal_state_diff_def Let_def state_metadata_sel)
  ultimately show thesis using that by blast
qed

text \<open>C3. Diffs reconstruct their target. Between two valid states of one epoch with
  advancing generation the diff is always computed, and applying it to the base
  gives back exactly the target, every row, cursor, mode and table included.\<close>

theorem state_diff_round_trip:
  assumes "validate el gr base = Inr ()" and "validate el gr target = Inr ()"
    and "state_epoch base = state_epoch target"
    and "state_generation base < state_generation target"
  shows "\<exists>d. terminal_state_diff el gr base target = Inr d \<and>
    apply_terminal_state_diff el gr base d = Inr target"
  using assms by (rule diff_apply_round_trip) blast

theorem state_diff_round_trip_witness:
  "\<exists>d. terminal_state_diff demo_encoded_len length (demo_state 1 [])
      (demo_state 2 [demo_cell 0 ''a'', demo_cell 1 ''b'']) = Inr d \<and>
    apply_terminal_state_diff demo_encoded_len length (demo_state 1 []) d
      = Inr (demo_state 2 [demo_cell 0 ''a'', demo_cell 1 ''b''])"
proof (rule state_diff_round_trip)
  show "validate demo_encoded_len length (demo_state 1 []) = Inr ()"
    by (rule demo_state_valid) (simp_all add: cells_ok_def)
  show "validate demo_encoded_len length
      (demo_state 2 [demo_cell 0 ''a'', demo_cell 1 ''b'']) = Inr ()"
    using demo_cells_ok by (intro demo_state_valid) (simp_all add: MAX_CELLS_def)
qed (simp_all add: demo_state_def)

section \<open>A window and the client behind it\<close>

text \<open>The server's window, the update on the reliable stream, the client's state and
  the acknowledgements on their way back.\<close>

record sync_system =
  sys_window :: StateSyncWindow
  sys_update :: "PreparedStateUpdate option"
  sys_client :: "State option"
  sys_acks :: "TerminalStateAck list"

definition ack_of :: "State \<Rightarrow> TerminalStateAck" where
  "ack_of st = \<lparr> ack_epoch = state_epoch st, ack_generation = state_generation st \<rparr>"

fun client_apply ::
  "(State \<Rightarrow> nat) \<Rightarrow> (string \<Rightarrow> nat) \<Rightarrow> State option \<Rightarrow> PreparedStateUpdate \<Rightarrow> State result" where
  "client_apply el gr client (Snapshot st) = and_then (validate el gr st) (\<lambda>_. Inr st)"
| "client_apply el gr None (Diff d) = bail ''terminal state diff has no base''"
| "client_apply el gr (Some base) (Diff d) = apply_terminal_state_diff el gr base d"

inductive sync_reachable ::
  "(State \<Rightarrow> nat) \<Rightarrow> (TerminalStateDiff \<Rightarrow> nat) \<Rightarrow> (string \<Rightarrow> nat) \<Rightarrow> sync_system \<Rightarrow> bool"
  for el dl gr where
  attached:
    "validate el gr st = Inr () \<Longrightarrow> begin_initial StateSyncWindow_default st = Inr w \<Longrightarrow>
     sync_reachable el dl gr \<lparr> sys_window = w, sys_update = Some (Snapshot st),
       sys_client = None, sys_acks = [] \<rparr>"
| produced:
    "sync_reachable el dl gr s \<Longrightarrow>
     sync_reachable el dl gr (s \<lparr> sys_window := mark_dirty (sys_window s) \<rparr>)"
| sent:
    "sync_reachable el dl gr s \<Longrightarrow> needs_update (sys_window s) \<Longrightarrow> validate el gr latest = Inr () \<Longrightarrow>
     prepare_update el dl gr (sys_window s) latest allow_diff = (w, Inr (Some u)) \<Longrightarrow>
     sync_reachable el dl gr (s \<lparr> sys_window := w, sys_update := Some u \<rparr>)"
| unchanged:
    "sync_reachable el dl gr s \<Longrightarrow> needs_update (sys_window s) \<Longrightarrow> validate el gr latest = Inr () \<Longrightarrow>
     prepare_update el dl gr (sys_window s) latest allow_diff = (w, Inr None) \<Longrightarrow>
     sync_reachable el dl gr (s \<lparr> sys_window := w \<rparr>)"
| delivered:
    "sync_reachable el dl gr s \<Longrightarrow> sys_update s = Some u \<Longrightarrow>
     client_apply el gr (sys_client s) u = Inr st \<Longrightarrow>
     sync_reachable el dl gr (s \<lparr> sys_update := None, sys_client := Some st,
       sys_acks := sys_acks s @ [ack_of st] \<rparr>)"
| acked:
    "sync_reachable el dl gr s \<Longrightarrow> sys_acks s = a # rest \<Longrightarrow>
     acknowledge (sys_window s) a = Inr (w, disposition) \<Longrightarrow>
     sync_reachable el dl gr (s \<lparr> sys_window := w, sys_acks := rest \<rparr>)"

text \<open>The phases of the exchange: nothing outstanding, an update on its way, its
  acknowledgement on its way.\<close>

definition advances :: "State option \<Rightarrow> State \<Rightarrow> bool" where
  "advances base t \<longleftrightarrow> (\<forall>b. base = Some b \<longrightarrow>
    \<not> (state_epoch b = state_epoch t \<and> state_generation t \<le> state_generation b))"

definition sync_idle :: "(State \<Rightarrow> nat) \<Rightarrow> (string \<Rightarrow> nat) \<Rightarrow> sync_system \<Rightarrow> bool" where
  "sync_idle el gr s \<longleftrightarrow> in_flight (sys_window s) = None \<and> sys_update s = None \<and> sys_acks s = [] \<and>
    sys_client s = acknowledged (sys_window s) \<and>
    (\<forall>b. sys_client s = Some b \<longrightarrow> validate el gr b = Inr ())"

definition sync_sent :: "(State \<Rightarrow> nat) \<Rightarrow> (string \<Rightarrow> nat) \<Rightarrow> sync_system \<Rightarrow> State \<Rightarrow> bool" where
  "sync_sent el gr s t \<longleftrightarrow> in_flight (sys_window s) = Some t \<and> validate el gr t = Inr () \<and>
    advances (acknowledged (sys_window s)) t \<and> sys_acks s = [] \<and>
    sys_client s = acknowledged (sys_window s) \<and>
    (\<exists>u. sys_update s = Some u \<and> client_apply el gr (sys_client s) u = Inr t)"

definition sync_received :: "(State \<Rightarrow> nat) \<Rightarrow> (string \<Rightarrow> nat) \<Rightarrow> sync_system \<Rightarrow> State \<Rightarrow> bool" where
  "sync_received el gr s t \<longleftrightarrow> in_flight (sys_window s) = Some t \<and> validate el gr t = Inr () \<and>
    advances (acknowledged (sys_window s)) t \<and> sys_update s = None \<and>
    sys_acks s = [ack_of t] \<and> sys_client s = Some t"

lemma prepare_update_sends:
  assumes "prepare_update el dl gr w latest allow_diff = (w', Inr (Some u))"
    and "validate el gr latest = Inr ()"
    and "\<forall>b. acknowledged w = Some b \<longrightarrow> validate el gr b = Inr ()"
  shows "in_flight w' = Some latest \<and> acknowledged w' = acknowledged w \<and>
    advances (acknowledged w) latest \<and> client_apply el gr (acknowledged w) u = Inr latest"
proof (cases "acknowledged w")
  case None
  then show ?thesis
    using assms by (auto simp: prepare_update_def Let_def advances_def split: if_splits)
next
  case (Some b)
  then have stale: "\<not> (state_epoch b = state_epoch latest \<and> state_generation latest \<le> state_generation b)"
    using assms(1) by (auto simp: prepare_update_def Let_def split: if_splits)
  have diff: "apply_terminal_state_diff el gr b d = Inr latest"
    if "terminal_state_diff el gr b latest = Inr d" "state_epoch b = state_epoch latest"
      "state_generation b < state_generation latest" for d
    using diff_apply_round_trip [of el gr b latest] that assms Some by fastforce
  show ?thesis
    using assms(1,2) Some stale
    by (auto simp: prepare_update_def Let_def advances_def diff split: if_splits sum.splits)
qed

lemma acknowledge_in_flight:
  assumes "in_flight w = Some t" "validate el gr t = Inr ()" "advances (acknowledged w) t"
  shows "acknowledge w (ack_of t) = Inr (w \<lparr> acknowledged := Some t, in_flight := None \<rparr>, Accepted)"
  using assms validate_bounds(2,3) [OF assms(2)]
  by (auto simp: acknowledge_def ack_of_def advances_def split: option.split)

lemma sync_phases:
  assumes "sync_reachable el dl gr s"
  shows "sync_idle el gr s \<or> (\<exists>t. sync_sent el gr s t \<or> sync_received el gr s t)"
  using assms
proof induction
  case (attached st w)
  then have "sync_sent el gr \<lparr> sys_window = w, sys_update = Some (Snapshot st),
      sys_client = None, sys_acks = [] \<rparr> st"
    by (auto simp: sync_sent_def begin_initial_def StateSyncWindow_default_def advances_def
        split: if_splits)
  then show ?case by blast
next
  case (produced s)
  then show ?case by (auto simp: sync_idle_def sync_sent_def sync_received_def mark_dirty_def)
next
  case (sent s latest allow_diff w u)
  then have idle: "sync_idle el gr s"
    by (auto simp: sync_sent_def sync_received_def needs_update_def)
  then have "\<forall>b. acknowledged (sys_window s) = Some b \<longrightarrow> validate el gr b = Inr ()"
    by (simp add: sync_idle_def)
  from prepare_update_sends [OF sent.hyps(4,3) this] idle sent.hyps(3)
  have "sync_sent el gr (s \<lparr> sys_window := w, sys_update := Some u \<rparr>) latest"
    by (simp add: sync_sent_def sync_idle_def)
  then show ?case by blast
next
  case (unchanged s latest allow_diff w)
  then have idle: "sync_idle el gr s"
    by (auto simp: sync_sent_def sync_received_def needs_update_def)
  then have "in_flight w = None \<and> acknowledged w = acknowledged (sys_window s)"
    using unchanged.hyps(4)
    by (auto simp: prepare_update_def sync_idle_def Let_def split: if_splits option.splits sum.splits)
  with idle show ?case by (simp add: sync_idle_def)
next
  case (delivered s u st)
  then obtain t where t: "sync_sent el gr s t" by (auto simp: sync_idle_def sync_received_def)
  then have "st = t" using delivered.hyps(2,3) by (simp add: sync_sent_def)
  with t have "sync_received el gr (s \<lparr> sys_update := None, sys_client := Some st,
       sys_acks := sys_acks s @ [ack_of st] \<rparr>) t"
    by (simp add: sync_sent_def sync_received_def)
  then show ?case by blast
next
  case (acked s a rest w disposition)
  then obtain t where t: "sync_received el gr s t" by (auto simp: sync_idle_def sync_sent_def)
  then have "w = sys_window s \<lparr> acknowledged := Some t, in_flight := None \<rparr>" "rest = []"
    using acknowledge_in_flight [of "sys_window s" t el gr] acked.hyps(2,3)
    by (simp_all add: sync_received_def)
  with t have "sync_idle el gr (s \<lparr> sys_window := w, sys_acks := rest \<rparr>)"
    by (simp add: sync_received_def sync_idle_def)
  then show ?case by blast
qed

text \<open>C4. The window and the client agree. However output, updates, deliveries and
  acknowledgements are interleaved, an update on the stream always applies on the
  client and gives exactly the state in flight, an acknowledgement on its way back
  is always accepted and leaves the client's state acknowledged, and when neither
  is outstanding the client holds exactly the acknowledged state.\<close>

theorem sync_agreement:
  assumes "sync_reachable el dl gr s"
  shows "(case sys_update s of
      Some u \<Rightarrow> \<exists>t. in_flight (sys_window s) = Some t \<and> client_apply el gr (sys_client s) u = Inr t
    | None \<Rightarrow> (case sys_acks s of
        a # rest \<Rightarrow> rest = [] \<and> (\<exists>w. acknowledge (sys_window s) a = Inr (w, Accepted) \<and>
          acknowledged w = sys_client s \<and> in_flight w = None)
      | [] \<Rightarrow> sys_client s = acknowledged (sys_window s) \<and> in_flight (sys_window s) = None))"
  using sync_phases [OF assms] acknowledge_in_flight
  by (fastforce simp: sync_idle_def sync_sent_def sync_received_def)

lemma demo_sync_attached:
  "sync_reachable demo_encoded_len (\<lambda>d. 10) length \<lparr>
    sys_window = \<lparr> acknowledged = None, in_flight = Some (demo_state 1 []), dirty = False \<rparr>,
    sys_update = Some (Snapshot (demo_state 1 [])), sys_client = None, sys_acks = [] \<rparr>"
  by (rule sync_reachable.attached)
    (simp_all add: demo_state_valid cells_ok_def begin_initial_def StateSyncWindow_default_def)

theorem sync_agreement_witness:
  "\<exists>t. client_apply demo_encoded_len length None (Snapshot (demo_state 1 [])) = Inr t \<and>
    Some t = Some (demo_state 1 [])"
  using sync_agreement [OF demo_sync_attached] by simp

end
