(* ===== verification/Viewport_Delta.thy ===== *)
theory Viewport_Delta
  imports Terminal_Sync
begin

unbundle bit_operations_syntax

text \<open>
  The compact viewport delta of \<^verbatim>\<open>src/terminal_streaming.rs\<close> with its messages in
  \<^verbatim>\<open>src/protocol.rs\<close>: a datagram carries only the rows that changed, each as one
  splice of cells against a row of the base, and only the tables and modes that
  differ; the receiver rebuilds the whole viewport state and validates it.

  The result is the round trip: the datagram computed from two viewport states of
  one epoch and geometry is applied to exactly the target state.
\<close>

section \<open>Messages\<close>

record TerminalViewportRowPatch =
  patch_index :: u32
  patch_base_index :: u32
  patch_metadata :: "Row option"
  cell_start :: u32
  delete_count :: u32
  patch_cells :: "Cell list"

record TerminalViewportFragment =
  fragment_epoch :: bytes
  fragment_base_generation :: u64
  fragment_target_generation :: u64
  fragment_transfer_id :: bytes
  fragment_index :: u32
  fragment_count :: u32
  total_encoded :: u32
  raw_length :: u32
  fragment_encoding :: i32
  fragment_sha256 :: bytes
  fragment_data :: bytes

record TerminalViewportDatagram =
  terminal_id :: string
  attachment_id :: string
  datagram_diff :: "TerminalStateDiff option"
  inherited_fields :: u32
  sparse_rows :: bool
  primary_patches :: "TerminalViewportRowPatch list"
  alternate_patches :: "TerminalViewportRowPatch list"
  fragment :: "TerminalViewportFragment option"

definition INHERIT_STYLES :: u32 where
  "INHERIT_STYLES = push_bit 0 1"

definition INHERIT_HYPERLINKS :: u32 where
  "INHERIT_HYPERLINKS = push_bit 1 1"

definition INHERIT_MODES :: u32 where
  "INHERIT_MODES = push_bit 2 1"

definition INHERIT_TITLE :: u32 where
  "INHERIT_TITLE = push_bit 3 1"

definition INHERIT_WORKING_DIRECTORY :: u32 where
  "INHERIT_WORKING_DIRECTORY = push_bit 4 1"

definition INHERIT_PALETTE :: u32 where
  "INHERIT_PALETTE = push_bit 5 1"

definition KNOWN_INHERIT_MASK :: u32 where
  "KNOWN_INHERIT_MASK = INHERIT_STYLES OR INHERIT_HYPERLINKS OR INHERIT_MODES OR INHERIT_TITLE
     OR INHERIT_WORKING_DIRECTORY OR INHERIT_PALETTE"

definition datagram_get_diff :: "TerminalViewportDatagram \<Rightarrow> TerminalStateDiff result" where
  "datagram_get_diff d = ok_or ''terminal viewport delta has no semantic diff'' (datagram_diff d)"

definition validate_viewport_state ::
  "(State \<Rightarrow> nat) \<Rightarrow> (string \<Rightarrow> nat) \<Rightarrow> State \<Rightarrow> unit result" where
  "validate_viewport_state encoded_len graphemes state =
    and_then (with_context ''terminal viewport state is invalid''
      (validate encoded_len graphemes state)) (\<lambda>_.
    let expected_rows = unat (state_rows state) in
    and_then (ok_or ''primary screen is missing'' (primary state)) (\<lambda>p.
    and_then (ok_or ''alternate screen is missing'' (alternate state)) (\<lambda>a.
    if \<not> (viewport_start p = 0 \<and> length (included_rows p) = expected_rows) then
      bail ''primary live state contains scrollback''
    else if \<not> (viewport_start a = 0 \<and> length (included_rows a) = expected_rows) then
      bail ''alternate live state is not exactly one viewport''
    else Inr ())))"

section \<open>Sparse rows\<close>

text \<open>The map collected from the rows of the base: a later row overrides an earlier one
  with the same anchor.\<close>

definition anchor_indices :: "Row list \<Rightarrow> (u64 \<times> u32 \<rightharpoonup> usize)" where
  "anchor_indices base = map_of (rev (List.map_filter
    (\<lambda>(index, row). map_option (\<lambda>a. ((logical_line_id a, cell_offset a), index)) (row_start row))
    (enumerate 0 base)))"

definition common_prefix :: "'a list \<Rightarrow> 'a list \<Rightarrow> nat" where
  "common_prefix xs ys = length (takeWhile (\<lambda>(a, b). a = b) (zip xs ys))"

definition row_patch :: "Row list \<Rightarrow> usize \<Rightarrow> Row \<Rightarrow> TerminalViewportRowPatch" where
  "row_patch base index row = (
    let base_index = (case Option.bind (row_start row)
          (\<lambda>anchor. anchor_indices base (logical_line_id anchor, cell_offset anchor)) of
        Some i \<Rightarrow> i | None \<Rightarrow> index);
      old = base ! base_index;
      prefix_len = common_prefix (row_cells old) (row_cells row);
      suffix_len = common_prefix (rev (drop prefix_len (row_cells old)))
        (rev (drop prefix_len (row_cells row))) in
    \<lparr> patch_index = word_of_nat index,
      patch_base_index = word_of_nat base_index,
      patch_metadata = Some \<lparr> row_start = row_start row, row_version = row_version row,
        row_cells = [], wrapped_to_next = wrapped_to_next row \<rparr>,
      cell_start = word_of_nat prefix_len,
      delete_count = word_of_nat (length (row_cells old) - prefix_len - suffix_len),
      patch_cells = take (length (row_cells row) - suffix_len - prefix_len)
        (drop prefix_len (row_cells row)) \<rparr>)"

definition sparse_row_patches ::
  "Row list \<Rightarrow> Row list \<Rightarrow> TerminalViewportRowPatch list result" where
  "sparse_row_patches base target = (
    if \<not> length base = length target then bail ''viewport geometry changed without keyframe''
    else Inr (List.map_filter (\<lambda>(index, row).
      if row = base ! index then None else Some (row_patch base index row)) (enumerate 0 target)))"

definition apply_sparse_row ::
  "Row list \<Rightarrow> usize set \<times> Row list \<Rightarrow> TerminalViewportRowPatch \<Rightarrow> (usize set \<times> Row list) result" where
  "apply_sparse_row base acc patch = (
    let index = unat (patch_index patch) in
    if \<not> (index < length base \<and> index \<notin> fst acc) then
      bail ''invalid or duplicate viewport row index''
    else and_then (ok_or ''invalid viewport base row index''
        (if unat (patch_base_index patch) < length base
         then Some (base ! unat (patch_base_index patch)) else None)) (\<lambda>old.
      let start = unat (cell_start patch) in
      and_then (ok_or ''cell splice overflow''
        (usize_checked_add start (unat (delete_count patch)))) (\<lambda>splice_end.
      if \<not> splice_end \<le> length (row_cells old) then bail ''cell splice exceeds base row''
      else and_then (ok_or ''viewport row metadata missing'' (patch_metadata patch)) (\<lambda>row.
        if \<not> row_cells row = [] then bail ''viewport row metadata contains cells''
        else Inr (insert index (fst acc), (snd acc)[index := row \<lparr> row_cells :=
          take start (row_cells old) @ patch_cells patch @ drop splice_end (row_cells old) \<rparr>])))))"

definition apply_sparse_rows ::
  "Row list \<Rightarrow> TerminalViewportRowPatch list \<Rightarrow> Row list result" where
  "apply_sparse_rows base patches = (
    if \<not> length patches \<le> length base then bail ''too many viewport row patches''
    else and_then (try_fold (apply_sparse_row base) ({}, base) patches) (\<lambda>acc. Inr (snd acc)))"

section \<open>The compact delta\<close>

text \<open>One of the six fields that a delta omits when it equals the field of the base.\<close>

definition inherit_field ::
  "(State \<Rightarrow> bool) \<Rightarrow> (State \<Rightarrow> State) \<Rightarrow> u32 \<Rightarrow> State \<times> u32 \<Rightarrow> State \<times> u32" where
  "inherit_field same clear flag acc =
    (if same (fst acc) then (clear (fst acc), snd acc OR flag) else acc)"

definition compact_metadata :: "State \<Rightarrow> State \<Rightarrow> State \<times> u32" where
  "compact_metadata base target =
    inherit_field (\<lambda>m. palette m = palette base) (\<lambda>m. m \<lparr> palette := None \<rparr>) INHERIT_PALETTE (
    inherit_field (\<lambda>m. working_directory m = working_directory base)
      (\<lambda>m. m \<lparr> working_directory := [] \<rparr>) INHERIT_WORKING_DIRECTORY (
    inherit_field (\<lambda>m. title m = title base) (\<lambda>m. m \<lparr> title := [] \<rparr>) INHERIT_TITLE (
    inherit_field (\<lambda>m. modes m = modes base) (\<lambda>m. m \<lparr> modes := None \<rparr>) INHERIT_MODES (
    inherit_field (\<lambda>m. hyperlinks m = hyperlinks base) (\<lambda>m. m \<lparr> hyperlinks := [] \<rparr>)
      INHERIT_HYPERLINKS (
    inherit_field (\<lambda>m. styles m = styles base) (\<lambda>m. m \<lparr> styles := [] \<rparr>) INHERIT_STYLES (
    (state_metadata target, 0)))))))"

definition compact_viewport_datagram ::
  "string \<Rightarrow> string \<Rightarrow> State \<Rightarrow> State \<Rightarrow> TerminalViewportDatagram result" where
  "compact_viewport_datagram tid aid base target = (
    if \<not> (tid \<noteq> [] \<and> aid \<noteq> []) then bail ''terminal viewport datagram route is empty''
    else if \<not> (state_epoch base = state_epoch target
        \<and> state_generation base < state_generation target) then
      bail ''invalid cumulative viewport generation''
    else
      let (metadata, flags) = compact_metadata base target in
      and_then (ok_or ''missing primary'' (primary base)) (\<lambda>bp.
      and_then (ok_or ''missing primary'' (primary target)) (\<lambda>tp.
      and_then (sparse_row_patches (included_rows bp) (included_rows tp)) (\<lambda>p_patches.
      and_then (ok_or ''missing alternate'' (alternate base)) (\<lambda>ba.
      and_then (ok_or ''missing alternate'' (alternate target)) (\<lambda>ta.
      and_then (sparse_row_patches (included_rows ba) (included_rows ta)) (\<lambda>a_patches.
        Inr \<lparr> terminal_id = tid, attachment_id = aid,
          datagram_diff = Some \<lparr> diff_epoch = state_epoch target,
            base_generation = state_generation base,
            target_generation = state_generation target,
            target_metadata = Some metadata, primary_rows = [], alternate_rows = [] \<rparr>,
          inherited_fields = flags, sparse_rows = True,
          primary_patches = p_patches, alternate_patches = a_patches,
          fragment = None \<rparr>)))))))"

definition restore_field ::
  "u32 \<Rightarrow> u32 \<Rightarrow> (State \<Rightarrow> bool) \<Rightarrow> string \<Rightarrow> (State \<Rightarrow> State) \<Rightarrow> State \<Rightarrow> State result" where
  "restore_field flags flag absent message restore metadata = (
    if flags AND flag \<noteq> 0 then
      (if \<not> absent metadata then bail message else Inr (restore metadata))
    else Inr metadata)"

definition restore_metadata :: "State \<Rightarrow> u32 \<Rightarrow> State \<Rightarrow> State result" where
  "restore_metadata base flags metadata =
    and_then (restore_field flags INHERIT_STYLES (\<lambda>m. styles m = [])
      ''inherited styles are also encoded'' (\<lambda>m. m \<lparr> styles := styles base \<rparr>) metadata) (\<lambda>metadata.
    and_then (restore_field flags INHERIT_HYPERLINKS (\<lambda>m. hyperlinks m = [])
      ''inherited hyperlinks are also encoded'' (\<lambda>m. m \<lparr> hyperlinks := hyperlinks base \<rparr>) metadata)
      (\<lambda>metadata.
    and_then (restore_field flags INHERIT_MODES (\<lambda>m. modes m = None)
      ''inherited modes are also encoded'' (\<lambda>m. m \<lparr> modes := modes base \<rparr>) metadata) (\<lambda>metadata.
    and_then (restore_field flags INHERIT_TITLE (\<lambda>m. title m = [])
      ''inherited title is also encoded'' (\<lambda>m. m \<lparr> title := title base \<rparr>) metadata) (\<lambda>metadata.
    and_then (restore_field flags INHERIT_WORKING_DIRECTORY (\<lambda>m. working_directory m = [])
      ''inherited working directory is also encoded''
      (\<lambda>m. m \<lparr> working_directory := working_directory base \<rparr>) metadata) (\<lambda>metadata.
    restore_field flags INHERIT_PALETTE (\<lambda>m. palette m = None)
      ''inherited palette is also encoded'' (\<lambda>m. m \<lparr> palette := palette base \<rparr>) metadata)))))"

definition apply_screen_patches ::
  "Screen option \<Rightarrow> Screen option \<Rightarrow> TerminalViewportRowPatch list \<Rightarrow> Screen result" where
  "apply_screen_patches screen original patches =
    and_then (ok_or ''missing viewport screen'' screen) (\<lambda>s.
      if \<not> included_rows s = [] then bail ''viewport metadata contains rows''
      else and_then (ok_or ''missing base screen'' original) (\<lambda>o'.
        and_then (apply_sparse_rows (included_rows o') patches) (\<lambda>rows.
          Inr (s \<lparr> included_rows := rows \<rparr>))))"

definition apply_compact_viewport_delta ::
  "(State \<Rightarrow> nat) \<Rightarrow> (string \<Rightarrow> nat) \<Rightarrow> State \<Rightarrow> TerminalViewportDatagram \<Rightarrow> State result" where
  "apply_compact_viewport_delta encoded_len graphemes base delta = (
    if \<not> inherited_fields delta AND NOT KNOWN_INHERIT_MASK = 0 then
      bail ''terminal viewport delta has unknown inherited fields''
    else and_then (datagram_get_diff delta) (\<lambda>diff.
      and_then (ok_or ''terminal viewport delta target metadata is missing''
        (target_metadata diff)) (\<lambda>metadata.
      and_then (restore_metadata base (inherited_fields delta) metadata) (\<lambda>metadata.
      if \<not> sparse_rows delta then
        (if \<not> (primary_patches delta = [] \<and> alternate_patches delta = []) then
          bail ''sparse patches without encoding flag''
        else apply_terminal_state_diff encoded_len graphemes base
          (diff \<lparr> target_metadata := Some metadata \<rparr>))
      else if \<not> (primary_rows diff = [] \<and> alternate_rows diff = []) then
        bail ''mixed row encodings''
      else if \<not> (state_epoch base = diff_epoch diff \<and> state_generation base = base_generation diff
          \<and> base_generation diff < target_generation diff) then
        bail ''invalid viewport diff base''
      else if \<not> (state_epoch metadata = diff_epoch diff
          \<and> state_generation metadata = target_generation diff
          \<and> state_rows metadata = state_rows base \<and> state_cols metadata = state_cols base) then
        bail ''invalid viewport diff metadata''
      else
        and_then (apply_screen_patches (primary metadata) (primary base) (primary_patches delta))
          (\<lambda>p.
        and_then (apply_screen_patches (alternate metadata) (alternate base)
          (alternate_patches delta)) (\<lambda>a.
        let target = metadata \<lparr> primary := Some p, alternate := Some a \<rparr> in
        and_then (validate_viewport_state encoded_len graphemes target) (\<lambda>_. Inr target)))))))"

section \<open>Splices\<close>

lemma common_prefix_take:
  "take (common_prefix xs ys) xs = take (common_prefix xs ys) ys"
  "common_prefix xs ys \<le> length xs" "common_prefix xs ys \<le> length ys"
proof -
  have "take (common_prefix xs ys) xs = take (common_prefix xs ys) ys \<and>
    common_prefix xs ys \<le> length xs \<and> common_prefix xs ys \<le> length ys"
    unfolding common_prefix_def by (induction xs ys rule: list_induct2') auto
  then show "take (common_prefix xs ys) xs = take (common_prefix xs ys) ys"
    "common_prefix xs ys \<le> length xs" "common_prefix xs ys \<le> length ys" by blast+
qed

lemma common_suffix_drop:
  fixes xs ys :: "'a list"
  defines "s \<equiv> common_prefix (rev xs) (rev ys)"
  shows "drop (length xs - s) xs = drop (length ys - s) ys"
proof -
  have "take s (rev xs) = take s (rev ys)" unfolding s_def by (rule common_prefix_take(1))
  then show ?thesis by (simp add: take_rev)
qed

lemma splice_restores:
  fixes old new :: "'a list"
  defines "p \<equiv> common_prefix old new"
  defines "s \<equiv> common_prefix (rev (drop p old)) (rev (drop p new))"
  shows "take p old @ take (length new - s - p) (drop p new)
      @ drop (p + (length old - p - s)) old = new"
    and "p + (length old - p - s) \<le> length old" and "p \<le> length old"
proof -
  have p: "take p old = take p new" "p \<le> length old" "p \<le> length new"
    unfolding p_def by (rule common_prefix_take)+
  have s: "s \<le> length old - p" "s \<le> length new - p"
    using common_prefix_take(2,3) [of "rev (drop p old)" "rev (drop p new)"]
    by (simp_all add: s_def)
  have "drop (p + (length old - p - s)) old = drop (length (drop p old) - s) (drop p old)"
    by (simp add: add.commute)
  also have "\<dots> = drop (length (drop p new) - s) (drop p new)"
    unfolding s_def by (rule common_suffix_drop)
  finally have tail: "drop (p + (length old - p - s)) old = drop (length new - p - s) (drop p new)"
    by simp
  have "length new - s - p = length new - p - s" by simp
  then show "take p old @ take (length new - s - p) (drop p new)
      @ drop (p + (length old - p - s)) old = new"
    unfolding tail p(1) by (simp only: append_take_drop_id)
  show "p + (length old - p - s) \<le> length old" "p \<le> length old" using p s by simp_all
qed

definition small_rows :: "Row list \<Rightarrow> bool" where
  "small_rows rows \<longleftrightarrow> length rows < 2 ^ 32 \<and> (\<forall>r \<in> set rows. length (row_cells r) < 2 ^ 32)"

lemma anchor_indices_range: "anchor_indices base k = Some i \<Longrightarrow> i < length base"
  by (auto simp: anchor_indices_def List.map_filter_def in_set_enumerate_eq dest!: map_of_SomeD
      split: option.splits)

lemma apply_row_patch:
  assumes "small_rows base" and "i < length base" and "i \<notin> seen"
  shows "apply_sparse_row base (seen, tgt) (row_patch base i row)
    = Inr (insert i seen, tgt[i := row])"
proof -
  define b where "b = (case Option.bind (row_start row)
      (\<lambda>anchor. anchor_indices base (logical_line_id anchor, cell_offset anchor)) of
    Some i \<Rightarrow> i | None \<Rightarrow> i)"
  have b: "b < length base"
    using assms(2) by (auto simp: b_def bind_eq_Some_conv dest: anchor_indices_range
        split: option.split)
  define old where "old = row_cells (base ! b)"
  define p where "p = common_prefix old (row_cells row)"
  define s where "s = common_prefix (rev (drop p old)) (rev (drop p (row_cells row)))"
  note splice = splice_restores [of old "row_cells row", folded p_def, folded s_def]
  have old: "length old < 2 ^ 32" using assms(1) b by (simp add: small_rows_def old_def)
  have small: "unat (word_of_nat n :: u32) = n" if "n < 2 ^ 32" for n
    using that by (simp add: unat_of_nat take_bit_nat_eq_self_iff)
  have lens: "length base < 2 ^ 32" using assms(1) by (simp add: small_rows_def)
  have patch: "row_patch base i row = \<lparr> patch_index = word_of_nat i, patch_base_index = word_of_nat b,
      patch_metadata = Some \<lparr> row_start = row_start row, row_version = row_version row,
        row_cells = [], wrapped_to_next = wrapped_to_next row \<rparr>,
      cell_start = word_of_nat p, delete_count = word_of_nat (length old - p - s),
      patch_cells = take (length (row_cells row) - s - p) (drop p (row_cells row)) \<rparr>"
    unfolding row_patch_def Let_def b_def [symmetric] old_def [symmetric] p_def [symmetric]
      s_def [symmetric] ..
  have words: "unat (word_of_nat i :: u32) = i" "unat (word_of_nat b :: u32) = b"
    "unat (word_of_nat p :: u32) = p"
    "unat (word_of_nat (length old - p - s) :: u32) = length old - p - s"
    using b lens assms(2) old splice(3) by (auto intro!: small)
  have add: "usize_checked_add p (length old - p - s) = Some (p + (length old - p - s))"
    using splice(2) old by (simp add: usize_checked_add_def)
  have row_eq: "\<lparr> row_start = row_start row, row_version = row_version row,
      row_cells = row_cells row, wrapped_to_next = wrapped_to_next row \<rparr> = row"
    by (cases row) simp
  show ?thesis
    unfolding apply_sparse_row_def patch
    using assms b words splice add
    by (simp add: Let_def old_def [symmetric]) (simp only: row_eq)
qed

lemma apply_patches_loop:
  assumes "small_rows base" and "length base = length pre + length rest" and "seen \<subseteq> {..<length pre}"
  shows "\<exists>seen'. try_fold (apply_sparse_row base) (seen, pre @ drop (length pre) base)
    (List.map_filter (\<lambda>(index, row). if row = base ! index then None
      else Some (row_patch base index row)) (enumerate (length pre) rest)) = Inr (seen', pre @ rest)"
  using assms(2,3)
proof (induction rest arbitrary: pre seen)
  case (Cons row rest)
  let ?k = "length pre"
  have k: "?k < length base" using Cons.prems(1) by simp
  then have split: "drop ?k base = base ! ?k # drop (Suc ?k) base" by (rule Cons_nth_drop_Suc [symmetric])
  have len: "length base = length (pre @ [row]) + length rest" using Cons.prems(1) by simp
  show ?case
  proof (cases "row = base ! ?k")
    case True
    have "seen \<subseteq> {..<length (pre @ [row])}" using Cons.prems(2) by auto
    from Cons.IH [OF len this] True split show ?thesis by simp
  next
    case False
    have "?k \<notin> seen" using Cons.prems(2) by auto
    then have "apply_sparse_row base (seen, pre @ drop ?k base) (row_patch base ?k row)
        = Inr (insert ?k seen, (pre @ [row]) @ drop (Suc ?k) base)"
      using apply_row_patch [OF assms(1) k] by (simp add: split)
    moreover have "insert ?k seen \<subseteq> {..<length (pre @ [row])}" using Cons.prems(2) by auto
    ultimately show ?thesis
      using Cons.IH [OF len] False by simp
  qed
qed simp

lemma length_map_filter: "length (List.map_filter f xs) \<le> length xs"
  by (induction xs) (auto split: option.split)

lemma sparse_rows_round_trip:
  assumes "small_rows base" and "length base = length target"
  obtains patches where "sparse_row_patches base target = Inr patches"
    and "apply_sparse_rows base patches = Inr target"
proof -
  let ?patches = "List.map_filter (\<lambda>(index, row). if row = base ! index then None
      else Some (row_patch base index row)) (enumerate 0 target)"
  have "length ?patches \<le> length base"
    using length_map_filter [of _ "enumerate 0 target"] assms(2) by (metis length_enumerate)
  moreover obtain seen where "try_fold (apply_sparse_row base) ({}, base) ?patches = Inr (seen, target)"
    using apply_patches_loop [OF assms(1), of "[]" target "{}"] assms(2) by auto
  ultimately have "apply_sparse_rows base ?patches = Inr target"
    by (simp add: apply_sparse_rows_def)
  moreover have "sparse_row_patches base target = Inr ?patches"
    using assms(2) by (simp add: sparse_row_patches_def)
  ultimately show thesis using that by blast
qed

section \<open>Inherited fields\<close>

lemmas inherit_flags = INHERIT_STYLES_def INHERIT_HYPERLINKS_def INHERIT_MODES_def
  INHERIT_TITLE_def INHERIT_WORKING_DIRECTORY_def INHERIT_PALETTE_def

definition flag_if :: "bool \<Rightarrow> u32 \<Rightarrow> u32" where
  "flag_if c f = (if c then f else 0)"

lemma inherit_field_steps:
  "inherit_field (\<lambda>m. styles m = styles base) (\<lambda>m. m \<lparr> styles := [] \<rparr>) f acc =
    ((fst acc) \<lparr> styles := (if styles (fst acc) = styles base then [] else styles (fst acc)) \<rparr>,
     snd acc OR flag_if (styles (fst acc) = styles base) f)"
  "inherit_field (\<lambda>m. hyperlinks m = hyperlinks base) (\<lambda>m. m \<lparr> hyperlinks := [] \<rparr>) f acc =
    ((fst acc) \<lparr> hyperlinks := (if hyperlinks (fst acc) = hyperlinks base then []
       else hyperlinks (fst acc)) \<rparr>,
     snd acc OR flag_if (hyperlinks (fst acc) = hyperlinks base) f)"
  "inherit_field (\<lambda>m. modes m = modes base) (\<lambda>m. m \<lparr> modes := None \<rparr>) f acc =
    ((fst acc) \<lparr> modes := (if modes (fst acc) = modes base then None else modes (fst acc)) \<rparr>,
     snd acc OR flag_if (modes (fst acc) = modes base) f)"
  "inherit_field (\<lambda>m. title m = title base) (\<lambda>m. m \<lparr> title := [] \<rparr>) f acc =
    ((fst acc) \<lparr> title := (if title (fst acc) = title base then [] else title (fst acc)) \<rparr>,
     snd acc OR flag_if (title (fst acc) = title base) f)"
  "inherit_field (\<lambda>m. working_directory m = working_directory base)
      (\<lambda>m. m \<lparr> working_directory := [] \<rparr>) f acc =
    ((fst acc) \<lparr> working_directory := (if working_directory (fst acc) = working_directory base
       then [] else working_directory (fst acc)) \<rparr>,
     snd acc OR flag_if (working_directory (fst acc) = working_directory base) f)"
  "inherit_field (\<lambda>m. palette m = palette base) (\<lambda>m. m \<lparr> palette := None \<rparr>) f acc =
    ((fst acc) \<lparr> palette := (if palette (fst acc) = palette base then None
       else palette (fst acc)) \<rparr>,
     snd acc OR flag_if (palette (fst acc) = palette base) f)"
  by (cases acc; simp add: inherit_field_def flag_if_def)+

lemma compact_metadata_eq:
  "compact_metadata base target =
    ((state_metadata target) \<lparr>
      styles := (if styles target = styles base then [] else styles target),
      hyperlinks := (if hyperlinks target = hyperlinks base then [] else hyperlinks target),
      modes := (if modes target = modes base then None else modes target),
      title := (if title target = title base then [] else title target),
      working_directory := (if working_directory target = working_directory base then []
        else working_directory target),
      palette := (if palette target = palette base then None else palette target) \<rparr>,
    flag_if (styles target = styles base) INHERIT_STYLES
      OR flag_if (hyperlinks target = hyperlinks base) INHERIT_HYPERLINKS
      OR flag_if (modes target = modes base) INHERIT_MODES
      OR flag_if (title target = title base) INHERIT_TITLE
      OR flag_if (working_directory target = working_directory base) INHERIT_WORKING_DIRECTORY
      OR flag_if (palette target = palette base) INHERIT_PALETTE)"
  unfolding compact_metadata_def inherit_field_steps
  by (simp add: state_metadata_sel or.assoc)

lemma flag_if_tests:
  fixes c1 c2 c3 c4 c5 c6 :: bool
  defines "F \<equiv> flag_if c1 INHERIT_STYLES OR flag_if c2 INHERIT_HYPERLINKS
      OR flag_if c3 INHERIT_MODES OR flag_if c4 INHERIT_TITLE
      OR flag_if c5 INHERIT_WORKING_DIRECTORY OR flag_if c6 INHERIT_PALETTE"
  shows "F AND INHERIT_STYLES \<noteq> 0 \<longleftrightarrow> c1" "F AND INHERIT_HYPERLINKS \<noteq> 0 \<longleftrightarrow> c2"
    "F AND INHERIT_MODES \<noteq> 0 \<longleftrightarrow> c3" "F AND INHERIT_TITLE \<noteq> 0 \<longleftrightarrow> c4"
    "F AND INHERIT_WORKING_DIRECTORY \<noteq> 0 \<longleftrightarrow> c5" "F AND INHERIT_PALETTE \<noteq> 0 \<longleftrightarrow> c6"
    "F AND NOT KNOWN_INHERIT_MASK = 0"
  unfolding F_def flag_if_def inherit_flags KNOWN_INHERIT_MASK_def
  by (cases c1; cases c2; cases c3; cases c4; cases c5; cases c6; simp)+

lemma restore_compact_metadata:
  assumes "compact_metadata base target = (m, flags)"
  shows "restore_metadata base flags m = Inr (state_metadata target)"
proof -
  have m: "m = (state_metadata target) \<lparr>
      styles := (if styles target = styles base then [] else styles target),
      hyperlinks := (if hyperlinks target = hyperlinks base then [] else hyperlinks target),
      modes := (if modes target = modes base then None else modes target),
      title := (if title target = title base then [] else title target),
      working_directory := (if working_directory target = working_directory base then []
        else working_directory target),
      palette := (if palette target = palette base then None else palette target) \<rparr>"
    and flags: "flags = flag_if (styles target = styles base) INHERIT_STYLES
      OR flag_if (hyperlinks target = hyperlinks base) INHERIT_HYPERLINKS
      OR flag_if (modes target = modes base) INHERIT_MODES
      OR flag_if (title target = title base) INHERIT_TITLE
      OR flag_if (working_directory target = working_directory base) INHERIT_WORKING_DIRECTORY
      OR flag_if (palette target = palette base) INHERIT_PALETTE"
    using assms by (simp_all add: compact_metadata_eq)
  have styles: "restore_field flags INHERIT_STYLES (\<lambda>m. styles m = []) msg
      (\<lambda>m. m \<lparr> styles := styles base \<rparr>) q = Inr (q \<lparr> styles := styles target \<rparr>)"
    if "styles q = (if styles target = styles base then [] else styles target)" for q msg
    using that unfolding restore_field_def flags flag_if_tests by (cases q) auto
  have hyperlinks: "restore_field flags INHERIT_HYPERLINKS (\<lambda>m. hyperlinks m = []) msg
      (\<lambda>m. m \<lparr> hyperlinks := hyperlinks base \<rparr>) q = Inr (q \<lparr> hyperlinks := hyperlinks target \<rparr>)"
    if "hyperlinks q = (if hyperlinks target = hyperlinks base then [] else hyperlinks target)"
    for q msg using that unfolding restore_field_def flags flag_if_tests by (cases q) auto
  have modes: "restore_field flags INHERIT_MODES (\<lambda>m. modes m = None) msg
      (\<lambda>m. m \<lparr> modes := modes base \<rparr>) q = Inr (q \<lparr> modes := modes target \<rparr>)"
    if "modes q = (if modes target = modes base then None else modes target)" for q msg
    using that unfolding restore_field_def flags flag_if_tests by (cases q) auto
  have title: "restore_field flags INHERIT_TITLE (\<lambda>m. title m = []) msg
      (\<lambda>m. m \<lparr> title := title base \<rparr>) q = Inr (q \<lparr> title := title target \<rparr>)"
    if "title q = (if title target = title base then [] else title target)" for q msg
    using that unfolding restore_field_def flags flag_if_tests by (cases q) auto
  have wd: "restore_field flags INHERIT_WORKING_DIRECTORY (\<lambda>m. working_directory m = []) msg
      (\<lambda>m. m \<lparr> working_directory := working_directory base \<rparr>) q
      = Inr (q \<lparr> working_directory := working_directory target \<rparr>)"
    if "working_directory q = (if working_directory target = working_directory base then []
      else working_directory target)" for q msg
    using that unfolding restore_field_def flags flag_if_tests by (cases q) auto
  have palette: "restore_field flags INHERIT_PALETTE (\<lambda>m. palette m = None) msg
      (\<lambda>m. m \<lparr> palette := palette base \<rparr>) q = Inr (q \<lparr> palette := palette target \<rparr>)"
    if "palette q = (if palette target = palette base then None else palette target)" for q msg
    using that unfolding restore_field_def flags flag_if_tests by (cases q) auto
  show ?thesis
    unfolding restore_metadata_def
    by (simp add: styles hyperlinks modes title wd palette m)
      (cases target, simp add: state_metadata_def)
qed

lemma compact_metadata_known:
  "snd (compact_metadata base target) AND NOT KNOWN_INHERIT_MASK = 0"
  unfolding compact_metadata_eq snd_conv by (rule flag_if_tests)

lemma validate_viewport_state_Inr:
  assumes "validate_viewport_state el gr st = Inr ()"
  obtains p a where "primary st = Some p" "alternate st = Some a"
    "length (included_rows p) = unat (state_rows st)" "small_rows (included_rows p)"
    "length (included_rows a) = unat (state_rows st)" "small_rows (included_rows a)"
    "validate el gr st = Inr ()" "viewport_start p = 0" "viewport_start a = 0"
proof -
  have valid: "validate el gr st = Inr ()"
    using assms unfolding validate_viewport_state_def and_then_Inr with_context_Inr by auto
  obtain p a where pa: "primary st = Some p" "alternate st = Some a"
    and cells: "cell_total (included_rows p) + cell_total (included_rows a) \<le> MAX_CELLS"
    using valid by (rule validate_Inr)
  have len: "length (included_rows p) = unat (state_rows st)" "viewport_start p = 0"
    "length (included_rows a) = unat (state_rows st)" "viewport_start a = 0"
    using assms pa valid
    by (auto simp: validate_viewport_state_def Let_def split: if_splits)
  have each: "length (row_cells r) \<le> cell_total rows" if "r \<in> set rows" for r rows
    unfolding cell_total_def using that by (auto intro: member_le_sum_list)
  have "small_rows rows" if "length rows = unat (state_rows st)" "cell_total rows \<le> MAX_CELLS" for rows
    unfolding small_rows_def
  proof (intro conjI ballI)
    show "length rows < 2 ^ 32"
      using that(1) unsigned_less [of "state_rows st", where ?'a = nat] by simp
    show "length (row_cells r) < 2 ^ 32" if "r \<in> set rows" for r
      using each [OF that] \<open>cell_total rows \<le> MAX_CELLS\<close> by (simp add: MAX_CELLS_def)
  qed
  then show thesis using that [OF pa] len cells valid by simp
qed

section \<open>The round trip of the compact delta\<close>

lemma apply_screen_patches_metadata:
  assumes "apply_sparse_rows (included_rows b) patches = Inr (included_rows s)"
  shows "apply_screen_patches (Some (screen_metadata s)) (Some b) patches = Inr s"
  using assms by (simp add: apply_screen_patches_def)

lemma compact_delta_round_trip:
  assumes "validate_viewport_state el gr base = Inr ()"
    and "validate_viewport_state el gr target = Inr ()"
    and "state_epoch base = state_epoch target" "state_generation base < state_generation target"
    and "state_rows base = state_rows target" "state_cols base = state_cols target"
    and "tid \<noteq> []" "aid \<noteq> []"
  obtains d diff where "compact_viewport_datagram tid aid base target = Inr d"
    and "apply_compact_viewport_delta el gr base d = Inr target"
    and "terminal_id d = tid" "attachment_id d = aid" "fragment d = None"
    and "datagram_diff d = Some diff" "diff_epoch diff = state_epoch target"
    and "base_generation diff = state_generation base"
    and "target_generation diff = state_generation target"
proof -
  obtain bp ba where b: "primary base = Some bp" "alternate base = Some ba"
    "length (included_rows bp) = unat (state_rows base)" "small_rows (included_rows bp)"
    "length (included_rows ba) = unat (state_rows base)" "small_rows (included_rows ba)"
    using assms(1) by (rule validate_viewport_state_Inr)
  obtain tp ta where t: "primary target = Some tp" "alternate target = Some ta"
    "length (included_rows tp) = unat (state_rows target)"
    "length (included_rows ta) = unat (state_rows target)"
    using assms(2) by (rule validate_viewport_state_Inr)
  obtain ps where ps: "sparse_row_patches (included_rows bp) (included_rows tp) = Inr ps"
    "apply_sparse_rows (included_rows bp) ps = Inr (included_rows tp)"
    using sparse_rows_round_trip [OF b(4), of "included_rows tp"] b t assms(5) by auto
  obtain as where as: "sparse_row_patches (included_rows ba) (included_rows ta) = Inr as"
    "apply_sparse_rows (included_rows ba) as = Inr (included_rows ta)"
    using sparse_rows_round_trip [OF b(6), of "included_rows ta"] b t assms(5) by auto
  obtain m flags where m: "compact_metadata base target = (m, flags)" by fastforce
  let ?diff = "\<lparr> diff_epoch = state_epoch target, base_generation = state_generation base,
    target_generation = state_generation target, target_metadata = Some m,
    primary_rows = [], alternate_rows = [] \<rparr>"
  let ?d = "\<lparr> terminal_id = tid, attachment_id = aid, datagram_diff = Some ?diff,
    inherited_fields = flags, sparse_rows = True, primary_patches = ps, alternate_patches = as,
    fragment = None \<rparr>"
  have compact: "compact_viewport_datagram tid aid base target = Inr ?d"
    using assms b t ps as m by (simp add: compact_viewport_datagram_def)
  have "flags AND NOT KNOWN_INHERIT_MASK = 0" using compact_metadata_known [of base target] m by simp
  moreover have "apply_screen_patches (Some (screen_metadata tp)) (Some bp) ps = Inr tp"
    "apply_screen_patches (Some (screen_metadata ta)) (Some ba) as = Inr ta"
    using ps as by (simp_all add: apply_screen_patches_metadata)
  ultimately have "apply_compact_viewport_delta el gr base ?d = Inr target"
    using assms b t restore_compact_metadata [OF m] state_metadata_restore [OF t(1,2)]
    by (simp add: apply_compact_viewport_delta_def datagram_get_diff_def state_metadata_sel)
  from that [OF compact this] show thesis by simp
qed

text \<open>C2. Viewport deltas reconstruct their target. For two validated viewport states
  of one epoch and geometry with advancing generation, the compact datagram exists
  and the receiver holding the base rebuilds exactly the target from it: changed
  rows are spliced, unchanged rows, tables and modes inherited.\<close>

theorem viewport_delta_round_trip:
  assumes "validate_viewport_state el gr base = Inr ()"
    and "validate_viewport_state el gr target = Inr ()"
    and "state_epoch base = state_epoch target" "state_generation base < state_generation target"
    and "state_rows base = state_rows target" "state_cols base = state_cols target"
    and "tid \<noteq> []" "aid \<noteq> []"
  shows "\<exists>d. compact_viewport_datagram tid aid base target = Inr d \<and>
    apply_compact_viewport_delta el gr base d = Inr target"
  by (rule compact_delta_round_trip [OF assms]) blast

lemma demo_viewport_valid:
  assumes "0 < gen" and "cells_ok length 4 {} {} cs" and "length cs \<le> MAX_CELLS"
  shows "validate_viewport_state demo_encoded_len length (demo_state gen cs) = Inr ()"
  using demo_state_valid [OF assms]
  by (simp add: validate_viewport_state_def demo_state_def demo_screen_sel)

theorem viewport_delta_round_trip_witness:
  "\<exists>d. compact_viewport_datagram ''t'' ''a'' (demo_state 1 [])
      (demo_state 2 [demo_cell 0 ''a'', demo_cell 1 ''b'']) = Inr d \<and>
    apply_compact_viewport_delta demo_encoded_len length (demo_state 1 []) d
      = Inr (demo_state 2 [demo_cell 0 ''a'', demo_cell 1 ''b''])"
proof (rule viewport_delta_round_trip)
  show "validate_viewport_state demo_encoded_len length (demo_state 1 []) = Inr ()"
    by (rule demo_viewport_valid) (simp_all add: cells_ok_def)
  show "validate_viewport_state demo_encoded_len length
      (demo_state 2 [demo_cell 0 ''a'', demo_cell 1 ''b'']) = Inr ()"
    using demo_cells_ok by (intro demo_viewport_valid) (simp_all add: MAX_CELLS_def)
qed (simp_all add: demo_state_def)

end
