(* ===== verification/Datagram_V3.thy ===== *)
theory Datagram_V3
  imports Viewport_Delta
begin

text \<open>
  Fragmented viewport transfers (\<^verbatim>\<open>src/terminal_datagram_v3.rs\<close>) and the envelope
  check of the gateway (\<^verbatim>\<open>validate_worker_datagram\<close> in \<^verbatim>\<open>src/worker.rs\<close>). A
  cumulative delta is encoded once, optionally compressed, and split evenly into
  the smallest number of packets that fit the datagram budget.

  The protobuf encoding and its length, SHA-256 and the bounded zstd compressor
  are parameters. \<^verbatim>\<open>prost_packet_lengths\<close> states what the sender assumes of the
  length of a packet: the documented wire format of the three fields it carries.
\<close>

definition MAX_WORKING_BYTES :: usize where
  "MAX_WORKING_BYTES = 65535"

definition MAX_FRAGMENTS :: u32 where
  "MAX_FRAGMENTS = 128"

definition ID_DOMAIN :: bytes where
  "ID_DOMAIN = bytes_of ''astra-viewport-v3''"

datatype TerminalViewportFragmentEncoding = FragmentEncoding_Raw | FragmentEncoding_Zstd

fun fragment_encoding_i32 :: "TerminalViewportFragmentEncoding \<Rightarrow> i32" where
  "fragment_encoding_i32 FragmentEncoding_Raw = 0"
| "fragment_encoding_i32 FragmentEncoding_Zstd = 1"

record ViewportTransfer =
  transfer_terminal_id :: string
  transfer_attachment_id :: string
  transfer_header :: TerminalViewportFragment
  transfer_encoded :: bytes

definition working_bytes_fit :: "usize \<Rightarrow> usize \<Rightarrow> bool" where
  "working_bytes_fit raw encoded = (0 < raw \<and> 0 < encoded \<and>
    (case Option.bind (if encoded * 2 < 2 ^ 64 then Some (encoded * 2) else None) (\<lambda>v.
      Option.bind (usize_checked_add v raw) (\<lambda>v. usize_checked_add v 1)) of
      Some v \<Rightarrow> v \<le> MAX_WORKING_BYTES | None \<Rightarrow> False))"

definition balanced_range :: "nat \<Rightarrow> nat \<Rightarrow> usize \<Rightarrow> usize \<times> usize" where
  "balanced_range index count tot = (index * tot div count, (index + 1) * tot div count)"

fun varint_loop :: "usize \<Rightarrow> usize \<Rightarrow> usize" where
  "varint_loop v n = (if 128 \<le> v then varint_loop (v div 128) (n + 1) else n)"

declare varint_loop.simps [simp del]

definition varint_len :: "usize \<Rightarrow> usize" where
  "varint_len v = varint_loop v 1"

definition transfer_id :: "(bytes \<Rightarrow> bytes) \<Rightarrow> TerminalViewportFragment \<Rightarrow> bytes" where
  "transfer_id sha256 header = take 16 (sha256 (ID_DOMAIN @ fragment_sha256 header
    @ concat (map to_be_bytes [fragment_encoding header, total_encoded header,
        raw_length header, fragment_count header])))"

definition packet_len ::
  "(TerminalViewportFragment \<Rightarrow> nat) \<Rightarrow> ViewportTransfer \<Rightarrow> nat \<Rightarrow> usize" where
  "packet_len fragment_len t index = (
    let header = (transfer_header t) \<lparr> fragment_index := word_of_nat index \<rparr>;
      range = balanced_range index (unat (fragment_count header)) (length (transfer_encoded t));
      data_length = snd range - fst range;
      inner = fragment_len header + 1 + varint_len data_length + data_length;
      outer_route = 1 + varint_len (length (transfer_terminal_id t)) + length (transfer_terminal_id t)
        + 1 + varint_len (length (transfer_attachment_id t)) + length (transfer_attachment_id t) in
    outer_route + 1 + varint_len inner + inner)"

definition default_datagram :: TerminalViewportDatagram where
  "default_datagram = \<lparr> terminal_id = [], attachment_id = [], datagram_diff = None,
     inherited_fields = 0, sparse_rows = False, primary_patches = [], alternate_patches = [],
     fragment = None \<rparr>"

text \<open>Called with an index below the count of the transfer (the source asserts it).\<close>

definition packet :: "ViewportTransfer \<Rightarrow> nat \<Rightarrow> TerminalViewportDatagram" where
  "packet t index = (
    let header = transfer_header t;
      range = balanced_range index (unat (fragment_count header)) (length (transfer_encoded t)) in
    default_datagram \<lparr> terminal_id := transfer_terminal_id t,
      attachment_id := transfer_attachment_id t,
      fragment := Some (header \<lparr> fragment_index := word_of_nat index,
        fragment_data := take (snd range - fst range) (drop (fst range) (transfer_encoded t)) \<rparr>) \<rparr>)"

text \<open>The inner loop: the wire bytes of all packets, or \<^const>\<open>None\<close> when one exceeds the
  budget.\<close>

fun packets_fit ::
  "(TerminalViewportFragment \<Rightarrow> nat) \<Rightarrow> ViewportTransfer \<Rightarrow> usize \<Rightarrow> usize \<Rightarrow> nat list
    \<Rightarrow> usize option result" where
  "packets_fit fragment_len t budget wire_bytes [] = Inr (Some wire_bytes)"
| "packets_fit fragment_len t budget wire_bytes (index # rest) = (
    let size = packet_len fragment_len t index in
    if budget < size then Inr None
    else and_then (ok_or ''viewport wire size overflow'' (usize_checked_add wire_bytes size))
      (\<lambda>wire_bytes. packets_fit fragment_len t budget wire_bytes rest))"

fun choose_count ::
  "(bytes \<Rightarrow> bytes) \<Rightarrow> (TerminalViewportFragment \<Rightarrow> nat) \<Rightarrow> ViewportTransfer \<Rightarrow> usize \<Rightarrow> usize
    \<Rightarrow> nat list \<Rightarrow> ViewportTransfer option result" where
  "choose_count sha256 fragment_len t budget keyframe_bytes [] = Inr None"
| "choose_count sha256 fragment_len t budget keyframe_bytes (count # rest) = (
    let t = t \<lparr> transfer_header := (transfer_header t) \<lparr> fragment_count := word_of_nat count \<rparr> \<rparr> in
    and_then (packets_fit fragment_len t budget 0 [0..<count]) (\<lambda>fits.
      case fits of
        None \<Rightarrow> choose_count sha256 fragment_len t budget keyframe_bytes rest
      | Some wire_bytes \<Rightarrow>
          if keyframe_bytes \<le> wire_bytes then Inr None
          else Inr (Some (t \<lparr> transfer_header := (transfer_header t)
            \<lparr> fragment_transfer_id := transfer_id sha256 (transfer_header t) \<rparr> \<rparr>))))"

text \<open>The choice of the encoding: compression is tried from 1024 bytes, into a buffer of
  the admitted size, and kept only when it saves the larger of 64 bytes and 5\%.\<close>

definition choose_encoding ::
  "(bytes \<Rightarrow> usize \<Rightarrow> bytes option result) \<Rightarrow> usize \<Rightarrow> bytes
    \<Rightarrow> (TerminalViewportFragmentEncoding \<times> bytes) result" where
  "choose_encoding compress maximum_encoded raw =
    and_then (if 1024 \<le> length raw then compress raw maximum_encoded else Inr None) (\<lambda>compressed.
      Inr (case compressed of
        Some b \<Rightarrow>
          if length b + max 64 ((length raw + 19) div 20) \<le> length raw
          then (FragmentEncoding_Zstd, b) else (FragmentEncoding_Raw, raw)
      | None \<Rightarrow> (FragmentEncoding_Raw, raw)))"

definition initial_transfer ::
  "TerminalViewportDatagram \<Rightarrow> TerminalStateDiff \<Rightarrow> u32 \<Rightarrow> u32 \<Rightarrow> TerminalViewportFragmentEncoding
    \<Rightarrow> bytes \<Rightarrow> bytes \<Rightarrow> ViewportTransfer" where
  "initial_transfer delta diff tot raw_len encoding digest encoded =
    \<lparr> transfer_terminal_id = terminal_id delta,
      transfer_attachment_id = attachment_id delta,
      transfer_header = \<lparr> fragment_epoch = diff_epoch diff,
        fragment_base_generation = base_generation diff,
        fragment_target_generation = target_generation diff,
        fragment_transfer_id = replicate 16 0, fragment_index = 0, fragment_count = 1,
        total_encoded = tot, raw_length = raw_len,
        fragment_encoding = fragment_encoding_i32 encoding,
        fragment_sha256 = digest, fragment_data = [] \<rparr>,
      transfer_encoded = encoded \<rparr>"

definition ViewportTransfer_prepare ::
  "(TerminalViewportDatagram \<Rightarrow> bytes) \<Rightarrow> (bytes \<Rightarrow> bytes) \<Rightarrow> (bytes \<Rightarrow> usize \<Rightarrow> bytes option result)
    \<Rightarrow> (TerminalViewportFragment \<Rightarrow> nat) \<Rightarrow> TerminalViewportDatagram \<Rightarrow> usize \<Rightarrow> usize
    \<Rightarrow> ViewportTransfer option result" where
  "ViewportTransfer_prepare encode sha256 compress fragment_len delta budget keyframe_bytes = (
    let raw = encode delta; raw_len = length raw in
    if raw_len = 0 \<or> MAX_WORKING_BYTES \<le> raw_len \<or> budget = 0 then Inr None
    else if \<not> fragment delta = None then bail ''nested viewport fragment''
    else if \<not> (terminal_id delta \<noteq> [] \<and> attachment_id delta \<noteq> []) then bail ''empty viewport route''
    else and_then (ok_or ''viewport transfer has no diff'' (datagram_diff delta)) (\<lambda>diff.
      if \<not> (length (diff_epoch diff) = 16 \<and> 0 < base_generation diff
          \<and> base_generation diff < target_generation diff) then
        bail ''invalid viewport transfer generation''
      else let maximum_encoded = (MAX_WORKING_BYTES - raw_len - 1) div 2 in
        if maximum_encoded = 0 then Inr None
        else and_then (choose_encoding compress maximum_encoded raw) (\<lambda>(encoding, encoded).
          if \<not> working_bytes_fit raw_len (length encoded) then Inr None
          else and_then (usize_to_u32 (length encoded)) (\<lambda>tot.
            and_then (usize_to_u32 raw_len) (\<lambda>raw_u32.
            choose_count sha256 fragment_len
              (initial_transfer delta diff tot raw_u32 encoding (sha256 raw) encoded)
              budget keyframe_bytes [1..<Suc (unat (min MAX_FRAGMENTS tot))])))))"

definition validate_worker_datagram :: "TerminalViewportDatagram \<Rightarrow> u32 \<Rightarrow> unit result" where
  "validate_worker_datagram p version = (
    if \<not> (1 \<le> version \<and> version \<le> 3) then bail ''worker datagram was not negotiated''
    else case fragment p of
      Some f \<Rightarrow>
        if \<not> (version = 3 \<and> datagram_diff p = None \<and> inherited_fields p = 0 \<and> \<not> sparse_rows p
            \<and> primary_patches p = [] \<and> alternate_patches p = []) then
          bail ''invalid or unnegotiated worker fragment''
        else let tot = unat (total_encoded f); raw = unat (raw_length f);
            count = unat (fragment_count f); index = unat (fragment_index f) in
          if \<not> (length (fragment_epoch f) = 16 \<and> length (fragment_transfer_id f) = 16
              \<and> length (fragment_sha256 f) = 32 \<and> 0 < fragment_base_generation f
              \<and> fragment_base_generation f < fragment_target_generation f
              \<and> 0 < count \<and> count \<le> 128 \<and> index < count \<and> count \<le> tot \<and> 0 < raw
              \<and> raw + 2 * tot < 65535 \<and> (fragment_encoding f = 0 \<or> fragment_encoding f = 1)) then
            bail ''invalid worker fragment bounds''
          else if \<not> length (fragment_data f) = (index + 1) * tot div count - index * tot div count then
            bail ''invalid worker fragment interval''
          else if \<not> (fragment_encoding f \<noteq> 0 \<or> raw = tot) then
            bail ''invalid raw worker fragment length''
          else Inr ()
    | None \<Rightarrow>
        if \<not> (version < 3 \<and> datagram_diff p \<noteq> None) then
          bail ''worker viewport format differs from negotiated version''
        else Inr ())"

section \<open>Balanced ranges partition the body\<close>

definition range_start :: "nat \<Rightarrow> nat \<Rightarrow> nat \<Rightarrow> nat" where
  "range_start n tot i = i * tot div n"

lemma balanced_range_starts: "balanced_range i n tot = (range_start n tot i, range_start n tot (Suc i))"
  by (simp add: balanced_range_def range_start_def)

lemma range_start_mono: "range_start n tot i \<le> range_start n tot (Suc i)"
  by (simp add: range_start_def div_le_mono)

lemma range_start_end: "0 < n \<Longrightarrow> range_start n tot n = tot"
  by (simp add: range_start_def)

lemma range_start_le: "i \<le> n \<Longrightarrow> 0 < n \<Longrightarrow> range_start n tot i \<le> tot"
  by (metis div_le_mono mult_le_mono1 range_start_def range_start_end)

lemma range_start_strict:
  assumes "0 < n" "n \<le> tot"
  shows "range_start n tot i < range_start n tot (Suc i)"
proof -
  have "i * tot div n + 1 = (i * tot + n) div n" using assms(1) by (simp add: div_add_self2)
  also have "\<dots> \<le> Suc i * tot div n" using assms(2) by (intro div_le_mono) simp
  finally show ?thesis by (simp add: range_start_def)
qed

lemma concat_ranges:
  assumes "0 < n"
  shows "concat (map (\<lambda>i. take (range_start n (length xs) (Suc i) - range_start n (length xs) i)
      (drop (range_start n (length xs) i) xs)) [0..<k]) = take (range_start n (length xs) k) xs"
proof (induction k)
  case (Suc k)
  have "range_start n (length xs) (Suc k) = range_start n (length xs) k
      + (range_start n (length xs) (Suc k) - range_start n (length xs) k)"
    using range_start_mono by simp
  then have "take (range_start n (length xs) (Suc k)) xs = take (range_start n (length xs) k) xs
      @ take (range_start n (length xs) (Suc k) - range_start n (length xs) k)
        (drop (range_start n (length xs) k) xs)"
    by (metis take_add)
  then show ?case using Suc by simp
qed (simp add: range_start_def)

lemma working_bytes_fit_iff:
  "working_bytes_fit raw enc \<longleftrightarrow> 0 < raw \<and> 0 < enc \<and> raw + 2 * enc < 65535"
  by (auto simp: working_bytes_fit_def usize_checked_add_def MAX_WORKING_BYTES_def
      split: option.splits if_splits)

section \<open>The chosen number of packets\<close>

lemma packets_fit_Some:
  "packets_fit fl t budget w is = Inr (Some v) \<Longrightarrow>
    (\<forall>i \<in> set is. packet_len fl t i \<le> budget) \<and> v = w + sum_list (map (packet_len fl t) is)"
proof (induction "is" arbitrary: w)
  case (Cons i "is")
  then have "\<not> budget < packet_len fl t i"
    "packets_fit fl t budget (w + packet_len fl t i) is = Inr (Some v)"
    by (auto simp: Let_def and_then_Inr ok_or_Inr usize_checked_add_def split: if_splits)
  with Cons.IH [OF this(2)] show ?case by simp
qed simp

lemma packets_fit_None:
  "packets_fit fl t budget w is = Inr None \<Longrightarrow> \<exists>i \<in> set is. budget < packet_len fl t i"
  by (induction "is" arbitrary: w)
    (auto simp: Let_def and_then_Inr ok_or_Inr split: if_splits)

definition with_count :: "ViewportTransfer \<Rightarrow> nat \<Rightarrow> ViewportTransfer" where
  "with_count t c = t \<lparr> transfer_header := (transfer_header t) \<lparr> fragment_count := word_of_nat c \<rparr> \<rparr>"

lemma with_count_overwrite [simp]: "with_count (with_count t c) d = with_count t d"
  by (simp add: with_count_def)

lemma choose_count_Some:
  assumes "choose_count sha fl t budget kb cs = Inr (Some t')"
  obtains c w where "c \<in> set cs" "packets_fit fl (with_count t c) budget 0 [0..<c] = Inr (Some w)"
    "w < kb"
    "t' = (with_count t c) \<lparr> transfer_header := (transfer_header (with_count t c))
      \<lparr> fragment_transfer_id := transfer_id sha (transfer_header (with_count t c)) \<rparr> \<rparr>"
  using assms
proof (induction cs arbitrary: t thesis)
  case (Cons c cs)
  have unfold: "choose_count sha fl t budget kb (c # cs) =
    and_then (packets_fit fl (with_count t c) budget 0 [0..<c]) (\<lambda>fits. case fits of
        None \<Rightarrow> choose_count sha fl (with_count t c) budget kb cs
      | Some w \<Rightarrow> if kb \<le> w then Inr None
          else Inr (Some ((with_count t c) \<lparr> transfer_header := (transfer_header (with_count t c))
            \<lparr> fragment_transfer_id := transfer_id sha (transfer_header (with_count t c)) \<rparr> \<rparr>)))"
    by (simp only: choose_count.simps Let_def with_count_def)
  from Cons.prems(2) obtain fits where fits: "packets_fit fl (with_count t c) budget 0 [0..<c] = Inr fits"
    unfolding unfold by (auto simp: and_then_Inr)
  show ?case
  proof (cases fits)
    case None
    then have rest: "choose_count sha fl (with_count t c) budget kb cs = Inr (Some t')"
      using Cons.prems(2) fits unfolding unfold by simp
    show ?thesis by (rule Cons.IH [OF _ rest]) (auto intro: Cons.prems(1))
  next
    case (Some w)
    then have "w < kb" "t' = (with_count t c) \<lparr> transfer_header := (transfer_header (with_count t c))
      \<lparr> fragment_transfer_id := transfer_id sha (transfer_header (with_count t c)) \<rparr> \<rparr>"
      using Cons.prems(2) fits unfolding unfold by (auto split: if_splits)
    then show ?thesis using Cons.prems(1) [of c w] fits Some by simp
  qed
qed simp

text \<open>What a prepared transfer consists of: the initial header with the chosen count and
  the transfer ID, over the encoded body.\<close>

definition prepared :: "(bytes \<Rightarrow> bytes) \<Rightarrow> ViewportTransfer \<Rightarrow> nat \<Rightarrow> ViewportTransfer" where
  "prepared sha t c = (with_count t c) \<lparr> transfer_header := (transfer_header (with_count t c))
      \<lparr> fragment_transfer_id := transfer_id sha (transfer_header (with_count t c)) \<rparr> \<rparr>"

lemma prepare_Some:
  assumes "ViewportTransfer_prepare encode sha compress fl delta budget kb = Inr (Some t)"
  obtains diff c w enc body n r where
    "datagram_diff delta = Some diff" "length (diff_epoch diff) = 16" "0 < base_generation diff"
    "base_generation diff < target_generation diff" "terminal_id delta \<noteq> []" "attachment_id delta \<noteq> []"
    "choose_encoding compress ((MAX_WORKING_BYTES - length (encode delta) - 1) div 2) (encode delta)
      = Inr (enc, body)"
    "0 < unat r" "unat n = length body" "unat r = length (encode delta)" "unat r + 2 * unat n < 65535"
    "1 \<le> c" "c \<le> 128" "c \<le> unat n"
    "t = prepared sha (initial_transfer delta diff n r enc (sha (encode delta)) body) c"
    "packets_fit fl (with_count (initial_transfer delta diff n r enc (sha (encode delta)) body) c)
      budget 0 [0..<c] = Inr (Some w)" "w < kb"
proof -
  let ?raw = "encode delta"
  obtain diff enc body n r where diff: "datagram_diff delta = Some diff" "length (diff_epoch diff) = 16"
      "0 < base_generation diff" "base_generation diff < target_generation diff"
      "terminal_id delta \<noteq> []" "attachment_id delta \<noteq> []"
    and enc: "choose_encoding compress ((MAX_WORKING_BYTES - length ?raw - 1) div 2) ?raw = Inr (enc, body)"
    and fit: "working_bytes_fit (length ?raw) (length body)"
    and n: "usize_to_u32 (length body) = Inr n" and r: "usize_to_u32 (length ?raw) = Inr r"
    and choose: "choose_count sha fl (initial_transfer delta diff n r enc (sha ?raw) body)
              budget kb [1..<Suc (unat (min MAX_FRAGMENTS n))] = Inr (Some t)"
    using assms unfolding ViewportTransfer_prepare_def Let_def
    by (auto simp: and_then_Inr ok_or_Inr split: if_splits)
  from choose obtain c w where c: "c \<in> set [1..<Suc (unat (min MAX_FRAGMENTS n))]"
    and pf: "packets_fit fl (with_count (initial_transfer delta diff n r enc (sha ?raw) body) c)
      budget 0 [0..<c] = Inr (Some w)" and w: "w < kb"
    and t: "t = prepared sha (initial_transfer delta diff n r enc (sha ?raw) body) c"
    unfolding prepared_def by (rule choose_count_Some)
  have nr: "unat n = length body" "unat r = length ?raw"
    using n r unfolding usize_to_u32_Inr by auto
  have c': "1 \<le> c" "c \<le> 128" "c \<le> unat n"
    using c by (auto simp: MAX_FRAGMENTS_def min_def word_le_nat_alt split: if_splits)
  show thesis
    by (rule that [OF diff enc _ nr _ c' t pf w]) (use fit in \<open>simp_all add: nr working_bytes_fit_iff\<close>)
qed

definition packet_data :: "ViewportTransfer \<Rightarrow> nat \<Rightarrow> bytes" where
  "packet_data t i = fragment_data (the (fragment (packet t i)))"

lemma prepared_sel:
  "transfer_encoded (prepared sha t c) = transfer_encoded t"
  "transfer_terminal_id (prepared sha t c) = transfer_terminal_id t"
  "transfer_attachment_id (prepared sha t c) = transfer_attachment_id t"
  "fragment_count (transfer_header (prepared sha t c)) = word_of_nat c"
  "transfer_header (prepared sha t c) = (transfer_header t) \<lparr> fragment_count := word_of_nat c,
    fragment_transfer_id := transfer_id sha (transfer_header (with_count t c)) \<rparr>"
  by (simp_all add: prepared_def with_count_def)

lemma packet_data_prepared:
  assumes "c < 4294967296"
  shows "packet_data (prepared sha t c) i =
    take (range_start c (length (transfer_encoded t)) (Suc i)
        - range_start c (length (transfer_encoded t)) i)
      (drop (range_start c (length (transfer_encoded t)) i) (transfer_encoded t))"
  using assms by (simp add: packet_data_def packet_def Let_def prepared_sel balanced_range_starts)

lemma choose_encoding_cases:
  assumes "choose_encoding compress m raw = Inr (enc, body)"
  shows "enc = FragmentEncoding_Raw \<and> body = raw \<or>
    enc = FragmentEncoding_Zstd \<and> compress raw m = Inr (Some body)"
  using assms by (auto simp: choose_encoding_def and_then_Inr split: if_splits option.splits)

text \<open>C22. The packets of a transfer carry the delta completely. Concatenating the data
  of the packets in order gives the encoded body, and decoding that body according
  to the encoding announced in the header, with a decompressor that inverts the
  compressor, gives the encoded delta.\<close>

theorem fragments_reassemble:
  assumes "ViewportTransfer_prepare encode sha compress fl delta budget kb = Inr (Some t)"
    and "\<And>raw m b. compress raw m = Inr (Some b) \<Longrightarrow> decompress b = raw"
  shows "let body = concat (map (packet_data t) [0..<unat (fragment_count (transfer_header t))]) in
    body = transfer_encoded t \<and>
    (fragment_encoding (transfer_header t) = 0 \<and> body = encode delta \<or>
     fragment_encoding (transfer_header t) = 1 \<and> decompress body = encode delta)"
  using assms(1)
proof (rule prepare_Some)
  fix diff c w enc body n r
  assume enc: "choose_encoding compress ((MAX_WORKING_BYTES - length (encode delta) - 1) div 2)
      (encode delta) = Inr (enc, body)"
    and c: "1 \<le> c" "c \<le> 128"
    and t: "t = prepared sha (initial_transfer delta diff n r enc (sha (encode delta)) body) c"
  have body: "transfer_encoded t = body" and count: "unat (fragment_count (transfer_header t)) = c"
    and enc_field: "fragment_encoding (transfer_header t) = fragment_encoding_i32 enc"
    using c by (simp_all add: t prepared_sel initial_transfer_def)
  have "packet_data t = (\<lambda>i. take (range_start c (length body) (Suc i) - range_start c (length body) i)
      (drop (range_start c (length body) i) body))"
    using c by (simp add: t packet_data_prepared initial_transfer_def fun_eq_iff)
  then have "concat (map (packet_data t) [0..<c]) = take (range_start c (length body) c) body"
    using c concat_ranges [of c body c] by simp
  then have "concat (map (packet_data t) [0..<c]) = body" using c by (simp add: range_start_end)
  then show ?thesis
    using choose_encoding_cases [OF enc] assms(2) body count enc_field by (auto simp: Let_def)
qed

text \<open>The length of an encoded packet, as the protobuf wire format documents it: a
  nonempty length-delimited field takes its tag, the length as a varint and its
  bytes, and the transfer ID only counts through its length.\<close>

definition prost_packet_lengths ::
  "(TerminalViewportFragment \<Rightarrow> nat) \<Rightarrow> (TerminalViewportDatagram \<Rightarrow> nat) \<Rightarrow> bool" where
  "prost_packet_lengths fragment_len datagram_len \<longleftrightarrow>
    (\<forall>f d. d \<noteq> [] \<longrightarrow> fragment_len (f \<lparr> fragment_data := d \<rparr>)
      = fragment_len (f \<lparr> fragment_data := [] \<rparr>) + 1 + varint_len (length d) + length d) \<and>
    (\<forall>f a b. length a = length b \<longrightarrow>
      fragment_len (f \<lparr> fragment_transfer_id := a \<rparr>) = fragment_len (f \<lparr> fragment_transfer_id := b \<rparr>)) \<and>
    (\<forall>tid aid f. tid \<noteq> [] \<longrightarrow> aid \<noteq> [] \<longrightarrow>
      datagram_len (default_datagram \<lparr> terminal_id := tid, attachment_id := aid, fragment := Some f \<rparr>)
        = 1 + varint_len (length tid) + length tid + 1 + varint_len (length aid) + length aid
          + 1 + varint_len (fragment_len f) + fragment_len f)"

lemma prepared_packet_len:
  assumes law: "prost_packet_lengths fl dl"
    and ids: "transfer_terminal_id t \<noteq> []" "transfer_attachment_id t \<noteq> []"
    and sha: "\<And>x. length (sha x) = 32"
    and init: "fragment_transfer_id (transfer_header t) = replicate 16 0"
      "fragment_data (transfer_header t) = []"
    and c: "0 < c" "c < 4294967296" "c \<le> length (transfer_encoded t)" "i < c"
  shows "dl (packet (prepared sha t c) i) = packet_len fl (with_count t c) i"
proof -
  let ?s = "range_start c (length (transfer_encoded t))"
  let ?h = "(transfer_header t) \<lparr> fragment_count := word_of_nat c, fragment_index := word_of_nat i \<rparr>"
  let ?d = "take (?s (Suc i) - ?s i) (drop (?s i) (transfer_encoded t))"
  let ?tid = "transfer_id sha (transfer_header (with_count t c))"
  have le: "?s (Suc i) \<le> length (transfer_encoded t)" using c by (intro range_start_le) auto
  then have len: "length ?d = ?s (Suc i) - ?s i" by simp
  have ne: "?d \<noteq> []" using range_start_strict [OF c(1,3), of i] le by auto
  have h: "?h \<lparr> fragment_transfer_id := replicate 16 0 \<rparr> = ?h" using init by simp
  have "length ?tid = length (replicate 16 (0 :: u8))" by (simp add: transfer_id_def sha)
  moreover have "length a = length b \<Longrightarrow> fl (f \<lparr> fragment_transfer_id := a \<rparr>)
      = fl (f \<lparr> fragment_transfer_id := b \<rparr>)" for f a b
    using law unfolding prost_packet_lengths_def by blast
  ultimately have "fl (?h \<lparr> fragment_transfer_id := ?tid \<rparr>) = fl ?h" by (metis h)
  moreover have "fl (f \<lparr> fragment_data := ?d \<rparr>)
      = fl (f \<lparr> fragment_data := [] \<rparr>) + 1 + varint_len (length ?d) + length ?d" for f
    using law ne unfolding prost_packet_lengths_def by blast
  moreover have "?h \<lparr> fragment_transfer_id := ?tid, fragment_data := [] \<rparr>
      = ?h \<lparr> fragment_transfer_id := ?tid \<rparr>" using init by simp
  ultimately have "fl (?h \<lparr> fragment_transfer_id := ?tid, fragment_data := ?d \<rparr>)
      = fl ?h + 1 + varint_len (length ?d) + length ?d" by metis
  moreover have "(transfer_header t) \<lparr> fragment_count := word_of_nat c, fragment_transfer_id := ?tid,
      fragment_index := word_of_nat i, fragment_data := ?d \<rparr>
      = ?h \<lparr> fragment_transfer_id := ?tid, fragment_data := ?d \<rparr>" by simp
  ultimately have "fl ((transfer_header t) \<lparr> fragment_count := word_of_nat c,
      fragment_transfer_id := ?tid, fragment_index := word_of_nat i, fragment_data := ?d \<rparr>)
      = fl ?h + 1 + varint_len (length ?d) + length ?d" by metis
  then show ?thesis
    using law ids len c unfolding prost_packet_lengths_def
    by (simp add: packet_def packet_len_def Let_def prepared_sel balanced_range_starts with_count_def)
qed

text \<open>C21. Every packet of a prepared transfer is within the datagram budget and passes
  the envelope check of the gateway at version 3, and all packets together are
  smaller than the keyframe they replace. (SHA-256 digests have 32 bytes.)\<close>

theorem fragments_fit_and_validate:
  assumes "ViewportTransfer_prepare encode sha compress fl delta budget kb = Inr (Some t)"
    and "prost_packet_lengths fl dl" and "\<And>x. length (sha x) = 32"
  shows "(\<forall>i < unat (fragment_count (transfer_header t)).
      dl (packet t i) \<le> budget \<and> validate_worker_datagram (packet t i) 3 = Inr ()) \<and>
    sum_list (map (\<lambda>i. dl (packet t i)) [0..<unat (fragment_count (transfer_header t))]) < kb"
  using assms(1)
proof (rule prepare_Some)
  fix diff c w enc body n r
  let ?t = "initial_transfer delta diff n r enc (sha (encode delta)) body"
  assume diff: "length (diff_epoch diff) = 16" "0 < base_generation diff"
      "base_generation diff < target_generation diff"
    and ids: "terminal_id delta \<noteq> []" "attachment_id delta \<noteq> []"
    and enc: "choose_encoding compress ((MAX_WORKING_BYTES - length (encode delta) - 1) div 2)
      (encode delta) = Inr (enc, body)"
    and n: "0 < unat r" "unat n = length body" "unat r = length (encode delta)"
      "unat r + 2 * unat n < 65535"
    and c: "1 \<le> c" "c \<le> 128" "c \<le> unat n"
    and t: "t = prepared sha ?t c"
    and pf: "packets_fit fl (with_count ?t c) budget 0 [0..<c] = Inr (Some w)" and w: "w < kb"
  have count: "unat (fragment_count (transfer_header t)) = c" using c by (simp add: t prepared_sel)
  have len: "dl (packet t i) = packet_len fl (with_count ?t c) i" if "i < c" for i
    unfolding t using c n ids that assms(3)
    by (intro prepared_packet_len [OF assms(2)]) (auto simp: initial_transfer_def)
  have "validate_worker_datagram (packet t i) 3 = Inr ()" if "i < c" for i
  proof -
    have le: "range_start c (length body) (Suc i) \<le> length body"
      using that by (intro range_start_le) auto
    then have d: "length (packet_data t i)
        = range_start c (length body) (Suc i) - range_start c (length body) i"
      using c by (simp add: t packet_data_prepared initial_transfer_def)
    have raw: "enc = FragmentEncoding_Raw \<Longrightarrow> length (encode delta) = length body"
      using choose_encoding_cases [OF enc] by auto
    have "fragment_encoding_i32 enc = 0 \<or> fragment_encoding_i32 enc = 1" by (cases enc) auto
    with d raw show ?thesis
      using c n diff that assms(3)
      by (cases enc) (auto simp: validate_worker_datagram_def t packet_def Let_def prepared_sel
        initial_transfer_def default_datagram_def packet_data_def range_start_def
        transfer_id_def balanced_range_def)
  qed
  moreover have "map (\<lambda>i. dl (packet t i)) [0..<c] = map (packet_len fl (with_count ?t c)) [0..<c]"
    using len by (intro map_cong) auto
  note sums = arg_cong [where f = sum_list, OF this]
  have "sum_list (map (\<lambda>i. dl (packet t i)) [0..<c]) = w"
    unfolding sums using packets_fit_Some [OF pf] by simp
  ultimately show ?thesis
    using packets_fit_Some [OF pf] w len by (auto simp: count)
qed

text \<open>A concrete instance of the parameters, and a transfer of one packet.\<close>

definition demo_fragment_len :: "TerminalViewportFragment \<Rightarrow> nat" where
  "demo_fragment_len f = 60 + length (fragment_transfer_id f)
    + (if fragment_data f = [] then 0
       else 1 + varint_len (length (fragment_data f)) + length (fragment_data f))"

definition demo_datagram_len :: "TerminalViewportDatagram \<Rightarrow> nat" where
  "demo_datagram_len d =
    (if terminal_id d = [] then 0 else 1 + varint_len (length (terminal_id d)) + length (terminal_id d))
    + (if attachment_id d = [] then 0
       else 1 + varint_len (length (attachment_id d)) + length (attachment_id d))
    + (case fragment d of None \<Rightarrow> 0
       | Some f \<Rightarrow> 1 + varint_len (demo_fragment_len f) + demo_fragment_len f)"

lemma demo_packet_lengths: "prost_packet_lengths demo_fragment_len demo_datagram_len"
  by (auto simp: prost_packet_lengths_def demo_fragment_len_def demo_datagram_len_def
      default_datagram_def)

definition demo_delta :: TerminalViewportDatagram where
  "demo_delta = default_datagram \<lparr> terminal_id := ''t'', attachment_id := ''a'',
     datagram_diff := Some \<lparr> diff_epoch = replicate 16 7, base_generation = 1,
       target_generation = 2, target_metadata = None, primary_rows = [], alternate_rows = [] \<rparr> \<rparr>"

definition demo_encode :: "TerminalViewportDatagram \<Rightarrow> bytes" where
  "demo_encode d = bytes_of (terminal_id d @ attachment_id d)"

definition demo_sha :: "bytes \<Rightarrow> bytes" where
  "demo_sha b = take 32 (b @ replicate 32 0)"

definition demo_compress :: "bytes \<Rightarrow> usize \<Rightarrow> bytes option result" where
  "demo_compress raw m = Inr None"

definition demo_transfer :: ViewportTransfer where
  "demo_transfer = prepared demo_sha (initial_transfer demo_delta (the (datagram_diff demo_delta)) 2 2
     FragmentEncoding_Raw (demo_sha (demo_encode demo_delta)) (demo_encode demo_delta)) 1"

lemma demo_delta_sel:
  "terminal_id demo_delta = ''t''" "attachment_id demo_delta = ''a''" "fragment demo_delta = None"
  "datagram_diff demo_delta = Some \<lparr> diff_epoch = replicate 16 7, base_generation = 1,
     target_generation = 2, target_metadata = None, primary_rows = [], alternate_rows = [] \<rparr>"
  "length (demo_encode demo_delta) = 2" "demo_encode demo_delta \<noteq> []"
  by (simp_all add: demo_delta_def default_datagram_def demo_encode_def bytes_of_def)

lemma demo_prepare:
  "ViewportTransfer_prepare demo_encode demo_sha demo_compress demo_fragment_len demo_delta 1000 5000
    = Inr (Some demo_transfer)"
proof -
  let ?t = "initial_transfer demo_delta (the (datagram_diff demo_delta)) 2 2
     FragmentEncoding_Raw (demo_sha (demo_encode demo_delta)) (demo_encode demo_delta)"
  have "packets_fit demo_fragment_len (with_count ?t 1) 1000 0 [0..<1] = Inr (Some 88)"
    by (simp add: packet_len_def balanced_range_def varint_len_def varint_loop.simps
        demo_fragment_len_def initial_transfer_def with_count_def usize_checked_add_def
        demo_delta_sel)
  then have "choose_count demo_sha demo_fragment_len ?t 1000 5000 [1, 2] = Inr (Some demo_transfer)"
    by (simp add: demo_transfer_def prepared_def with_count_def)
  moreover have "[Suc 0..<Suc (unat (min MAX_FRAGMENTS 2))] = [Suc 0, 2]"
    by (simp add: MAX_FRAGMENTS_def upt_rec)
  ultimately show ?thesis
    by (simp add: ViewportTransfer_prepare_def MAX_WORKING_BYTES_def choose_encoding_def
        working_bytes_fit_iff usize_to_u32_def demo_delta_sel Let_def
        del: choose_count.simps)
qed

theorem fragments_reassemble_witness:
  "concat (map (packet_data demo_transfer) [0..<1]) = demo_encode demo_delta"
  using fragments_reassemble [OF demo_prepare, of "\<lambda>b. b"]
  by (simp add: demo_compress_def demo_transfer_def prepared_sel initial_transfer_def Let_def)

theorem fragments_fit_and_validate_witness:
  "demo_datagram_len (packet demo_transfer 0) \<le> 1000 \<and>
    validate_worker_datagram (packet demo_transfer 0) 3 = Inr ()"
proof -
  have "length (demo_sha x) = 32" for x by (simp add: demo_sha_def)
  from fragments_fit_and_validate [OF demo_prepare demo_packet_lengths this] show ?thesis
    by (simp add: demo_transfer_def prepared_sel)
qed

end
