(* ===== verification/Ordered_Map.thy ===== *)
theory Ordered_Map
  imports Prelude
begin

text \<open>
  The standard library's \<^verbatim>\<open>BTreeMap\<close>: an association list with strictly increasing
  keys. The locale states the contract the clients use (lookup after insertion,
  removal and retention, keys in order) and proves once what they need of bounded
  retention, where the oldest entries are evicted but some key is kept.
\<close>

section \<open>The map\<close>

type_synonym ('k, 'v) btree = "('k \<times> 'v) list"

fun bt_insert :: "'k::linorder \<Rightarrow> 'v \<Rightarrow> ('k, 'v) btree \<Rightarrow> ('k, 'v) btree" where
  "bt_insert k v [] = [(k, v)]"
| "bt_insert k v ((k', v') # m) =
    (if k < k' then (k, v) # (k', v') # m
     else if k = k' then (k, v) # m
     else (k', v') # bt_insert k v m)"

definition bt_get :: "('k, 'v) btree \<Rightarrow> 'k \<Rightarrow> 'v option" where
  "bt_get m = map_of m"

definition bt_remove :: "'k \<Rightarrow> ('k, 'v) btree \<Rightarrow> ('k, 'v) btree" where
  "bt_remove k m = filter (\<lambda>e. fst e \<noteq> k) m"

definition bt_retain :: "('k \<Rightarrow> bool) \<Rightarrow> ('k, 'v) btree \<Rightarrow> ('k, 'v) btree" where
  "bt_retain P m = filter (\<lambda>e. P (fst e)) m"

definition bt_keys :: "('k, 'v) btree \<Rightarrow> 'k list" where
  "bt_keys m = map fst m"

definition bt_ok :: "('k::linorder, 'v) btree \<Rightarrow> bool" where
  "bt_ok m \<longleftrightarrow> sorted_wrt (<) (map fst m)"

text \<open>A loop that evicts one chosen entry at a time while the map is over its limit and
  there is something to choose. Every iteration removes an entry, so as many
  iterations as the map has entries are enough (\<^verbatim>\<open>evict_stops\<close>).\<close>

fun evict_loop :: "nat \<Rightarrow> (('k, 'v) btree \<Rightarrow> 'k option) \<Rightarrow> nat \<Rightarrow> ('k, 'v) btree \<Rightarrow> ('k, 'v) btree" where
  "evict_loop 0 pick limit m = m"
| "evict_loop (Suc n) pick limit m =
    (if limit < length m then
      (case pick m of None \<Rightarrow> m | Some k \<Rightarrow> evict_loop n pick limit (bt_remove k m))
     else m)"

definition evict :: "(('k, 'v) btree \<Rightarrow> 'k option) \<Rightarrow> nat \<Rightarrow> ('k, 'v) btree \<Rightarrow> ('k, 'v) btree" where
  "evict pick limit m = evict_loop (length m) pick limit m"

section \<open>The contract\<close>

locale ordered_map =
  fixes ok :: "'m \<Rightarrow> bool"
    and get :: "'m \<Rightarrow> 'k::linorder \<Rightarrow> 'v option"
    and ins :: "'k \<Rightarrow> 'v \<Rightarrow> 'm \<Rightarrow> 'm"
    and del :: "'k \<Rightarrow> 'm \<Rightarrow> 'm"
    and keys :: "'m \<Rightarrow> 'k list"
  assumes ok_ins: "ok m \<Longrightarrow> ok (ins k v m)"
    and ok_del: "ok m \<Longrightarrow> ok (del k m)"
    and get_ins: "ok m \<Longrightarrow> get (ins k v m) = (get m)(k \<mapsto> v)"
    and get_del: "ok m \<Longrightarrow> get (del k m) = (get m)(k := None)"
    and keys_dom: "ok m \<Longrightarrow> set (keys m) = dom (get m)"
    and keys_sorted: "ok m \<Longrightarrow> sorted_wrt (<) (keys m)"
begin

lemma get_ins_same: "ok m \<Longrightarrow> get (ins k v m) k = Some v"
  by (simp add: get_ins)

lemma ran_ins: "ok m \<Longrightarrow> ran (get (ins k v m)) \<subseteq> insert v (ran (get m))"
  by (auto simp: get_ins ran_def split: if_splits)

lemma ran_del: "ok m \<Longrightarrow> ran (get (del k m)) \<subseteq> ran (get m)"
  by (auto simp: get_del ran_def split: if_splits)

lemma length_keys: "ok m \<Longrightarrow> length (keys m) = card (dom (get m))"
  using keys_dom keys_sorted by (metis distinct_card strict_sorted_iff)

lemma length_keys_del:
  assumes "ok m" "k \<in> set (keys m)"
  shows "length (keys (del k m)) = length (keys m) - 1"
proof -
  have "dom (get (del k m)) = dom (get m) - {k}" using assms by (auto simp: get_del)
  moreover have "k \<in> dom (get m)" using assms by (simp add: keys_dom)
  moreover have "finite (dom (get m))" using keys_dom [OF assms(1)] by (metis List.finite_set)
  ultimately show ?thesis using assms ok_del by (simp add: length_keys)
qed

end

lemma bt_insert_keys: "set (map fst (bt_insert k v m)) = insert k (set (map fst m))"
proof (induction m)
  case (Cons e m)
  then show ?case by (cases e) (simp add: insert_commute)
qed simp

lemma bt_ok_insert: "bt_ok m \<Longrightarrow> bt_ok (bt_insert k v m)"
  unfolding bt_ok_def
proof (induction m)
  case (Cons e m)
  obtain k' v' where e: "e = (k', v')" by (cases e)
  have "set (map fst (bt_insert k v m)) = insert k (set (map fst m))" by (rule bt_insert_keys)
  then show ?case using Cons by (auto simp: e intro: order_less_trans)
qed simp

lemma bt_ok_filter: "bt_ok m \<Longrightarrow> bt_ok (filter P m)"
  unfolding bt_ok_def by (induction m) auto

lemma bt_get_insert: "bt_ok m \<Longrightarrow> bt_get (bt_insert k v m) = (bt_get m)(k \<mapsto> v)"
  unfolding bt_ok_def bt_get_def
proof (induction m)
  case (Cons e m)
  obtain k' v' where "e = (k', v')" by (cases e)
  then show ?case using Cons by (auto simp: fun_eq_iff)
qed simp

lemma bt_get_remove: "bt_get (bt_remove k m) = (bt_get m)(k := None)"
  unfolding bt_get_def bt_remove_def by (induction m) (auto simp: fun_eq_iff)

lemma bt_keys_dom: "set (bt_keys m) = dom (bt_get m)"
  by (simp add: bt_keys_def bt_get_def dom_map_of_conv_image_fst)

lemma bt_keys_sorted: "bt_ok m \<Longrightarrow> sorted_wrt (<) (bt_keys m)"
  by (simp add: bt_keys_def bt_ok_def)

lemma bt_ok_remove: "bt_ok m \<Longrightarrow> bt_ok (bt_remove k m)"
  by (simp add: bt_remove_def bt_ok_filter)

interpretation btm: ordered_map bt_ok bt_get bt_insert bt_remove bt_keys
  by unfold_locales
    (simp_all add: bt_ok_insert bt_ok_remove bt_get_insert bt_get_remove bt_keys_dom bt_keys_sorted)

lemma bt_get_retain: "bt_get (bt_retain P m) k = (if P k then bt_get m k else None)"
  unfolding bt_get_def bt_retain_def by (induction m) auto

lemma bt_ok_retain: "bt_ok m \<Longrightarrow> bt_ok (bt_retain P m)"
  by (simp add: bt_retain_def bt_ok_filter)

lemma length_bt_retain: "length (bt_retain P m) \<le> length m"
  by (simp add: bt_retain_def)

lemma length_bt_keys [simp]: "length (bt_keys m) = length m"
  by (simp add: bt_keys_def)

lemma bt_ok_Nil [simp]: "bt_ok []"
  by (simp add: bt_ok_def)

lemma bt_get_Nil [simp]: "bt_get [] k = None"
  by (simp add: bt_get_def)

section \<open>Bounded retention\<close>

text \<open>A strategy for eviction: it chooses keys of the map and never the protected one.\<close>

definition spares :: "'k::linorder option \<Rightarrow> (('k, 'v) btree \<Rightarrow> 'k option) \<Rightarrow> bool" where
  "spares protected pick \<longleftrightarrow>
    (\<forall>m k. bt_ok m \<longrightarrow> pick m = Some k \<longrightarrow> k \<in> set (bt_keys m) \<and> Some k \<noteq> protected)"

lemma evict_loop_facts:
  assumes "spares protected pick" "bt_ok m"
  shows "bt_ok (evict_loop n pick limit m) \<and>
    bt_get (evict_loop n pick limit m) \<subseteq>\<^sub>m bt_get m \<and>
    (\<forall>k. protected = Some k \<longrightarrow> bt_get (evict_loop n pick limit m) k = bt_get m k)"
  using assms(2)
proof (induction n arbitrary: m)
  case (Suc n)
  show ?case
  proof (cases "limit < length m \<and> pick m \<noteq> None")
    case True
    then obtain k where k: "pick m = Some k" by blast
    then have "Some k \<noteq> protected" using assms(1) Suc.prems by (auto simp: spares_def)
    moreover have ok: "bt_ok (bt_remove k m)" using Suc.prems by (simp add: btm.ok_del)
    moreover have "bt_get (bt_remove k m) \<subseteq>\<^sub>m bt_get m" by (simp add: bt_get_remove)
    then have "bt_get (evict_loop n pick limit (bt_remove k m)) \<subseteq>\<^sub>m bt_get m"
      using Suc.IH [OF ok] map_le_trans by blast
    ultimately show ?thesis
      using Suc.IH [OF ok] True k by (auto simp: bt_get_remove)
  qed (auto simp: Suc.prems split: option.split)
qed simp

lemma evict_loop_stops:
  assumes "spares protected pick" "bt_ok m" "length m \<le> n"
  shows "length (evict_loop n pick limit m) \<le> limit \<or>
    pick (evict_loop n pick limit m) = None"
  using assms(2,3)
proof (induction n arbitrary: m)
  case (Suc n)
  show ?case
  proof (cases "limit < length m \<and> pick m \<noteq> None")
    case True
    then obtain k where k: "pick m = Some k" by blast
    then have "k \<in> set (bt_keys m)" using assms(1) Suc.prems by (auto simp: spares_def)
    then have "length (bt_remove k m) \<le> n"
      using btm.length_keys_del [OF Suc.prems(1), of k] Suc.prems(2) by simp
    with Suc.IH [of "bt_remove k m"] True k Suc.prems show ?thesis by (simp add: btm.ok_del)
  qed (auto split: option.split)
qed simp

lemma evict_facts:
  assumes "spares protected pick" "bt_ok m"
  shows "bt_ok (evict pick limit m)" "bt_get (evict pick limit m) \<subseteq>\<^sub>m bt_get m"
    "protected = Some k \<Longrightarrow> bt_get (evict pick limit m) k = bt_get m k"
  using evict_loop_facts [OF assms] unfolding evict_def by blast+

lemma evict_stops:
  assumes "spares protected pick" "bt_ok m"
  shows "length (evict pick limit m) \<le> limit \<or> pick (evict pick limit m) = None"
  unfolding evict_def using assms by (intro evict_loop_stops) auto

end
