(* ===== verification/Streaming.thy ===== *)
theory Streaming
  imports Datagram_V3 Ordered_Map
begin

text \<open>
  Latest-state-wins synchronisation of the live viewport
  (\<^verbatim>\<open>src/terminal_streaming.rs\<close>): the server's window of generations sent since
  an acknowledged base, and the client's replica that applies keyframes and
  cumulative deltas in whatever order they arrive.

  What the code calls outside the repository is gathered in one record of
  parameters: encoded lengths and encodings (\<^verbatim>\<open>prost\<close>), grapheme counting, SHA-256
  and the bounded compressor. Operations that can fail leave the window and the
  replica unchanged when they do, so they return the new state only on success.
\<close>

record externals =
  ext_state_len :: "State \<Rightarrow> nat"
  ext_graphemes :: "string \<Rightarrow> nat"
  ext_encode :: "TerminalViewportDatagram \<Rightarrow> bytes"
  ext_fragment_len :: "TerminalViewportFragment \<Rightarrow> nat"
  ext_sha256 :: "bytes \<Rightarrow> bytes"
  ext_compress :: "bytes \<Rightarrow> usize \<Rightarrow> bytes option result"

abbreviation validate_live :: "externals \<Rightarrow> State \<Rightarrow> unit result" where
  "validate_live E \<equiv> validate_viewport_state (ext_state_len E) (ext_graphemes E)"

definition DEFAULT_RETAINED_GENERATIONS :: usize where
  "DEFAULT_RETAINED_GENERATIONS = 128"

datatype StreamingUpdate =
    ReliableKeyframe State
  | DatagramDelta TerminalViewportDatagram
  | FragmentedDelta ViewportTransfer

record TerminalStateRepairRequest =
  repair_epoch :: bytes
  missing_base_generation :: u64
  newest_seen_generation :: u64

section \<open>The server's window\<close>

record StreamingStateWindow =
  win_terminal_id :: string
  win_attachment_id :: string
  win_base :: State
  base_acknowledged :: bool
  sent :: "(u64, State) btree"
  latest_target :: "State option"
  win_retained_generations :: usize
  retired_epochs :: "bytes list"
  datagram_version :: u32

definition with_retained_generations ::
  "externals \<Rightarrow> State \<Rightarrow> string \<Rightarrow> string \<Rightarrow> usize \<Rightarrow> StreamingStateWindow result" where
  "with_retained_generations E initial_keyframe tid aid retained = (
    if \<not> 0 < retained then bail ''retained generation limit is zero''
    else and_then (validate_live E initial_keyframe) (\<lambda>_.
      Inr \<lparr> win_terminal_id = tid, win_attachment_id = aid, win_base = initial_keyframe,
        base_acknowledged = False,
        sent = bt_insert (state_generation initial_keyframe) initial_keyframe [],
        latest_target = None, win_retained_generations = retained, retired_epochs = [],
        datagram_version = 2 \<rparr>))"

definition with_route ::
  "externals \<Rightarrow> State \<Rightarrow> string \<Rightarrow> string \<Rightarrow> StreamingStateWindow result" where
  "with_route E initial_keyframe tid aid = (
    if \<not> (tid \<noteq> [] \<and> aid \<noteq> []) then bail ''terminal viewport datagram route is empty''
    else with_retained_generations E initial_keyframe tid aid DEFAULT_RETAINED_GENERATIONS)"

definition with_route_version ::
  "externals \<Rightarrow> State \<Rightarrow> string \<Rightarrow> string \<Rightarrow> u32 \<Rightarrow> StreamingStateWindow result" where
  "with_route_version E initial_keyframe tid aid version = (
    if \<not> (version = 2 \<or> version = 3) then bail ''unsupported terminal datagram version''
    else and_then (with_route E initial_keyframe tid aid) (\<lambda>w.
      Inr (w \<lparr> datagram_version := version \<rparr>)))"

definition latest_generation :: "StreamingStateWindow \<Rightarrow> u64" where
  "latest_generation w = (case latest_target w of
     None \<Rightarrow> state_generation (win_base w) | Some st \<Rightarrow> state_generation st)"

text \<open>The choice of the entry to evict: the oldest generation, or the next one when the
  oldest is the base (\<^verbatim>\<open>range((oldest + 1)..)\<close>; the addition wraps).\<close>

definition window_evict_choice :: "u64 \<Rightarrow> (u64, State) btree \<Rightarrow> u64 option" where
  "window_evict_choice base_gen m = (case bt_keys m of
     [] \<Rightarrow> None
   | oldest # _ \<Rightarrow>
       if oldest = base_gen then find (\<lambda>g. oldest + 1 \<le> g) (bt_keys m) else Some oldest)"

definition window_remember :: "StreamingStateWindow \<Rightarrow> State \<Rightarrow> StreamingStateWindow" where
  "window_remember w state = w \<lparr> latest_target := Some state,
     sent := evict (window_evict_choice (state_generation (win_base w)))
       (win_retained_generations w) (bt_insert (state_generation state) state (sent w)) \<rparr>"

definition install_keyframe ::
  "externals \<Rightarrow> StreamingStateWindow \<Rightarrow> State \<Rightarrow> (StreamingStateWindow \<times> StreamingUpdate) result" where
  "install_keyframe E w state =
    and_then (validate_live E state) (\<lambda>_.
    if \<not> base_acknowledged w then bail ''a reliable keyframe is already in flight''
    else
      let pushed = retired_epochs w @ [state_epoch (win_base w)];
        retired = (if state_epoch (win_base w) \<noteq> state_epoch state then
            (if DEFAULT_RETAINED_GENERATIONS < length pushed then tl pushed else pushed)
          else retired_epochs w) in
      Inr (window_remember (w \<lparr> retired_epochs := retired, win_base := state,
          base_acknowledged := False, sent := [] \<rparr>) state, ReliableKeyframe state))"

definition update_from_base ::
  "externals \<Rightarrow> StreamingStateWindow \<Rightarrow> State \<Rightarrow> usize \<Rightarrow> StreamingUpdate result" where
  "update_from_base E w latest budget = (
    if state_rows latest \<noteq> state_rows (win_base w) \<or> state_cols latest \<noteq> state_cols (win_base w) then
      Inr (ReliableKeyframe latest)
    else and_then (compact_viewport_datagram (win_terminal_id w) (win_attachment_id w)
        (win_base w) latest) (\<lambda>delta.
      if datagram_version w = 3 then
        and_then (ViewportTransfer_prepare (ext_encode E) (ext_sha256 E) (ext_compress E)
            (ext_fragment_len E) delta budget (ext_state_len E latest)) (\<lambda>prepared.
          Inr (case prepared of
            Some transfer \<Rightarrow> FragmentedDelta transfer | None \<Rightarrow> ReliableKeyframe latest))
      else if length (ext_encode E delta) \<le> budget
          \<and> length (ext_encode E delta) < ext_state_len E latest then
        Inr (DatagramDelta delta)
      else Inr (ReliableKeyframe latest)))"

text \<open>The common tail of \<^verbatim>\<open>prepare_update\<close> and \<^verbatim>\<open>retry_latest\<close>: a keyframe replaces the
  base, a delta is remembered.\<close>

definition emit_from_base ::
  "externals \<Rightarrow> StreamingStateWindow \<Rightarrow> State \<Rightarrow> usize
    \<Rightarrow> (StreamingStateWindow \<times> StreamingUpdate option) result" where
  "emit_from_base E w latest budget = (
    if state_epoch latest \<noteq> state_epoch (win_base w) then
      and_then (install_keyframe E w latest) (\<lambda>(w', u). Inr (w', Some u))
    else and_then (update_from_base E w latest budget) (\<lambda>update.
      case update of
        ReliableKeyframe _ \<Rightarrow> and_then (install_keyframe E w latest) (\<lambda>(w', u). Inr (w', Some u))
      | _ \<Rightarrow> Inr (window_remember w latest, Some update)))"

definition window_prepare_update ::
  "externals \<Rightarrow> StreamingStateWindow \<Rightarrow> State \<Rightarrow> usize
    \<Rightarrow> (StreamingStateWindow \<times> StreamingUpdate option) result" where
  "window_prepare_update E w latest budget =
    and_then (validate_live E latest) (\<lambda>_.
    if state_epoch latest = state_epoch (win_base w)
        \<and> (state_generation latest \<le> state_generation (win_base w)
          \<or> state_generation latest < latest_generation w
          \<or> (state_generation latest = latest_generation w
            \<and> bt_get (sent w) (state_generation latest) \<noteq> None)) then Inr (w, None)
    else if \<not> base_acknowledged w then Inr (w \<lparr> latest_target := Some latest \<rparr>, None)
    else emit_from_base E w latest budget)"

definition retry_latest ::
  "externals \<Rightarrow> StreamingStateWindow \<Rightarrow> usize
    \<Rightarrow> (StreamingStateWindow \<times> StreamingUpdate option) result" where
  "retry_latest E w budget = (case latest_target w of
      None \<Rightarrow> Inr (w, None)
    | Some latest \<Rightarrow>
        if state_epoch latest = state_epoch (win_base w)
            \<and> state_generation latest \<le> state_generation (win_base w) then
          Inr (w \<lparr> latest_target := None \<rparr>, None)
        else if \<not> base_acknowledged w then Inr (w, None)
        else emit_from_base E w latest budget)"

definition rekey_latest ::
  "externals \<Rightarrow> StreamingStateWindow \<Rightarrow> (StreamingStateWindow \<times> StreamingUpdate option) result" where
  "rekey_latest E w = (
    if \<not> base_acknowledged w then Inr (w, None)
    else case latest_target w of
      None \<Rightarrow> Inr (w, None)
    | Some latest \<Rightarrow>
        if state_epoch latest = state_epoch (win_base w)
            \<and> state_generation latest \<le> state_generation (win_base w) then
          Inr (w \<lparr> latest_target := None \<rparr>, None)
        else and_then (install_keyframe E w latest) (\<lambda>(w', u). Inr (w', Some u)))"

definition repair ::
  "externals \<Rightarrow> StreamingStateWindow \<Rightarrow> TerminalStateRepairRequest
    \<Rightarrow> (StreamingStateWindow \<times> StreamingUpdate option) result" where
  "repair E w request = (
    if \<not> length (repair_epoch request) = EPOCH_BYTES then
      bail ''terminal state repair epoch is invalid''
    else if \<not> 0 < missing_base_generation request then
      bail ''terminal state repair base generation is zero''
    else if \<not> missing_base_generation request \<le> newest_seen_generation request then
      bail ''terminal state repair generation range is reversed''
    else if repair_epoch request \<in> set (retired_epochs w) then Inr (w, None)
    else if \<not> repair_epoch request = state_epoch (win_base w) then
      bail ''terminal state repair epoch changed''
    else if \<not> missing_base_generation request \<le> latest_generation w then
      bail ''terminal state repair names a future base''
    else if \<not> base_acknowledged w then Inr (w, None)
    else and_then (rekey_latest E w) (\<lambda>(w', update).
      case update of
        Some u \<Rightarrow> Inr (w', Some u)
      | None \<Rightarrow> Inr (w' \<lparr> base_acknowledged := False \<rparr>, Some (ReliableKeyframe (win_base w')))))"

definition has_pending_update :: "StreamingStateWindow \<Rightarrow> bool" where
  "has_pending_update w = (case latest_target w of
      None \<Rightarrow> False
    | Some st \<Rightarrow> state_epoch st \<noteq> state_epoch (win_base w)
        \<or> state_generation (win_base w) < state_generation st)"

text \<open>Forget the pending target once the acknowledged generation covers it.\<close>

definition clear_acknowledged_target ::
  "TerminalStateAck \<Rightarrow> StreamingStateWindow \<Rightarrow> StreamingStateWindow" where
  "clear_acknowledged_target ack w = (
    if (case latest_target w of None \<Rightarrow> False
        | Some st \<Rightarrow> state_epoch st = ack_epoch ack \<and> state_generation st \<le> ack_generation ack)
    then w \<lparr> latest_target := None \<rparr> else w)"

definition window_acknowledge ::
  "StreamingStateWindow \<Rightarrow> TerminalStateAck \<Rightarrow> (StreamingStateWindow \<times> AckDisposition) result" where
  "window_acknowledge w ack = (
    if \<not> length (ack_epoch ack) = EPOCH_BYTES then bail ''terminal state ACK epoch is invalid''
    else if \<not> 0 < ack_generation ack then bail ''terminal state ACK generation is zero''
    else if ack_epoch ack \<in> set (retired_epochs w) then Inr (w, Duplicate)
    else if ack_epoch ack = state_epoch (win_base w)
        \<and> ack_generation ack \<le> state_generation (win_base w) then
      Inr (clear_acknowledged_target ack
        (if ack_generation ack = state_generation (win_base w)
         then w \<lparr> base_acknowledged := True \<rparr> else w), Duplicate)
    else if \<not> ack_epoch ack = state_epoch (win_base w) then bail ''terminal state ACK epoch changed''
    else case bt_get (sent w) (ack_generation ack) of
      None \<Rightarrow>
        if \<not> ack_generation ack \<le> latest_generation w then
          bail ''terminal state ACK names a future generation''
        else Inr (w, Duplicate)
    | Some acked \<Rightarrow>
        Inr (clear_acknowledged_target ack (w \<lparr> win_base := acked, base_acknowledged := True,
          sent := bt_retain (\<lambda>g. ack_generation ack \<le> g) (sent w) \<rparr>), Accepted))"

section \<open>The client's replica\<close>

datatype ApplyDisposition = Applied | Stale | MissingBase

record StreamingReplica =
  rep_terminal_id :: string
  rep_attachment_id :: string
  current :: "State option"
  retained :: "(u64, State) btree"
  pinned_base_generation :: "u64 option"
  rep_retained_generations :: usize

definition StreamingReplica_default :: StreamingReplica where
  "StreamingReplica_default = \<lparr> rep_terminal_id = [], rep_attachment_id = [], current = None,
     retained = [], pinned_base_generation = None,
     rep_retained_generations = DEFAULT_RETAINED_GENERATIONS \<rparr>"

definition for_route :: "string \<Rightarrow> string \<Rightarrow> StreamingReplica result" where
  "for_route tid aid = (
    if \<not> (tid \<noteq> [] \<and> aid \<noteq> []) then bail ''terminal viewport datagram route is empty''
    else Inr (StreamingReplica_default \<lparr> rep_terminal_id := tid, rep_attachment_id := aid \<rparr>))"

definition state_ack :: "StreamingReplica \<Rightarrow> TerminalStateAck option" where
  "state_ack r = map_option ack_of (current r)"

definition repair_request ::
  "StreamingReplica \<Rightarrow> TerminalViewportDatagram \<Rightarrow> TerminalStateRepairRequest result" where
  "repair_request r d = (
    if \<not> (terminal_id d = rep_terminal_id r \<and> attachment_id d = rep_attachment_id r) then
      bail ''terminal viewport datagram targets the wrong attachment''
    else and_then (datagram_get_diff d) (\<lambda>diff.
      let newest_seen = (case current r of
          Some st \<Rightarrow> if state_epoch st = diff_epoch diff
            then max (state_generation st) (target_generation diff) else target_generation diff
        | None \<Rightarrow> target_generation diff) in
      Inr \<lparr> repair_epoch = diff_epoch diff, missing_base_generation = base_generation diff,
        newest_seen_generation = newest_seen \<rparr>))"

definition replica_evict_choice :: "u64 option \<Rightarrow> (u64, State) btree \<Rightarrow> u64 option" where
  "replica_evict_choice pinned m = find (\<lambda>g. Some g \<noteq> pinned) (bt_keys m)"

definition replica_remember :: "StreamingReplica \<Rightarrow> State \<Rightarrow> StreamingReplica" where
  "replica_remember r state = r \<lparr> retained := evict (replica_evict_choice (pinned_base_generation r))
     (rep_retained_generations r) (bt_insert (state_generation state) state (retained r)) \<rparr>"

definition apply_keyframe ::
  "externals \<Rightarrow> StreamingReplica \<Rightarrow> State \<Rightarrow> (StreamingReplica \<times> ApplyDisposition) result" where
  "apply_keyframe E r state =
    and_then (validate_live E state) (\<lambda>_.
    if (case current r of None \<Rightarrow> False
        | Some cur \<Rightarrow> state_epoch cur = state_epoch state
            \<and> state_generation state \<le> state_generation cur) then Inr (r, Stale)
    else
      let r = (if (case current r of None \<Rightarrow> False | Some cur \<Rightarrow> state_epoch cur \<noteq> state_epoch state)
          then r \<lparr> retained := [] \<rparr> else r);
        r = replica_remember (r \<lparr> pinned_base_generation := Some (state_generation state) \<rparr>) state in
      Inr (r \<lparr> current := Some state \<rparr>, Applied))"

definition apply_datagram ::
  "externals \<Rightarrow> StreamingReplica \<Rightarrow> TerminalViewportDatagram
    \<Rightarrow> (StreamingReplica \<times> ApplyDisposition) result" where
  "apply_datagram E r delta = (
    if \<not> fragment delta = None then
      bail ''v3 fragment must be reassembled before replica application''
    else if \<not> (terminal_id delta = rep_terminal_id r \<and> attachment_id delta = rep_attachment_id r) then
      bail ''terminal viewport datagram targets the wrong attachment''
    else and_then (datagram_get_diff delta) (\<lambda>diff.
      if (case current r of None \<Rightarrow> False
          | Some cur \<Rightarrow> state_epoch cur \<noteq> diff_epoch diff) then Inr (r, Stale)
      else if (case current r of None \<Rightarrow> False
          | Some cur \<Rightarrow> state_epoch cur = diff_epoch diff
              \<and> target_generation diff \<le> state_generation cur) then Inr (r, Stale)
      else case bt_get (retained r) (base_generation diff) of
        None \<Rightarrow> Inr (r, MissingBase)
      | Some base \<Rightarrow>
          if state_epoch base \<noteq> diff_epoch diff then Inr (r, MissingBase)
          else and_then (apply_compact_viewport_delta (ext_state_len E) (ext_graphemes E) base delta)
              (\<lambda>target.
            and_then (validate_live E target) (\<lambda>_.
              Inr ((replica_remember (r \<lparr> pinned_base_generation := Some (base_generation diff) \<rparr>)
                target) \<lparr> current := Some target \<rparr>, Applied)))))"

section \<open>Retention\<close>

lemma find_SomeD: "find P xs = Some x \<Longrightarrow> x \<in> set xs \<and> P x"
  by (induction xs) (auto split: if_splits)

lemma window_evict_spares: "spares None (window_evict_choice g)"
  unfolding spares_def window_evict_choice_def
  by (auto dest: find_SomeD simp del: find.simps split: list.splits if_splits)

lemma replica_evict_spares: "spares pinned (replica_evict_choice pinned)"
  unfolding spares_def replica_evict_choice_def by (auto dest: find_SomeD)

lemma window_evict_None:
  assumes "bt_ok m" "window_evict_choice g m = None"
  shows "length m \<le> 1"
proof (cases "bt_keys m")
  case (Cons k ks)
  have "k = g" and none: "find (\<lambda>h. k + 1 \<le> h) (k # ks) = None"
    using assms(2) Cons by (auto simp: window_evict_choice_def split: if_splits)
  have "ks = []"
  proof (rule ccontr)
    assume "ks \<noteq> []"
    then obtain h where h: "h \<in> set ks" by (cases ks) auto
    have "sorted_wrt (<) (k # ks)" using btm.keys_sorted [OF assms(1)] Cons by simp
    then have "k < h" using h by simp
    then have "k + 1 \<le> h" by (simp add: inc_le)
    then show False using none h unfolding find_None_iff by auto
  qed
  then show ?thesis using Cons by (metis One_nat_def le_refl length_bt_keys length_Cons list.size(3))
next
  case Nil
  then show ?thesis by (metis length_bt_keys list.size(3) zero_le)
qed

lemma replica_evict_None:
  assumes "bt_ok m" "replica_evict_choice pinned m = None"
  shows "length m \<le> 1"
proof -
  have "set (bt_keys m) \<subseteq> set_option pinned"
    using assms(2) by (auto simp: replica_evict_choice_def find_None_iff)
  then have "card (set (bt_keys m)) \<le> 1"
    using card_mono [of "set_option pinned" "set (bt_keys m)"] by (cases pinned) auto
  then show ?thesis
    using btm.keys_sorted [OF assms(1)] by (simp add: distinct_card strict_sorted_iff)
qed

text \<open>What a map of retained states holds: each state under its own generation, all of
  one epoch and all among the states the terminal exported.\<close>

definition retains :: "State set \<Rightarrow> bytes \<Rightarrow> (u64, State) btree \<Rightarrow> bool" where
  "retains H epoch m \<longleftrightarrow> bt_ok m \<and> (\<forall>g st. bt_get m g = Some st \<longrightarrow>
    st \<in> H \<and> state_generation st = g \<and> state_epoch st = epoch)"

lemma retains_insert:
  "retains H e m \<Longrightarrow> st \<in> H \<Longrightarrow> state_epoch st = e \<Longrightarrow> retains H e (bt_insert (state_generation st) st m)"
  by (auto simp: retains_def bt_get_insert bt_ok_insert)

lemma retains_Nil [simp]: "retains H e []"
  by (simp add: retains_def)

lemma retains_submap:
  "retains H e m \<Longrightarrow> bt_ok m' \<Longrightarrow> bt_get m' \<subseteq>\<^sub>m bt_get m \<Longrightarrow> retains H e m'"
  unfolding retains_def map_le_def by (metis domI)

lemma retains_evict:
  assumes "retains H e m" "spares protected pick"
  shows "retains H e (evict pick limit m)"
proof -
  have "bt_ok m" using assms(1) by (simp add: retains_def)
  from evict_facts(1,2) [OF assms(2) this] show ?thesis
    using assms(1) retains_submap by blast
qed

lemma retains_retain: "retains H e m \<Longrightarrow> retains H e (bt_retain P m)"
  by (auto simp: retains_def bt_get_retain bt_ok_retain split: if_splits)

section \<open>The invariants of the window and of the replica\<close>

text \<open>The states a terminal exports: valid viewports, one per epoch and generation.\<close>

definition exported :: "externals \<Rightarrow> State set \<Rightarrow> bool" where
  "exported E H \<longleftrightarrow> (\<forall>st \<in> H. validate_live E st = Inr ()) \<and>
    inj_on (\<lambda>st. (state_epoch st, state_generation st)) H"

definition window_ok :: "State set \<Rightarrow> string \<Rightarrow> string \<Rightarrow> StreamingStateWindow \<Rightarrow> bool" where
  "window_ok H tid aid w \<longleftrightarrow>
    win_terminal_id w = tid \<and> win_attachment_id w = aid \<and> tid \<noteq> [] \<and> aid \<noteq> [] \<and>
    win_base w \<in> H \<and> set_option (latest_target w) \<subseteq> H \<and>
    retains H (state_epoch (win_base w)) (sent w) \<and>
    0 < win_retained_generations w \<and> length (sent w) \<le> win_retained_generations w"

definition replica_ok :: "State set \<Rightarrow> string \<Rightarrow> string \<Rightarrow> StreamingReplica \<Rightarrow> bool" where
  "replica_ok H tid aid r \<longleftrightarrow>
    rep_terminal_id r = tid \<and> rep_attachment_id r = aid \<and>
    0 < rep_retained_generations r \<and> length (retained r) \<le> rep_retained_generations r \<and>
    (case current r of
      None \<Rightarrow> retained r = []
    | Some st \<Rightarrow> st \<in> H \<and> retains H (state_epoch st) (retained r))"

lemma window_remember_ok:
  assumes "window_ok H tid aid w" "st \<in> H" "state_epoch st = state_epoch (win_base w)"
  shows "window_ok H tid aid (window_remember w st)"
proof -
  let ?m = "bt_insert (state_generation st) st (sent w)"
  have m: "retains H (state_epoch (win_base w)) ?m"
    using assms by (simp add: window_ok_def retains_insert)
  then have ok: "bt_ok ?m" by (simp add: retains_def)
  have "length (evict (window_evict_choice (state_generation (win_base w)))
      (win_retained_generations w) ?m) \<le> win_retained_generations w"
    using evict_stops [OF window_evict_spares ok] evict_facts(1) [OF window_evict_spares ok]
      window_evict_None assms(1) by (fastforce simp: window_ok_def)
  then show ?thesis
    using assms retains_evict [OF m window_evict_spares] by (simp add: window_ok_def window_remember_def)
qed

lemma replica_remember_ok:
  assumes "retains H e (retained r)" "st \<in> H" "state_epoch st = e" "0 < rep_retained_generations r"
  shows "retains H e (retained (replica_remember r st))"
    and "length (retained (replica_remember r st)) \<le> rep_retained_generations r"
proof -
  let ?m = "bt_insert (state_generation st) st (retained r)"
  have m: "retains H e ?m" using assms by (simp add: retains_insert)
  then have ok: "bt_ok ?m" by (simp add: retains_def)
  show "retains H e (retained (replica_remember r st))"
    using retains_evict [OF m replica_evict_spares] by (simp add: replica_remember_def)
  show "length (retained (replica_remember r st)) \<le> rep_retained_generations r"
    using evict_stops [OF replica_evict_spares ok] evict_facts(1) [OF replica_evict_spares ok]
      replica_evict_None assms(4) by (fastforce simp: replica_remember_def)
qed

text \<open>A delta of the window: computed between two exported states of one epoch and
  geometry.\<close>

definition delta_ok :: "State set \<Rightarrow> string \<Rightarrow> string \<Rightarrow> TerminalViewportDatagram \<Rightarrow> bool" where
  "delta_ok H tid aid d \<longleftrightarrow> (\<exists>base \<in> H. \<exists>target \<in> H.
    state_epoch base = state_epoch target \<and> state_generation base < state_generation target \<and>
    state_rows base = state_rows target \<and> state_cols base = state_cols target \<and>
    compact_viewport_datagram tid aid base target = Inr d)"

fun update_ok :: "State set \<Rightarrow> string \<Rightarrow> string \<Rightarrow> StreamingUpdate \<Rightarrow> bool" where
  "update_ok H tid aid (ReliableKeyframe st) \<longleftrightarrow> st \<in> H"
| "update_ok H tid aid (DatagramDelta d) \<longleftrightarrow> delta_ok H tid aid d"
| "update_ok H tid aid (FragmentedDelta t) \<longleftrightarrow> True"

definition step_ok ::
  "State set \<Rightarrow> string \<Rightarrow> string \<Rightarrow> StreamingStateWindow \<times> StreamingUpdate option \<Rightarrow> bool" where
  "step_ok H tid aid res \<longleftrightarrow> window_ok H tid aid (fst res) \<and>
    (\<forall>u. snd res = Some u \<longrightarrow> update_ok H tid aid u)"

lemma window_ok_update:
  "window_ok H tid aid w \<Longrightarrow> window_ok H tid aid (w \<lparr> base_acknowledged := b \<rparr>)"
  "window_ok H tid aid w \<Longrightarrow> window_ok H tid aid (w \<lparr> latest_target := None \<rparr>)"
  "window_ok H tid aid w \<Longrightarrow> st \<in> H \<Longrightarrow> window_ok H tid aid (w \<lparr> latest_target := Some st \<rparr>)"
  by (simp_all add: window_ok_def)

lemma install_keyframe_ok:
  assumes "window_ok H tid aid w" "st \<in> H" "install_keyframe E w st = Inr (w', u)"
  shows "step_ok H tid aid (w', Some u)"
proof -
  obtain retired where w': "w' = window_remember (w \<lparr> retired_epochs := retired, win_base := st,
          base_acknowledged := False, sent := [] \<rparr>) st" and u: "u = ReliableKeyframe st"
    using assms(3) unfolding install_keyframe_def and_then_unit Let_def if_bail_Inr
    by (simp split del: if_split) blast
  have "window_ok H tid aid w'"
    unfolding w' using assms(1,2) by (intro window_remember_ok) (simp_all add: window_ok_def)
  then show ?thesis using assms(2) by (simp add: step_ok_def u)
qed

lemma update_from_base_ok:
  assumes "window_ok H tid aid w" "st \<in> H" "update_from_base E w st budget = Inr u"
    and "state_epoch st = state_epoch (win_base w)" "state_generation (win_base w) < state_generation st"
  shows "update_ok H tid aid u"
proof -
  have geometry: "delta_ok H tid aid d"
    if "compact_viewport_datagram tid aid (win_base w) st = Inr d"
      "state_rows st = state_rows (win_base w)" "state_cols st = state_cols (win_base w)" for d
    unfolding delta_ok_def using that assms by (intro bexI [of _ "win_base w"] bexI [of _ st])
      (auto simp: window_ok_def)
  show ?thesis
    using assms geometry
    by (auto simp: update_from_base_def and_then_Inr window_ok_def split: if_splits option.splits)
qed

lemma emit_from_base_ok:
  assumes "window_ok H tid aid w" "st \<in> H" "emit_from_base E w st budget = Inr res"
    and "state_epoch st = state_epoch (win_base w) \<Longrightarrow> state_generation (win_base w) < state_generation st"
  shows "step_ok H tid aid res"
proof (cases "state_epoch st = state_epoch (win_base w)")
  case False
  then obtain w' u where "install_keyframe E w st = Inr (w', u)" "res = (w', Some u)"
    using assms(3) by (auto simp: emit_from_base_def and_then_Inr)
  with install_keyframe_ok [OF assms(1,2)] show ?thesis by simp
next
  case True
  then obtain u where u: "update_from_base E w st budget = Inr u"
    and res: "(case u of ReliableKeyframe _ \<Rightarrow> and_then (install_keyframe E w st) (\<lambda>(w', u). Inr (w', Some u))
      | _ \<Rightarrow> Inr (window_remember w st, Some u)) = Inr res"
    using assms(3) by (auto simp: emit_from_base_def and_then_Inr)
  have "update_ok H tid aid u" using update_from_base_ok [OF assms(1,2) u] True assms(4) by simp
  with res install_keyframe_ok [OF assms(1,2)] window_remember_ok [OF assms(1,2)] True assms(2)
  show ?thesis by (cases u) (auto simp: step_ok_def and_then_Inr)
qed

lemma step_ok_quiet [simp]: "step_ok H tid aid (w, None) \<longleftrightarrow> window_ok H tid aid w"
  by (simp add: step_ok_def)

lemma window_prepare_update_ok:
  assumes "window_ok H tid aid w" "st \<in> H" "window_prepare_update E w st budget = Inr res"
  shows "step_ok H tid aid res"
  using assms emit_from_base_ok [OF assms(1,2), of E budget res] window_ok_update(3) [OF assms(1,2)]
  by (auto simp: window_prepare_update_def and_then_unit linorder_not_le split: if_splits)

lemma retry_latest_ok:
  assumes "window_ok H tid aid w" "retry_latest E w budget = Inr res"
  shows "step_ok H tid aid res"
proof (cases "latest_target w")
  case (Some st)
  then have "st \<in> H" using assms(1) by (simp add: window_ok_def)
  with Some show ?thesis
    using assms emit_from_base_ok [OF assms(1), of st E budget res] window_ok_update(2) [OF assms(1)]
    by (auto simp: retry_latest_def linorder_not_le split: if_splits)
qed (use assms in \<open>auto simp: retry_latest_def\<close>)

lemma rekey_latest_ok:
  assumes "window_ok H tid aid w" "rekey_latest E w = Inr res"
  shows "step_ok H tid aid res"
proof (cases "latest_target w")
  case (Some st)
  then have st: "st \<in> H" using assms(1) by (simp add: window_ok_def)
  show ?thesis
    using assms Some install_keyframe_ok [OF assms(1) st] window_ok_update(2) [OF assms(1)]
    by (auto simp: rekey_latest_def and_then_Inr split: if_splits)
qed (use assms in \<open>auto simp: rekey_latest_def split: if_splits\<close>)

lemma repair_ok:
  assumes "window_ok H tid aid w" "repair E w request = Inr res"
  shows "step_ok H tid aid res"
proof (cases "rekey_latest E w")
  case (Inl e)
  then show ?thesis using assms by (auto simp: repair_def split: if_splits)
next
  case (Inr p)
  obtain w' u where p: "p = (w', u)" by (cases p)
  have "step_ok H tid aid (w', u)" using rekey_latest_ok [OF assms(1)] Inr p by simp
  moreover from this have "win_base w' \<in> H" by (simp add: step_ok_def window_ok_def)
  ultimately show ?thesis
    using assms Inr by (cases u) (auto simp: p repair_def step_ok_def window_ok_update split: if_splits)
qed

lemma clear_acknowledged_target_ok:
  "window_ok H tid aid w \<Longrightarrow> window_ok H tid aid (clear_acknowledged_target ack w)"
  by (simp add: clear_acknowledged_target_def window_ok_update)

lemma window_acknowledge_ok:
  assumes "window_ok H tid aid w" "window_acknowledge w ack = Inr (w', disposition)"
  shows "window_ok H tid aid w'"
proof (cases "bt_get (sent w) (ack_generation ack)")
  case None
  then show ?thesis
    using assms by (auto simp: window_acknowledge_def intro!: clear_acknowledged_target_ok
        window_ok_update split: if_splits)
next
  case (Some st)
  have st: "st \<in> H" "state_epoch st = state_epoch (win_base w)"
    using assms(1) Some by (auto simp: window_ok_def retains_def)
  have "window_ok H tid aid (w \<lparr> win_base := st, base_acknowledged := True,
          sent := bt_retain (\<lambda>g. ack_generation ack \<le> g) (sent w) \<rparr>)"
    using assms(1) st by (auto simp: window_ok_def retains_retain intro: le_trans [OF length_bt_retain])
  then show ?thesis
    using assms Some by (auto simp: window_acknowledge_def intro!: clear_acknowledged_target_ok
        window_ok_update split: if_splits)
qed

lemma apply_keyframe_ok:
  assumes "replica_ok H tid aid r" "exported E H" "st \<in> H"
  obtains r' disposition where "apply_keyframe E r st = Inr (r', disposition)"
    "replica_ok H tid aid r'"
    "current r' = Some st \<or> (r' = r \<and> (\<exists>cur. current r = Some cur \<and>
      state_epoch cur = state_epoch st \<and> state_generation st \<le> state_generation cur))"
proof -
  have valid: "validate_live E st = Inr ()" using assms(2,3) by (simp add: exported_def)
  let ?stale = "case current r of None \<Rightarrow> False | Some cur \<Rightarrow> state_epoch cur = state_epoch st
    \<and> state_generation st \<le> state_generation cur"
  show thesis
  proof (cases ?stale)
    case True
    then show ?thesis
      using that [of r Stale] assms(1) valid by (auto simp: apply_keyframe_def split: option.splits)
  next
    case False
    define q where "q = (if (case current r of None \<Rightarrow> False | Some cur \<Rightarrow> state_epoch cur \<noteq> state_epoch st)
      then r \<lparr> retained := [] \<rparr> else r) \<lparr> pinned_base_generation := Some (state_generation st) \<rparr>"
    have q: "retains H (state_epoch st) (retained q)" "0 < rep_retained_generations q"
      "rep_terminal_id q = tid" "rep_attachment_id q = aid"
      using assms(1) by (auto simp: q_def replica_ok_def split: option.splits)
    let ?r = "(replica_remember q st) \<lparr> current := Some st \<rparr>"
    have "apply_keyframe E r st = Inr (?r, Applied)"
      using False valid by (simp add: apply_keyframe_def Let_def q_def)
    moreover have "replica_ok H tid aid ?r"
      using replica_remember_ok [OF q(1) assms(3) refl q(2)] q assms(3)
      by (simp add: replica_ok_def) (simp add: replica_remember_def q)
    ultimately show ?thesis using that [of ?r Applied] by simp
  qed
qed

lemma compact_viewport_datagram_sel:
  assumes "compact_viewport_datagram tid aid base target = Inr d"
  obtains diff where "terminal_id d = tid" "attachment_id d = aid" "fragment d = None"
    "datagram_diff d = Some diff" "diff_epoch diff = state_epoch target"
    "base_generation diff = state_generation base" "target_generation diff = state_generation target"
  using assms unfolding compact_viewport_datagram_def if_bail_Inr Let_def
  by (auto simp: and_then_Inr split: prod.splits)

lemma apply_datagram_ok:
  assumes "replica_ok H tid aid r" "exported E H" "delta_ok H tid aid d" "tid \<noteq> []" "aid \<noteq> []"
  obtains r' disposition where "apply_datagram E r d = Inr (r', disposition)"
    "replica_ok H tid aid r'"
    "disposition = Applied \<and> (\<exists>st. current r' = Some st \<and>
        (\<forall>cur. current r = Some cur \<longrightarrow> state_epoch cur = state_epoch st
          \<and> state_generation cur < state_generation st))
     \<or> disposition \<noteq> Applied \<and> r' = r"
proof -
  obtain base target where bt: "base \<in> H" "target \<in> H" "state_epoch base = state_epoch target"
    "state_generation base < state_generation target" "state_rows base = state_rows target"
    "state_cols base = state_cols target" "compact_viewport_datagram tid aid base target = Inr d"
    using assms(3) by (auto simp: delta_ok_def)
  obtain diff where diff: "terminal_id d = tid" "attachment_id d = aid" "fragment d = None"
    "datagram_diff d = Some diff" "diff_epoch diff = state_epoch target"
    "base_generation diff = state_generation base" "target_generation diff = state_generation target"
    using bt(7) by (rule compact_viewport_datagram_sel)
  have valid: "validate_live E base = Inr ()" "validate_live E target = Inr ()"
    using assms(2) bt by (auto simp: exported_def)
  have delta: "apply_compact_viewport_delta (ext_state_len E) (ext_graphemes E) base d = Inr target"
    using compact_delta_round_trip [OF valid bt(3-6) assms(4,5)] bt(7) by (metis Inr_inject)
  have unique: "b = base" if "b \<in> H" "state_epoch b = state_epoch base"
    "state_generation b = state_generation base" for b
    using assms(2) bt(1) that by (auto simp: exported_def inj_on_def)
  have route: "rep_terminal_id r = tid" "rep_attachment_id r = aid" "0 < rep_retained_generations r"
    using assms(1) by (simp_all add: replica_ok_def)
  note def = apply_datagram_def datagram_get_diff_def diff route
  show thesis
  proof (cases "current r")
    case None
    then have "retained r = []" using assms(1) by (simp add: replica_ok_def)
    then have "apply_datagram E r d = Inr (r, MissingBase)" using None by (simp add: def)
    then show ?thesis using that [of r MissingBase] assms(1) by simp
  next
    case (Some cur)
    then have cur: "cur \<in> H" "retains H (state_epoch cur) (retained r)"
      using assms(1) by (simp_all add: replica_ok_def)
    show ?thesis
    proof (cases "state_epoch cur = state_epoch target \<and> state_generation cur < state_generation target
        \<and> bt_get (retained r) (state_generation base) \<noteq> None")
      case True
      then obtain b where b: "bt_get (retained r) (state_generation base) = Some b" by blast
      then have "b = base" using cur True bt(3) by (intro unique) (auto simp: retains_def)
      let ?q = "r \<lparr> pinned_base_generation := Some (state_generation base) \<rparr>"
      let ?r = "(replica_remember ?q target) \<lparr> current := Some target \<rparr>"
      have "apply_datagram E r d = Inr (?r, Applied)"
        using True Some b delta valid \<open>b = base\<close> bt(3) by (simp add: def linorder_not_le)
      moreover have "replica_ok H tid aid ?r"
        using replica_remember_ok [of H "state_epoch target" ?q target] cur True bt(2) route
        by (simp add: replica_ok_def) (simp add: replica_remember_def route)
      ultimately show ?thesis using that [of ?r Applied] Some True by simp
    next
      case False
      then have "\<exists>disposition. disposition \<noteq> Applied \<and> apply_datagram E r d = Inr (r, disposition)"
        using Some by (auto simp: def linorder_not_less)
      then show ?thesis using that assms(1) by blast
    qed
  qed
qed

section \<open>Server, client and a lossy network\<close>

text \<open>Keyframes travel on a reliable stream in order. Every datagram ever sent stays in
  \<^verbatim>\<open>net_datagrams\<close>: delivery picks any of them any number of times, which covers
  loss, duplication and reordering. Acknowledgements and repair requests may also
  arrive late, repeatedly and out of order.\<close>

record stream_system =
  net_server :: StreamingStateWindow
  net_client :: StreamingReplica
  net_keyframes :: "State list"
  net_datagrams :: "TerminalViewportDatagram set"
  net_acks :: "TerminalStateAck set"
  net_repairs :: "TerminalStateRepairRequest set"

fun emit :: "StreamingUpdate option \<Rightarrow> stream_system \<Rightarrow> stream_system" where
  "emit None s = s"
| "emit (Some (ReliableKeyframe st)) s = s \<lparr> net_keyframes := net_keyframes s @ [st] \<rparr>"
| "emit (Some (DatagramDelta d)) s = s \<lparr> net_datagrams := insert d (net_datagrams s) \<rparr>"
| "emit (Some (FragmentedDelta t)) s = s"

inductive stream_step :: "externals \<Rightarrow> State set \<Rightarrow> stream_system \<Rightarrow> stream_system \<Rightarrow> bool" for E H where
  produced:
    "st \<in> H \<Longrightarrow> window_prepare_update E (net_server s) st budget = Inr (w, u) \<Longrightarrow>
     stream_step E H s (emit u (s \<lparr> net_server := w \<rparr>))"
| retried:
    "retry_latest E (net_server s) budget = Inr (w, u) \<Longrightarrow>
     stream_step E H s (emit u (s \<lparr> net_server := w \<rparr>))"
| rekeyed:
    "rekey_latest E (net_server s) = Inr (w, u) \<Longrightarrow>
     stream_step E H s (emit u (s \<lparr> net_server := w \<rparr>))"
| repaired:
    "request \<in> net_repairs s \<Longrightarrow> repair E (net_server s) request = Inr (w, u) \<Longrightarrow>
     stream_step E H s (emit u (s \<lparr> net_server := w \<rparr>))"
| acknowledged:
    "ack \<in> net_acks s \<Longrightarrow> window_acknowledge (net_server s) ack = Inr (w, disposition) \<Longrightarrow>
     stream_step E H s (s \<lparr> net_server := w \<rparr>)"
| keyframe_read:
    "net_keyframes s = st # rest \<Longrightarrow> apply_keyframe E (net_client s) st = Inr (r, disposition) \<Longrightarrow>
     stream_step E H s (s \<lparr> net_client := r, net_keyframes := rest,
       net_acks := net_acks s \<union> set_option (state_ack r) \<rparr>)"
| datagram_read:
    "d \<in> net_datagrams s \<Longrightarrow> apply_datagram E (net_client s) d = Inr (r, disposition) \<Longrightarrow>
     disposition \<noteq> MissingBase \<Longrightarrow>
     stream_step E H s (s \<lparr> net_client := r, net_acks := net_acks s \<union> set_option (state_ack r) \<rparr>)"
| base_missing:
    "d \<in> net_datagrams s \<Longrightarrow> apply_datagram E (net_client s) d = Inr (r, MissingBase) \<Longrightarrow>
     repair_request r d = Inr request \<Longrightarrow>
     stream_step E H s (s \<lparr> net_client := r, net_repairs := insert request (net_repairs s) \<rparr>)"

definition stream_start :: "externals \<Rightarrow> State set \<Rightarrow> string \<Rightarrow> string \<Rightarrow> stream_system \<Rightarrow> bool" where
  "stream_start E H tid aid s \<longleftrightarrow> (\<exists>st w r. st \<in> H \<and> with_route E st tid aid = Inr w \<and>
    for_route tid aid = Inr r \<and> s = \<lparr> net_server = w, net_client = r, net_keyframes = [st],
      net_datagrams = {}, net_acks = {}, net_repairs = {} \<rparr>)"

definition stream_inv :: "State set \<Rightarrow> string \<Rightarrow> string \<Rightarrow> stream_system \<Rightarrow> bool" where
  "stream_inv H tid aid s \<longleftrightarrow> window_ok H tid aid (net_server s) \<and> replica_ok H tid aid (net_client s) \<and>
    set (net_keyframes s) \<subseteq> H \<and> (\<forall>d \<in> net_datagrams s. delta_ok H tid aid d)"

lemma stream_inv_start:
  assumes "stream_start E H tid aid s"
  shows "stream_inv H tid aid s"
  using assms
  by (auto simp: stream_start_def stream_inv_def with_route_def with_retained_generations_def
      and_then_unit window_ok_def retains_def bt_ok_def bt_get_def for_route_def replica_ok_def
      StreamingReplica_default_def DEFAULT_RETAINED_GENERATIONS_def split: if_splits)

lemma stream_inv_emit:
  assumes "stream_inv H tid aid s" "step_ok H tid aid (w, u)"
  shows "stream_inv H tid aid (emit u (s \<lparr> net_server := w \<rparr>))"
  using assms by (cases "(u, s)" rule: emit.cases) (auto simp: stream_inv_def step_ok_def)

lemma stream_inv_step:
  assumes "stream_step E H s s'" "stream_inv H tid aid s" "exported E H"
  shows "stream_inv H tid aid s'"
  using assms(1)
proof cases
  case (produced st budget w u)
  then show ?thesis
    using assms(2) window_prepare_update_ok stream_inv_emit by (metis stream_inv_def)
next
  case (retried budget w u)
  then show ?thesis using assms(2) retry_latest_ok stream_inv_emit by (metis stream_inv_def)
next
  case (rekeyed w u)
  then show ?thesis using assms(2) rekey_latest_ok stream_inv_emit by (metis stream_inv_def)
next
  case (repaired request w u)
  then show ?thesis using assms(2) repair_ok stream_inv_emit by (metis stream_inv_def)
next
  case (acknowledged ack w disposition)
  then show ?thesis using assms(2) window_acknowledge_ok by (auto simp: stream_inv_def)
next
  case (keyframe_read st rest r disposition)
  have "st \<in> H" using assms(2) keyframe_read by (simp add: stream_inv_def)
  then have "replica_ok H tid aid r"
    using apply_keyframe_ok [of H tid aid "net_client s" E st] assms keyframe_read
    by (auto simp: stream_inv_def)
  then show ?thesis using assms(2) keyframe_read by (auto simp: stream_inv_def)
next
  case (datagram_read d r disposition)
  have d: "delta_ok H tid aid d" "tid \<noteq> []" "aid \<noteq> []" "replica_ok H tid aid (net_client s)"
    using assms(2) datagram_read by (auto simp: stream_inv_def window_ok_def)
  have "replica_ok H tid aid r"
    using apply_datagram_ok [OF d(4) assms(3) d(1-3)] datagram_read by auto
  then show ?thesis using assms(2) datagram_read by (auto simp: stream_inv_def)
next
  case (base_missing d r request)
  have d: "delta_ok H tid aid d" "tid \<noteq> []" "aid \<noteq> []" "replica_ok H tid aid (net_client s)"
    using assms(2) base_missing by (auto simp: stream_inv_def window_ok_def)
  have "replica_ok H tid aid r"
    using apply_datagram_ok [OF d(4) assms(3) d(1-3)] base_missing by auto
  then show ?thesis using assms(2) base_missing by (auto simp: stream_inv_def)
qed

lemma stream_inv_reachable:
  assumes "stream_start E H tid aid s0" "(stream_step E H)\<^sup>*\<^sup>* s0 s" "exported E H"
  shows "stream_inv H tid aid s"
  using assms(2)
  by (induction rule: rtranclp_induct)
    (auto intro: stream_inv_start [OF assms(1)] stream_inv_step [OF _ _ assms(3)])

text \<open>A concrete instance: two exported states and the system right after the attach.\<close>

definition demo_externals :: externals where
  "demo_externals = \<lparr> ext_state_len = demo_encoded_len, ext_graphemes = length,
     ext_encode = demo_encode, ext_fragment_len = demo_fragment_len, ext_sha256 = demo_sha,
     ext_compress = demo_compress \<rparr>"

definition demo_typed :: State where
  "demo_typed = demo_state 2 [demo_cell 0 ''a'', demo_cell 1 ''b'']"

definition demo_exported :: "State set" where
  "demo_exported = {demo_state 1 [], demo_typed}"

definition demo_window :: StreamingStateWindow where
  "demo_window = \<lparr> win_terminal_id = ''t'', win_attachment_id = ''a'', win_base = demo_state 1 [],
     base_acknowledged = False, sent = [(1, demo_state 1 [])], latest_target = None,
     win_retained_generations = 128, retired_epochs = [], datagram_version = 2 \<rparr>"

definition demo_replica :: StreamingReplica where
  "demo_replica = StreamingReplica_default \<lparr> rep_terminal_id := ''t'', rep_attachment_id := ''a'' \<rparr>"

definition demo_system :: stream_system where
  "demo_system = \<lparr> net_server = demo_window, net_client = demo_replica,
     net_keyframes = [demo_state 1 []], net_datagrams = {}, net_acks = {}, net_repairs = {} \<rparr>"

lemma demo_live:
  "validate_live demo_externals (demo_state 1 []) = Inr ()"
  "validate_live demo_externals demo_typed = Inr ()"
  using demo_viewport_valid [of 1 "[]"] demo_viewport_valid [of 2, OF _ demo_cells_ok]
  by (simp_all add: demo_externals_def demo_typed_def cells_ok_def MAX_CELLS_def)

lemma demo_exported_ok: "exported demo_externals demo_exported"
proof -
  have "state_generation (demo_state 1 []) = 1" "state_generation demo_typed = 2"
    by (simp_all add: demo_typed_def demo_state_def)
  then show ?thesis using demo_live by (auto simp: exported_def demo_exported_def inj_on_def)
qed

lemma demo_stream_start: "stream_start demo_externals demo_exported ''t'' ''a'' demo_system"
proof -
  have "with_route demo_externals (demo_state 1 []) ''t'' ''a'' = Inr demo_window"
    using demo_live by (simp add: with_route_def with_retained_generations_def demo_window_def
        DEFAULT_RETAINED_GENERATIONS_def demo_screen_sel)
  moreover have "for_route ''t'' ''a'' = Inr demo_replica"
    by (simp add: for_route_def demo_replica_def)
  ultimately show ?thesis
    by (auto simp: stream_start_def demo_system_def demo_exported_def)
qed

text \<open>A run of it: output before the keyframe is acknowledged, the keyframe read, its
  acknowledgement.\<close>

definition demo_pending :: stream_system where
  "demo_pending = demo_system \<lparr> net_server := demo_window \<lparr> latest_target := Some demo_typed \<rparr> \<rparr>"

definition demo_attached :: StreamingReplica where
  "demo_attached = demo_replica \<lparr> pinned_base_generation := Some 1,
     retained := [(1, demo_state 1 [])], current := Some (demo_state 1 []) \<rparr>"

definition demo_shown :: stream_system where
  "demo_shown = demo_pending \<lparr> net_client := demo_attached, net_keyframes := [],
     net_acks := {ack_of (demo_state 1 [])} \<rparr>"

definition demo_acked :: stream_system where
  "demo_acked = demo_shown \<lparr> net_server := demo_window \<lparr> latest_target := Some demo_typed,
     base_acknowledged := True \<rparr> \<rparr>"

lemma demo_sel:
  "state_epoch (demo_state g cs) = replicate 16 7" "state_generation (demo_state g cs) = g"
  "state_epoch demo_typed = replicate 16 7" "state_generation demo_typed = 2"
  by (simp_all add: demo_typed_def demo_state_def)

lemma demo_step_pending: "stream_step demo_externals demo_exported demo_system demo_pending"
proof -
  have "window_prepare_update demo_externals demo_window demo_typed 1000
      = Inr (demo_window \<lparr> latest_target := Some demo_typed \<rparr>, None)"
    using demo_live(2) by (simp add: window_prepare_update_def demo_window_def demo_sel
        latest_generation_def word_le_nat_alt)
  then show ?thesis
    using stream_step.produced [of demo_typed demo_exported demo_externals demo_system 1000
        "demo_window \<lparr> latest_target := Some demo_typed \<rparr>" None]
    by (simp add: demo_exported_def demo_system_def demo_pending_def)
qed

lemma demo_step_shown: "stream_step demo_externals demo_exported demo_pending demo_shown"
proof -
  have "apply_keyframe demo_externals demo_replica (demo_state 1 []) = Inr (demo_attached, Applied)"
    using demo_live(1) by (simp add: apply_keyframe_def demo_replica_def StreamingReplica_default_def
        replica_remember_def evict_def demo_attached_def demo_sel DEFAULT_RETAINED_GENERATIONS_def)
  then show ?thesis
    using stream_step.keyframe_read [of demo_pending "demo_state 1 []" "[]" demo_externals
        demo_attached Applied demo_exported]
    by (simp add: demo_pending_def demo_system_def demo_shown_def state_ack_def demo_attached_def)
qed

lemma demo_step_acked: "stream_step demo_externals demo_exported demo_shown demo_acked"
proof -
  have "window_acknowledge (demo_window \<lparr> latest_target := Some demo_typed \<rparr>) (ack_of (demo_state 1 []))
      = Inr (demo_window \<lparr> latest_target := Some demo_typed, base_acknowledged := True \<rparr>, Duplicate)"
    by (simp add: window_acknowledge_def demo_window_def ack_of_def demo_sel EPOCH_BYTES_def
        clear_acknowledged_target_def word_le_nat_alt)
  then show ?thesis
    using stream_step.acknowledged [of "ack_of (demo_state 1 [])" demo_shown
        "demo_window \<lparr> latest_target := Some demo_typed, base_acknowledged := True \<rparr>" Duplicate
        demo_externals demo_exported]
    by (simp add: demo_shown_def demo_pending_def demo_system_def demo_acked_def)
qed

lemma demo_run_shown: "(stream_step demo_externals demo_exported)\<^sup>*\<^sup>* demo_system demo_shown"
  using demo_step_pending demo_step_shown by (rule converse_rtranclp_into_rtranclp [OF _ r_into_rtranclp])

lemma demo_run_acked: "(stream_step demo_externals demo_exported)\<^sup>*\<^sup>* demo_system demo_acked"
  using demo_run_shown demo_step_acked by (rule rtranclp.rtrancl_into_rtrancl)

text \<open>C1. The live viewport is never corrupted. Whatever the network loses, duplicates,
  delays or reorders, and however updates, retries, re-keys, repairs and
  acknowledgements interleave, the state a client shows is always exactly one of
  the states the terminal exported; and every datagram in the network and every
  keyframe next on the stream is processed without an error.\<close>

theorem streaming_never_corrupts:
  assumes "stream_start E H tid aid s0" and "(stream_step E H)\<^sup>*\<^sup>* s0 s" and "exported E H"
  shows "(\<forall>st. current (net_client s) = Some st \<longrightarrow> st \<in> H) \<and>
    (\<forall>d \<in> net_datagrams s. \<exists>r disposition. apply_datagram E (net_client s) d = Inr (r, disposition)) \<and>
    (\<forall>st rest. net_keyframes s = st # rest \<longrightarrow>
      (\<exists>r disposition. apply_keyframe E (net_client s) st = Inr (r, disposition)))"
proof -
  have inv: "stream_inv H tid aid s" using stream_inv_reachable [OF assms] .
  then have r: "replica_ok H tid aid (net_client s)" and ids: "tid \<noteq> []" "aid \<noteq> []"
    by (auto simp: stream_inv_def window_ok_def)
  show ?thesis
  proof (intro conjI allI impI ballI)
    show "st \<in> H" if "current (net_client s) = Some st" for st
      using r that by (simp add: replica_ok_def)
    show "\<exists>r disposition. apply_datagram E (net_client s) d = Inr (r, disposition)"
      if "d \<in> net_datagrams s" for d
    proof -
      have d: "delta_ok H tid aid d" using inv that by (simp add: stream_inv_def)
      show ?thesis by (rule apply_datagram_ok [OF r assms(3) d ids]) blast
    qed
    show "\<exists>r disposition. apply_keyframe E (net_client s) st = Inr (r, disposition)"
      if "net_keyframes s = st # rest" for st rest
    proof -
      have st: "st \<in> H" using inv that by (simp add: stream_inv_def)
      show ?thesis by (rule apply_keyframe_ok [OF r assms(3) st]) blast
    qed
  qed
qed

theorem streaming_never_corrupts_witness:
  "\<exists>r disposition. apply_keyframe demo_externals demo_replica (demo_state 1 []) = Inr (r, disposition)"
  using streaming_never_corrupts [OF demo_stream_start rtranclp.rtrancl_refl demo_exported_ok]
  by (simp add: demo_system_def)

text \<open>C19. The client never goes back. In a reachable system one further step keeps the
  client's state or replaces it, and within an epoch only by a newer generation:
  late and duplicated datagrams and keyframes cannot undo what is shown.\<close>

theorem client_never_goes_back:
  assumes "stream_start E H tid aid s0" and "(stream_step E H)\<^sup>*\<^sup>* s0 s" and "exported E H"
    and "stream_step E H s s'" and "current (net_client s) = Some c"
  shows "\<exists>c'. current (net_client s') = Some c' \<and>
    (c' = c \<or> state_epoch c' \<noteq> state_epoch c \<or> state_generation c < state_generation c')"
proof -
  have inv: "stream_inv H tid aid s" using stream_inv_reachable [OF assms(1-3)] .
  then have r: "replica_ok H tid aid (net_client s)" and ids: "tid \<noteq> []" "aid \<noteq> []"
    by (auto simp: stream_inv_def window_ok_def)
  have quiet: "net_client (emit u s) = net_client s" for u s
    by (cases "(u, s)" rule: emit.cases) auto
  show ?thesis
    using assms(4)
  proof cases
    case (keyframe_read st rest r' disposition)
    have st: "st \<in> H" using inv keyframe_read by (simp add: stream_inv_def)
    have "state_epoch c = state_epoch st \<Longrightarrow> \<not> state_generation st \<le> state_generation c \<Longrightarrow>
        state_generation c < state_generation st" by simp
    then show ?thesis
      using keyframe_read assms(5)
      by (auto simp: apply_keyframe_def and_then_unit Let_def split: if_splits)
  next
    case (datagram_read d r' disposition)
    have d: "delta_ok H tid aid d" using inv datagram_read by (simp add: stream_inv_def)
    show ?thesis
      by (rule apply_datagram_ok [OF r assms(3) d ids]) (use datagram_read assms(5) in auto)
  next
    case (base_missing d r' request)
    have d: "delta_ok H tid aid d" using inv base_missing by (simp add: stream_inv_def)
    show ?thesis
      by (rule apply_datagram_ok [OF r assms(3) d ids]) (use base_missing assms(5) in auto)
  qed (use assms(5) in \<open>auto simp: quiet\<close>)
qed

theorem client_never_goes_back_witness:
  "\<exists>c'. current (net_client demo_acked) = Some c' \<and>
    (c' = demo_state 1 [] \<or> state_epoch c' \<noteq> state_epoch (demo_state 1 []) \<or>
      state_generation (demo_state 1 []) < state_generation c')"
  by (rule client_never_goes_back [OF demo_stream_start demo_run_shown demo_exported_ok
      demo_step_acked]) (simp add: demo_shown_def demo_attached_def)

text \<open>C37. Memory is bounded. In every reachable system the window and the replica each
  retain at most 128 states.\<close>

theorem retention_bounded:
  assumes "stream_start E H tid aid s0" and "(stream_step E H)\<^sup>*\<^sup>* s0 s" and "exported E H"
  shows "length (sent (net_server s)) \<le> win_retained_generations (net_server s) \<and>
    length (retained (net_client s)) \<le> rep_retained_generations (net_client s)"
  using stream_inv_reachable [OF assms] by (simp add: stream_inv_def window_ok_def replica_ok_def)

theorem retention_bounded_witness:
  "length (sent demo_window) \<le> 128 \<and> length (retained demo_replica) \<le> 128"
  using retention_bounded [OF demo_stream_start rtranclp.rtrancl_refl demo_exported_ok]
  by (simp add: demo_system_def demo_window_def demo_replica_def StreamingReplica_default_def
      DEFAULT_RETAINED_GENERATIONS_def)

lemma install_keyframe_total:
  assumes "validate_live E st = Inr ()" "base_acknowledged w"
  obtains w' where "install_keyframe E w st = Inr (w', ReliableKeyframe st)"
    "win_base w' = st" "\<not> base_acknowledged w'" "latest_target w' = Some st"
    "set (retired_epochs w') \<subseteq> set (retired_epochs w) \<union> ({state_epoch (win_base w)} - {state_epoch st})"
proof -
  let ?pushed = "retired_epochs w @ [state_epoch (win_base w)]"
  let ?retired = "if state_epoch (win_base w) \<noteq> state_epoch st then
      (if DEFAULT_RETAINED_GENERATIONS < length ?pushed then tl ?pushed else ?pushed)
    else retired_epochs w"
  let ?w = "window_remember (w \<lparr> retired_epochs := ?retired, win_base := st,
    base_acknowledged := False, sent := [] \<rparr>) st"
  have "install_keyframe E w st = Inr (?w, ReliableKeyframe st)"
    using assms unfolding install_keyframe_def Let_def by simp
  moreover have "set ?retired \<subseteq> set (retired_epochs w) \<union> ({state_epoch (win_base w)} - {state_epoch st})"
    using list.set_sel(2) [of ?pushed] by auto
  ultimately show thesis by (intro that [of ?w]) (simp_all add: window_remember_def)
qed

text \<open>C5. Re-keying converges. When the base is acknowledged and a target is pending,
  the re-key timer turns the target into a reliable keyframe; the client that reads
  it shows the target or something newer of its epoch, and once the client's
  acknowledgement of the target arrives nothing is pending any more. (The epoch of
  the target is not one that was retired before.)\<close>

theorem rekey_converges:
  assumes "stream_start E H tid aid s0" and "(stream_step E H)\<^sup>*\<^sup>* s0 s" and "exported E H"
    and "base_acknowledged (net_server s)" and "latest_target (net_server s) = Some st"
    and "has_pending_update (net_server s)"
    and "state_epoch st \<notin> set (retired_epochs (net_server s))"
  shows "\<exists>w r disposition c. rekey_latest E (net_server s) = Inr (w, Some (ReliableKeyframe st)) \<and>
    apply_keyframe E (net_client s) st = Inr (r, disposition) \<and> current r = Some c \<and>
    (c = st \<or> state_epoch c = state_epoch st \<and> state_generation st \<le> state_generation c) \<and>
    (\<exists>w'. window_acknowledge w (ack_of st) = Inr (w', Duplicate) \<and> base_acknowledged w' \<and>
      \<not> has_pending_update w')"
proof -
  have inv: "stream_inv H tid aid s" using stream_inv_reachable [OF assms(1-3)] .
  then have st: "st \<in> H" and r: "replica_ok H tid aid (net_client s)"
    using assms(5) by (auto simp: stream_inv_def window_ok_def)
  have valid: "validate_live E st = Inr ()" using assms(3) st by (simp add: exported_def)
  have "validate (ext_state_len E) (ext_graphemes E) st = Inr ()"
    using valid by (rule validate_viewport_state_Inr)
  then have ack: "length (state_epoch st) = EPOCH_BYTES" "0 < state_generation st"
    by (rule validate_bounds)+
  obtain w where w: "install_keyframe E (net_server s) st = Inr (w, ReliableKeyframe st)"
    "win_base w = st" "\<not> base_acknowledged w" "latest_target w = Some st"
    "set (retired_epochs w) \<subseteq> set (retired_epochs (net_server s))
      \<union> ({state_epoch (win_base (net_server s))} - {state_epoch st})"
    using valid assms(4) by (rule install_keyframe_total)
  have rekey: "rekey_latest E (net_server s) = Inr (w, Some (ReliableKeyframe st))"
    using assms(4-6) w(1) by (auto simp: rekey_latest_def has_pending_update_def)
  have "state_epoch st \<notin> set (retired_epochs w)" using w(5) assms(7) by auto
  then have acked: "window_acknowledge w (ack_of st)
      = Inr (w \<lparr> base_acknowledged := True, latest_target := None \<rparr>, Duplicate)"
    using ack w by (simp add: window_acknowledge_def ack_of_def clear_acknowledged_target_def)
  show ?thesis
  proof (rule apply_keyframe_ok [OF r assms(3) st])
    fix r' disposition
    assume "apply_keyframe E (net_client s) st = Inr (r', disposition)"
      and "current r' = Some st \<or> (r' = net_client s \<and> (\<exists>cur. current (net_client s) = Some cur \<and>
        state_epoch cur = state_epoch st \<and> state_generation st \<le> state_generation cur))"
    with rekey acked show ?thesis by (fastforce simp: has_pending_update_def)
  qed
qed

theorem rekey_converges_witness:
  "\<exists>w r disposition c. rekey_latest demo_externals (net_server demo_acked)
      = Inr (w, Some (ReliableKeyframe demo_typed)) \<and>
    apply_keyframe demo_externals (net_client demo_acked) demo_typed = Inr (r, disposition) \<and>
    current r = Some c \<and>
    (c = demo_typed \<or> state_epoch c = state_epoch demo_typed
      \<and> state_generation demo_typed \<le> state_generation c) \<and>
    (\<exists>w'. window_acknowledge w (ack_of demo_typed) = Inr (w', Duplicate) \<and> base_acknowledged w' \<and>
      \<not> has_pending_update w')"
  by (rule rekey_converges [OF demo_stream_start demo_run_acked demo_exported_ok])
    (simp_all add: demo_acked_def demo_window_def has_pending_update_def demo_sel)

section \<open>Repair requests across an epoch change\<close>


definition demo_next_epoch :: State where
  "demo_next_epoch = (demo_state 1 []) \<lparr> state_epoch := replicate 16 9 \<rparr>"


end
