(* ===== verification/Input_Lease.thy ===== *)
theory Input_Lease
  imports Terminal_State
begin

text \<open>
  Who may type into a terminal (\<^verbatim>\<open>terminal.rs\<close>): at most one input lease with an
  expiry and a last command sequence, a recovery record that survives a
  disconnection, and the generation counter of grants. Every operation runs under
  the lease mutex, so an operation is one step on the terminal's state; the theorems
  quantify over all sequences of operations by any number of clients.

  An \<^verbatim>\<open>Instant\<close> is a number of clock ticks. The identifiers \<^verbatim>\<open>Uuid::new_v4\<close>
  returns and the test whether a string is a canonical UUID are arguments, as are the
  outcomes of writing to and of resizing the pseudo terminal.
\<close>

section \<open>Data\<close>

record Lease =
  le_id :: string
  le_resume_token :: string
  le_last_sequence :: u64
  le_expires_at :: "nat option"

record InputRecovery =
  ir_client_id :: string
  ir_token :: string

record LeaseGrant =
  lg_lease_id :: string
  lg_resume_token :: string
  lg_recovery_generation :: u64
  lg_ttl :: "nat option"

datatype LeaseRevocationReason = TakenOver | Expired | Released

record LeaseEvent =
  ev_revoked_lease_id :: string
  ev_reason :: LeaseRevocationReason

text \<open>The engine around the vendored grid (\<^verbatim>\<open>'g\<close>), and the part of
  \<^verbatim>\<open>Terminal\<close> that the input commands read and write. \<open>pty_input\<close> is everything
  written to the pseudo terminal so far, \<open>lease_events\<close> everything broadcast.\<close>

record 'g TerminalEngine =
  cached_viewport :: "State option"
  grid :: 'g

record TerminalSize =
  sz_rows :: usize
  sz_cols :: usize
  sz_pixel_width :: usize
  sz_pixel_height :: usize
  sz_dpi :: u32

record PtySize =
  pty_rows :: u16
  pty_cols :: u16
  pty_pixel_width :: u16
  pty_pixel_height :: u16

record 'g Terminal =
  info_rows :: u32
  info_cols :: u32
  engine :: "'g TerminalEngine"
  pty_input :: bytes
  pty_size :: PtySize
  lease :: "Lease option"
  recovery :: "InputRecovery option"
  recovery_generation :: u64
  lease_events :: "LeaseEvent list"

definition revoke :: "string \<Rightarrow> LeaseRevocationReason \<Rightarrow> LeaseEvent" where
  "revoke i why = \<lparr> ev_revoked_lease_id = i, ev_reason = why \<rparr>"

section \<open>Operations\<close>

definition lease_due :: "nat \<Rightarrow> Lease \<Rightarrow> bool" where
  "lease_due now l = (case le_expires_at l of None \<Rightarrow> False | Some deadline \<Rightarrow> deadline \<le> now)"

definition expire_lease_if_due_at :: "'g Terminal \<Rightarrow> string \<Rightarrow> nat \<Rightarrow> 'g Terminal \<times> bool" where
  "expire_lease_if_due_at t lease_id now =
    (let expired = (case lease t of None \<Rightarrow> False
                    | Some current \<Rightarrow> le_id current = lease_id \<and> lease_due now current)
     in if expired
        then (t\<lparr> lease := None, lease_events := lease_events t @ [revoke lease_id Expired] \<rparr>, True)
        else (t, False))"

definition validate_lease_at ::
  "'g Terminal \<Rightarrow> string \<Rightarrow> u64 \<Rightarrow> nat \<Rightarrow> 'g Terminal \<times> Lease result" where
  "validate_lease_at t lease_id sequence now =
    (let t1 = fst (expire_lease_if_due_at t lease_id now)
     in (t1, and_then (ok_or ''terminal has no active input lease'' (lease t1)) (\<lambda>current.
        if le_id current \<noteq> lease_id then bail ''stale or invalid input lease''
        else if sequence \<le> le_last_sequence current
          then bail ''duplicate or out-of-order terminal command''
        else Inr current)))"

text \<open>The expiry of whatever lease is held, at the start of an acquisition; unlike
  \<^const>\<open>expire_lease_if_due_at\<close> it does not ask for the lease's identifier.\<close>

definition expire_current :: "'g Terminal \<Rightarrow> nat \<Rightarrow> 'g Terminal" where
  "expire_current t now =
    (case lease t of
      None \<Rightarrow> t
    | Some current \<Rightarrow>
        if lease_due now current
        then t\<lparr> lease := None,
                lease_events := lease_events t @ [revoke (le_id current) Expired] \<rparr>
        else t)"

definition resume_authorized :: "'g Terminal \<Rightarrow> string option \<Rightarrow> string \<Rightarrow> bool" where
  "resume_authorized t client_id resume_token =
    (case client_id of
      Some i \<Rightarrow> (case recovery t of None \<Rightarrow> False
                | Some r \<Rightarrow> ir_client_id r = i \<and> ir_token r = resume_token)
    | None \<Rightarrow> recovery t = None \<and>
        (case lease t of None \<Rightarrow> False | Some l \<Rightarrow> le_resume_token l = resume_token))"

text \<open>The critical section after the checks: a new lease replaces the one held, the
  recovery record is rewritten, and the holder that lost its lease is told.\<close>

definition grant_lease ::
  "'g Terminal \<Rightarrow> string option \<Rightarrow> string \<Rightarrow> string \<Rightarrow> u64 \<Rightarrow> nat option \<Rightarrow> nat
     \<Rightarrow> 'g Terminal \<times> LeaseGrant result" where
  "grant_lease t client_id token lease_id generation ttl now =
    (t\<lparr> recovery := map_option (\<lambda>i. \<lparr> ir_client_id = i, ir_token = token \<rparr>) client_id,
        lease := Some \<lparr> le_id = lease_id, le_resume_token = token, le_last_sequence = 0,
                        le_expires_at = map_option (\<lambda>duration. now + duration) ttl \<rparr>,
        lease_events := lease_events t @
          (case lease t of None \<Rightarrow> [] | Some old \<Rightarrow> [revoke (le_id old) TakenOver]) \<rparr>,
     Inr \<lparr> lg_lease_id = lease_id, lg_resume_token = token,
           lg_recovery_generation = (if client_id \<noteq> None then generation else 0),
           lg_ttl = ttl \<rparr>)"

definition acquire_resumable_lease_at ::
  "(string \<Rightarrow> bool) \<Rightarrow> string \<Rightarrow> string \<Rightarrow> 'g Terminal \<Rightarrow> bool \<Rightarrow> bool \<Rightarrow> string
     \<Rightarrow> nat option \<Rightarrow> string option \<Rightarrow> nat \<Rightarrow> 'g Terminal \<times> LeaseGrant result" where
  "acquire_resumable_lease_at canonical_uuid new_token new_lease_id t
      read_only takeover resume_token ttl client_id now =
    (if \<not> length resume_token \<le> 128 then (t, bail ''invalid resume credential'')
     else if (case client_id of None \<Rightarrow> False | Some i \<Rightarrow> \<not> canonical_uuid i)
       then (t, bail ''invalid client instance ID'')
     else if read_only then
       (t, Inr \<lparr> lg_lease_id = [], lg_resume_token = [], lg_recovery_generation = 0,
                 lg_ttl = None \<rparr>)
     else
       (let t1 = expire_current t now;
            resuming = (\<not> takeover \<and> resume_token \<noteq> [])
        in if resuming then
             (if \<not> resume_authorized t1 client_id resume_token
              then (t1, bail ''input recovery eligibility is missing or revoked'')
              else grant_lease t1 client_id resume_token new_lease_id
                     (recovery_generation t1) ttl now)
           else if (lease t1 \<noteq> None \<or> recovery t1 \<noteq> None) \<and> \<not> takeover
             then (t1, bail ''terminal has an input owner; use a recovery credential, --read-only or --takeover'')
           else (case checked_add (recovery_generation t1) 1 of
               None \<Rightarrow> (t1, bail ''input recovery generation exhausted'')
             | Some nxt \<Rightarrow>
                 grant_lease (t1\<lparr> recovery_generation := nxt \<rparr>) client_id new_token
                   new_lease_id nxt ttl now)))"

text \<open>What the callers of an input command see of the lease: the update through the
  guard that \<^const>\<open>validate_lease_at\<close> returned.\<close>

definition set_last_sequence :: "u64 \<Rightarrow> 'g Terminal \<Rightarrow> 'g Terminal" where
  "set_last_sequence sequence t =
    t\<lparr> lease := map_option (\<lambda>l. l\<lparr> le_last_sequence := sequence \<rparr>) (lease t) \<rparr>"

definition owns_lease :: "'g Terminal \<Rightarrow> string \<Rightarrow> nat \<Rightarrow> 'g Terminal \<times> bool" where
  "owns_lease t lease_id now =
    (if lease_id = [] then (t, False)
     else let t1 = fst (expire_lease_if_due_at t lease_id now)
          in (t1, case lease t1 of None \<Rightarrow> False | Some l \<Rightarrow> le_id l = lease_id))"

definition lease_deadline :: "'g Terminal \<Rightarrow> string \<Rightarrow> nat option" where
  "lease_deadline t lease_id =
    (case lease t of None \<Rightarrow> None
     | Some l \<Rightarrow> if le_id l = lease_id then le_expires_at l else None)"

text \<open>\<^verbatim>\<open>renew_lease_at\<close> reads the clock twice: once to validate and once for the
  new deadline.\<close>

definition renew_lease_at ::
  "'g Terminal \<Rightarrow> string \<Rightarrow> u64 \<Rightarrow> nat \<Rightarrow> nat \<Rightarrow> nat \<Rightarrow> 'g Terminal \<times> unit result" where
  "renew_lease_at t lease_id sequence ttl now now' =
    (case validate_lease_at t lease_id sequence now of
      (t1, Inl e) \<Rightarrow> (t1, Inl e)
    | (t1, Inr current) \<Rightarrow>
        (t1\<lparr> lease := Some (current\<lparr> le_expires_at := Some (now' + ttl),
                                     le_last_sequence := sequence \<rparr>) \<rparr>, Inr ()))"

definition release_lease_command ::
  "'g Terminal \<Rightarrow> string \<Rightarrow> u64 \<Rightarrow> nat \<Rightarrow> 'g Terminal \<times> unit result" where
  "release_lease_command t lease_id sequence now =
    (case validate_lease_at t lease_id sequence now of
      (t1, Inl e) \<Rightarrow> (t1, Inl e)
    | (t1, Inr current) \<Rightarrow>
        (t1\<lparr> lease := None, recovery := None,
             lease_events := lease_events t1 @ [revoke lease_id Released] \<rparr>, Inr ()))"

definition release_lease :: "'g Terminal \<Rightarrow> string \<Rightarrow> 'g Terminal" where
  "release_lease t lease_id =
    (if lease_id = [] then t
     else if (case lease t of None \<Rightarrow> False | Some l \<Rightarrow> le_id l = lease_id)
     then t\<lparr> lease := None \<rparr> else t)"

text \<open>The outcome of \<^verbatim>\<open>write_all\<close> followed by \<^verbatim>\<open>flush\<close>: everything
  written, or an error after a prefix of the bytes.\<close>

datatype write_outcome = Wrote_all | Write_failed nat error

definition write_input ::
  "write_outcome \<Rightarrow> 'g Terminal \<Rightarrow> string \<Rightarrow> u64 \<Rightarrow> bytes \<Rightarrow> nat \<Rightarrow> 'g Terminal \<times> unit result" where
  "write_input outcome t lease_id sequence bs now =
    (case validate_lease_at t lease_id sequence now of
      (t1, Inl e) \<Rightarrow> (t1, Inl e)
    | (t1, Inr current) \<Rightarrow>
        (case outcome of
          Write_failed n e \<Rightarrow> (t1\<lparr> pty_input := pty_input t1 @ take n bs \<rparr>, Inl e)
        | Wrote_all \<Rightarrow>
            (set_last_sequence sequence (t1\<lparr> pty_input := pty_input t1 @ bs \<rparr>), Inr ())))"

definition terminal_size :: "u32 \<Rightarrow> u32 \<Rightarrow> u32 \<Rightarrow> u32 \<Rightarrow> TerminalSize" where
  "terminal_size rows columns pixel_width pixel_height =
    \<lparr> sz_rows = unat rows, sz_cols = unat columns, sz_pixel_width = unat pixel_width,
      sz_pixel_height = unat pixel_height, sz_dpi = 0 \<rparr>"

definition TerminalEngine_resize ::
  "('g \<Rightarrow> TerminalSize \<Rightarrow> 'g) \<Rightarrow> 'g TerminalEngine \<Rightarrow> u32 \<Rightarrow> u32 \<Rightarrow> u32 \<Rightarrow> u32
     \<Rightarrow> 'g TerminalEngine \<times> unit result" where
  "TerminalEngine_resize grid_resize e rows columns pixel_width pixel_height =
    (let e1 = e\<lparr> cached_viewport := None \<rparr>
     in if \<not> (1 \<le> rows \<and> rows \<le> MAX_DIMENSION \<and> 1 \<le> columns \<and> columns \<le> MAX_DIMENSION)
        then (e1, bail ''terminal dimensions are out of range'')
        else (e1\<lparr> grid := grid_resize (grid e1)
                    (terminal_size rows columns pixel_width pixel_height) \<rparr>, Inr ()))"

text \<open>\<open>pty_resize\<close> is the outcome of the ioctl on the master side.\<close>

definition resize ::
  "('g \<Rightarrow> TerminalSize \<Rightarrow> 'g) \<Rightarrow> unit result \<Rightarrow> 'g Terminal \<Rightarrow> string \<Rightarrow> u64
     \<Rightarrow> u32 \<Rightarrow> u32 \<Rightarrow> u32 \<Rightarrow> u32 \<Rightarrow> nat \<Rightarrow> 'g Terminal \<times> unit result" where
  "resize grid_resize pty_resize t lease_id sequence rows cols pixel_width pixel_height now =
    (if \<not> (1 \<le> rows \<and> rows \<le> 1000) \<or> \<not> (1 \<le> cols \<and> cols \<le> 1000)
       then (t, bail ''terminal dimensions must be between 1 and 1000'')
     else if ((pixel_width = 0) \<noteq> (pixel_height = 0)) \<or> pixel_width > 65535 \<or> pixel_height > 65535
       then (t, bail ''terminal pixel dimensions must both be zero or between 1 and 65535'')
     else (case validate_lease_at t lease_id sequence now of
        (t1, Inl e) \<Rightarrow> (t1, Inl e)
      | (t1, Inr current) \<Rightarrow>
         (case TerminalEngine_resize grid_resize (engine t1) rows cols pixel_width pixel_height of
           (e2, Inl e) \<Rightarrow> (t1\<lparr> engine := e2 \<rparr>, Inl e)
         | (e2, Inr _) \<Rightarrow>
            (case pty_resize of
              Inl e \<Rightarrow> (t1\<lparr> engine := e2 \<rparr>, Inl e)
            | Inr _ \<Rightarrow>
               (set_last_sequence sequence
                  (t1\<lparr> engine := e2, info_rows := rows, info_cols := cols,
                       pty_size := \<lparr> pty_rows = ucast rows, pty_cols = ucast cols,
                         pty_pixel_width = ucast pixel_width,
                         pty_pixel_height = ucast pixel_height \<rparr> \<rparr>), Inr ())))))"

section \<open>The operations as events\<close>

text \<open>One call of the server, with the values the environment supplies: the identifiers
  of \<^verbatim>\<open>Uuid::new_v4\<close>, the clock readings, the outcomes of the pseudo terminal.\<close>

datatype lease_op =
  Acquire string string bool bool string "nat option" "string option" nat
| Renew string u64 nat nat nat
| Release_command string u64 nat
| Expire string nat
| Detach string
| Input write_outcome string u64 bytes nat
| Resize "unit result" string u64 u32 u32 u32 u32 nat

text \<open>A command is \<open>Refused\<close> when its sender does not hold the lease or its sequence is
  not new; otherwise it is \<open>Carried_out\<close>, or it \<open>Failed\<close> on the way, perhaps after some of
  its bytes reached the pseudo terminal.\<close>

datatype outcome = Refused | Failed | Carried_out

fun command :: "lease_op \<Rightarrow> (string \<times> u64) option" where
  "command (Renew i q ttl now now') = Some (i, q)"
| "command (Release_command i q now) = Some (i, q)"
| "command (Input out i q bs now) = Some (i, q)"
| "command (Resize out i q rows cols pw ph now) = Some (i, q)"
| "command op = None"

fun granted_id :: "lease_op \<Rightarrow> string option" where
  "granted_id (Acquire new_token new_id ro to rt ttl client now) = Some new_id"
| "granted_id op = None"

definition outcome_of :: "'g Terminal \<Rightarrow> string \<Rightarrow> u64 \<Rightarrow> nat \<Rightarrow> unit result \<Rightarrow> outcome" where
  "outcome_of t i q now r =
    (if is_ok r then Carried_out
     else if is_ok (snd (validate_lease_at t i q now)) then Failed else Refused)"

fun exec ::
  "(string \<Rightarrow> bool) \<Rightarrow> ('g \<Rightarrow> TerminalSize \<Rightarrow> 'g) \<Rightarrow> lease_op \<Rightarrow> 'g Terminal \<Rightarrow> 'g Terminal \<times> outcome" where
  "exec canonical gr (Acquire new_token new_id ro to rt ttl client now) t =
    (let (t', r) = acquire_resumable_lease_at canonical new_token new_id t ro to rt ttl client now
     in (t', if is_ok r then Carried_out else Refused))"
| "exec canonical gr (Renew i q ttl now now') t =
    (let (t', r) = renew_lease_at t i q ttl now now' in (t', outcome_of t i q now r))"
| "exec canonical gr (Release_command i q now) t =
    (let (t', r) = release_lease_command t i q now in (t', outcome_of t i q now r))"
| "exec canonical gr (Expire i now) t =
    (let (t', b) = expire_lease_if_due_at t i now in (t', if b then Carried_out else Refused))"
| "exec canonical gr (Detach i) t = (release_lease t i, Carried_out)"
| "exec canonical gr (Input out i q bs now) t =
    (let (t', r) = write_input out t i q bs now in (t', outcome_of t i q now r))"
| "exec canonical gr (Resize out i q rows cols pw ph now) t =
    (let (t', r) = resize gr out t i q rows cols pw ph now in (t', outcome_of t i q now r))"

text \<open>The bytes an event delivers to the pseudo terminal when it is not refused.\<close>

fun delivered :: "lease_op \<Rightarrow> outcome \<Rightarrow> bytes" where
  "delivered (Input Wrote_all i q bs now) Carried_out = bs"
| "delivered (Input (Write_failed n e) i q bs now) Failed = take n bs"
| "delivered op oc = []"

text \<open>The terminal with the history of the commands that were not refused (lease,
  sequence, whether carried out, delivered bytes) and of the lease identifiers handed
  out. A fresh identifier differs from all earlier ones and is not empty.\<close>

record log_entry =
  c_lease :: string
  c_sequence :: u64
  c_done :: bool
  c_bytes :: bytes

record 'g lease_system =
  sys_terminal :: "'g Terminal"
  sys_log :: "log_entry list"
  sys_ids :: "string set"

definition log_of :: "lease_op \<Rightarrow> outcome \<Rightarrow> log_entry list" where
  "log_of op oc =
    (case command op of
      None \<Rightarrow> []
    | Some (i, q) \<Rightarrow> if oc = Refused then [] else 
        [\<lparr> c_lease = i, c_sequence = q, c_done = (oc = Carried_out), c_bytes = delivered op oc \<rparr>])"

definition lease_system_exec ::
  "(string \<Rightarrow> bool) \<Rightarrow> ('g \<Rightarrow> TerminalSize \<Rightarrow> 'g) \<Rightarrow> lease_op \<Rightarrow> 'g lease_system \<Rightarrow> 'g lease_system" where
  "lease_system_exec canonical gr op s =
    (let (t', oc) = exec canonical gr op (sys_terminal s)
     in \<lparr> sys_terminal = t', sys_log = sys_log s @ log_of op oc,
          sys_ids = sys_ids s \<union> set_option (granted_id op) \<rparr>)"

inductive lease_reachable ::
  "(string \<Rightarrow> bool) \<Rightarrow> ('g \<Rightarrow> TerminalSize \<Rightarrow> 'g) \<Rightarrow> 'g lease_system \<Rightarrow> bool"
  for canonical :: "string \<Rightarrow> bool" and gr :: "'g \<Rightarrow> TerminalSize \<Rightarrow> 'g" where
  spawned: "lease t = None \<Longrightarrow> recovery t = None \<Longrightarrow> recovery_generation t = 0 \<Longrightarrow> pty_input t = [] \<Longrightarrow>
    lease_reachable canonical gr \<lparr> sys_terminal = t, sys_log = [], sys_ids = {} \<rparr>"
| called: "lease_reachable canonical gr s \<Longrightarrow>
    (\<And>i. granted_id op = Some i \<Longrightarrow> i \<noteq> [] \<and> i \<notin> sys_ids s) \<Longrightarrow>
    lease_reachable canonical gr (lease_system_exec canonical gr op s)"

section \<open>Fencing, abstractly\<close>

text \<open>A history of commands is fenced when the commands of one lease are contiguous
  and a command that was carried out is only followed by higher sequences of that lease.\<close>

definition fenced :: "log_entry list \<Rightarrow> bool" where
  "fenced log \<longleftrightarrow>
    (\<forall>i j. i < j \<and> j < length log \<and> c_lease (log ! i) = c_lease (log ! j) \<longrightarrow>
      (c_done (log ! i) \<longrightarrow> c_sequence (log ! i) < c_sequence (log ! j)) \<and>
      (\<forall>k. i < k \<and> k < j \<longrightarrow> c_lease (log ! k) = c_lease (log ! i)))"

text \<open>What a holder and its last sequence have to do with the history: the holder's
  commands are its end, and none that was carried out lies above the last sequence.\<close>

definition at_end :: "string \<Rightarrow> log_entry list \<Rightarrow> bool" where
  "at_end i log \<longleftrightarrow> (\<exists>n. \<forall>k < length log. c_lease (log ! k) = i \<longleftrightarrow> n \<le> k)"

definition below :: "string \<Rightarrow> u64 \<Rightarrow> log_entry list \<Rightarrow> bool" where
  "below i high log \<longleftrightarrow> (\<forall>e \<in> set log. c_lease e = i \<and> c_done e \<longrightarrow> c_sequence e \<le> high)"

definition fence_inv :: "string option \<Rightarrow> u64 \<Rightarrow> string set \<Rightarrow> log_entry list \<Rightarrow> bool" where
  "fence_inv holder high ids log \<longleftrightarrow>
    fenced log \<and> c_lease ` set log \<subseteq> ids \<and>
    (\<forall>i. holder = Some i \<longrightarrow> i \<in> ids \<and> at_end i log \<and> below i high log)"

lemma fenced_snoc:
  assumes f: "fenced log"
    and suffix: "\<And>k. k < length log \<Longrightarrow> c_lease (log ! k) = c_lease e \<longleftrightarrow> n \<le> k"
    and above: "\<And>x. x \<in> set log \<Longrightarrow> c_lease x = c_lease e \<Longrightarrow> c_done x \<Longrightarrow>
      c_sequence x < c_sequence e"
  shows "fenced (log @ [e])"
  unfolding fenced_def
proof (intro allI impI, elim conjE)
  fix i j
  let ?l = "log @ [e]"
  assume ij: "i < j" "j < length ?l" and same: "c_lease (?l ! i) = c_lease (?l ! j)"
  have i: "i < length log" and li: "?l ! i = log ! i" using ij by (simp_all add: nth_append)
  have lk: "?l ! k = log ! k" if "k < j" for k using ij that by (simp add: nth_append)
  show "(c_done (?l ! i) \<longrightarrow> c_sequence (?l ! i) < c_sequence (?l ! j)) \<and>
    (\<forall>k. i < k \<and> k < j \<longrightarrow> c_lease (?l ! k) = c_lease (?l ! i))"
  proof (cases "j < length log")
    case True
    then have lj: "?l ! j = log ! j" by (simp add: nth_append)
    from same li lj have same': "c_lease (log ! i) = c_lease (log ! j)" by simp
    from f True ij(1) same'
    have "(c_done (log ! i) \<longrightarrow> c_sequence (log ! i) < c_sequence (log ! j)) \<and>
      (\<forall>k. i < k \<and> k < j \<longrightarrow> c_lease (log ! k) = c_lease (log ! i))"
      unfolding fenced_def by blast
    then show ?thesis by (simp add: li lj lk)
  next
    case False
    then have j: "j = length log" using ij by simp
    then have lj: "?l ! j = e" by simp
    from same li lj have e: "c_lease (log ! i) = c_lease e" by simp
    with suffix i have "n \<le> i" by blast
    then have "c_lease (log ! k) = c_lease e" if "i < k" "k < j" for k
      using suffix [of k] that j by simp
    moreover have "c_done (log ! i) \<Longrightarrow> c_sequence (log ! i) < c_sequence e"
      using above [of "log ! i"] e i by simp
    ultimately show ?thesis by (simp add: li lj lk e)
  qed
qed

lemma fence_inv_fenced: "fence_inv h q ids log \<Longrightarrow> fenced log"
  by (simp add: fence_inv_def)

lemma fence_inv_none: "fence_inv h q ids log \<Longrightarrow> fence_inv None q' ids log"
  by (simp add: fence_inv_def)

lemma fence_inv_mono: "fence_inv h q ids log \<Longrightarrow> ids \<subseteq> ids' \<Longrightarrow> fence_inv h q ids' log"
  unfolding fence_inv_def by blast

lemma fence_inv_grant:
  assumes inv: "fence_inv h q ids log" and fresh: "i \<notin> ids"
  shows "fence_inv (Some i) q' (insert i ids) log"
proof -
  have no: "c_lease e \<noteq> i" if "e \<in> set log" for e
    using inv fresh that unfolding fence_inv_def by blast
  have "\<forall>k < length log. c_lease (log ! k) = i \<longleftrightarrow> length log \<le> k"
    using no [OF nth_mem] by (simp add: not_le)
  then have "at_end i log" unfolding at_end_def by (rule exI)
  moreover have "below i q' log" using no by (simp add: below_def)
  ultimately show ?thesis using inv unfolding fence_inv_def by blast
qed

lemma at_end_snoc:
  assumes "at_end i log" "c_lease e = i"
  shows "at_end i (log @ [e])"
proof -
  from assms(1) obtain n where n: "\<forall>k < length log. c_lease (log ! k) = i \<longleftrightarrow> n \<le> k"
    unfolding at_end_def by (rule exE)
  have "c_lease ((log @ [e]) ! k) = i \<longleftrightarrow> min n (length log) \<le> k" if "k < length (log @ [e])" for k
  proof (cases "k < length log")
    case True
    then show ?thesis using n by (simp add: nth_append min_le_iff_disj not_le)
  next
    case False
    then have "k = length log" using that by simp
    then show ?thesis using assms(2) by simp
  qed
  then show ?thesis unfolding at_end_def by blast
qed

lemma fenced_at_end_snoc:
  assumes f: "fenced log" and "at_end (c_lease e) log" "below (c_lease e) high log" "high < c_sequence e"
  shows "fenced (log @ [e])"
proof -
  from assms(2) obtain n where n: "\<forall>k < length log. c_lease (log ! k) = c_lease e \<longleftrightarrow> n \<le> k"
    unfolding at_end_def by (rule exE)
  show ?thesis
  proof (rule fenced_snoc [OF f])
    show "c_lease (log ! k) = c_lease e \<longleftrightarrow> n \<le> k" if "k < length log" for k
      using n that by blast
    show "c_sequence x < c_sequence e" if "x \<in> set log" "c_lease x = c_lease e" "c_done x" for x
      using assms(3,4) that order_le_less_trans unfolding below_def by blast
  qed
qed

lemma fence_inv_command:
  assumes inv: "fence_inv (Some i) high ids log" and q: "high < c_sequence e"
    and e: "c_lease e = i" and high': "high' = (if c_done e then c_sequence e else high)"
  shows "fence_inv (Some i) high' ids (log @ [e])"
proof -
  from inv have f: "fenced log" and sub: "c_lease ` set log \<subseteq> ids" and i: "i \<in> ids"
    and a: "at_end i log" and b: "below i high log"
    by (simp_all add: fence_inv_def)
  have "below i high' (log @ [e])"
    using b q by (auto simp: below_def high' intro: less_imp_le order_trans)
  then show ?thesis
    using sub i e at_end_snoc [OF a e] fenced_at_end_snoc [OF f] a b q
    by (simp add: fence_inv_def)
qed

text \<open>The contract between the command handlers and whoever relies on fencing.\<close>

locale fenced_commands =
  fixes holder :: "'s \<Rightarrow> string option"
    and high :: "'s \<Rightarrow> u64"
    and perform :: "'op \<Rightarrow> 's \<Rightarrow> 's \<times> outcome"
    and command_of :: "'op \<Rightarrow> (string \<times> u64) option"
    and grant_of :: "'op \<Rightarrow> string option"
    and entries :: "'op \<Rightarrow> outcome \<Rightarrow> log_entry list"
  assumes held: "perform op s = (s', oc) \<Longrightarrow> command_of op = Some (i, q) \<Longrightarrow> oc \<noteq> Refused \<Longrightarrow>
      holder s = Some i \<and> high s < q"
    and carried_out: "perform op s = (s', Carried_out) \<Longrightarrow> command_of op = Some (i, q) \<Longrightarrow>
      holder s' = Some i \<and> high s' = q \<or> holder s' = None"
    and quiet: "perform op s = (s', oc) \<Longrightarrow> command_of op = None \<or> oc \<noteq> Carried_out \<Longrightarrow>
      holder s' = None \<or> holder s' = holder s \<and> high s' = high s \<or>
      command_of op = None \<and> grant_of op \<noteq> None \<and> holder s' = grant_of op"
    and no_entry: "command_of op = None \<or> oc = Refused \<Longrightarrow> entries op oc = []"
    and entry: "command_of op = Some (i, q) \<Longrightarrow> oc \<noteq> Refused \<Longrightarrow>
      \<exists>d. entries op oc = [\<lparr> c_lease = i, c_sequence = q, c_done = (oc = Carried_out), c_bytes = d \<rparr>]"
begin

lemma quiet_step:
  assumes inv: "fence_inv (holder s) (high s) ids log"
    and p: "perform op s = (s', oc)" and c: "command_of op = None \<or> oc = Refused"
    and fresh: "\<And>i. grant_of op = Some i \<Longrightarrow> i \<notin> ids"
  shows "fence_inv (holder s') (high s') (ids \<union> set_option (grant_of op)) log"
proof -
  from c have "command_of op = None \<or> oc \<noteq> Carried_out" by auto
  from quiet [OF p this] consider "holder s' = None" | "holder s' = holder s" "high s' = high s"
    | i where "grant_of op = Some i" "holder s' = Some i"
    by (cases "grant_of op") auto
  then show ?thesis
  proof cases
    case 1
    then show ?thesis using fence_inv_mono [OF fence_inv_none [OF inv]] by simp
  next
    case 2
    then show ?thesis using fence_inv_mono [OF inv] by simp
  next
    case 3
    then show ?thesis using fence_inv_grant [OF inv fresh] by simp
  qed
qed

lemma command_step:
  assumes inv: "fence_inv (holder s) (high s) ids log"
    and p: "perform op s = (s', oc)" and c: "command_of op = Some (i, q)" and oc: "oc \<noteq> Refused"
  shows "fence_inv (holder s') (high s') (ids \<union> set_option (grant_of op)) (log @ entries op oc)"
proof -
  from entry [OF c oc] obtain d where
    d: "entries op oc = [\<lparr> c_lease = i, c_sequence = q, c_done = (oc = Carried_out), c_bytes = d \<rparr>]"
    by blast
  from held [OF p c oc] have h: "holder s = Some i" and q: "high s < q" by auto
  from inv h have "fence_inv (Some i) (high s) ids log" by simp
  then have new: "fence_inv (Some i) (if oc = Carried_out then q else high s) ids (log @ entries op oc)"
    unfolding d by (rule fence_inv_command) (use q in auto)
  consider "holder s' = None" | "oc = Carried_out" "holder s' = Some i" "high s' = q"
    | "oc \<noteq> Carried_out" "holder s' = Some i" "high s' = high s"
  proof (cases "oc = Carried_out")
    case True
    then show ?thesis using carried_out [OF p [unfolded True] c] that by blast
  next
    case False
    then show ?thesis using quiet [OF p] c h that by force
  qed
  then show ?thesis
  proof cases
    case 1
    then show ?thesis using fence_inv_mono [OF fence_inv_none [OF new]] by simp
  next
    case 2
    then show ?thesis using fence_inv_mono [OF new] by simp
  next
    case 3
    then show ?thesis using fence_inv_mono [OF new] by simp
  qed
qed

lemma fence_step:
  assumes "fence_inv (holder s) (high s) ids log" and "perform op s = (s', oc)"
    and "\<And>i. grant_of op = Some i \<Longrightarrow> i \<notin> ids"
  shows "fence_inv (holder s') (high s') (ids \<union> set_option (grant_of op)) (log @ entries op oc)"
proof (cases "command_of op = None \<or> oc = Refused")
  case True
  then show ?thesis using quiet_step [OF assms(1,2) True assms(3)] no_entry by simp
next
  case False
  then show ?thesis using command_step [OF assms(1,2)] by auto
qed

end

section \<open>The terminal keeps the contract\<close>

definition lease_holder :: "'g Terminal \<Rightarrow> string option" where
  "lease_holder t = map_option le_id (lease t)"

definition lease_high :: "'g Terminal \<Rightarrow> u64" where
  "lease_high t = (case lease t of None \<Rightarrow> 0 | Some l \<Rightarrow> le_last_sequence l)"

lemma validate_lease_Inr:
  "validate_lease_at t i q now = (t1, Inr c) \<longleftrightarrow>
    t1 = t \<and> lease t = Some c \<and> le_id c = i \<and> \<not> lease_due now c \<and> le_last_sequence c < q"
  by (cases "lease t")
    (auto simp: validate_lease_at_def expire_lease_if_due_at_def bail_def not_le split: if_splits)

text \<open>A failed validation can only have expired the lease.\<close>

definition at_most_expired :: "'g Terminal \<Rightarrow> 'g Terminal \<Rightarrow> bool" where
  "at_most_expired t t' \<longleftrightarrow> (\<exists>evs. t' = t\<lparr> lease := None, lease_events := lease_events t @ evs \<rparr>) \<or> t' = t"

lemma expire_lease_at_most_expired:
  "at_most_expired t (fst (expire_lease_if_due_at t i now))"
  by (auto simp: expire_lease_if_due_at_def at_most_expired_def Let_def)

lemma validate_at_most_expired:
  "validate_lease_at t i q now = (t1, r) \<Longrightarrow> at_most_expired t t1"
  using expire_lease_at_most_expired [of t i now] by (auto simp: validate_lease_at_def Let_def)

lemma expire_current_at_most_expired: "at_most_expired t (expire_current t now)"
  by (auto simp: expire_current_def at_most_expired_def split: option.splits)

lemma at_most_expired_sel:
  assumes "at_most_expired t t'"
  shows "recovery t' = recovery t" "recovery_generation t' = recovery_generation t"
    "pty_input t' = pty_input t" "lease t' = None \<or> lease t' = lease t"
  using assms by (auto simp: at_most_expired_def)

lemma at_most_expired_holder:
  assumes "at_most_expired t t'"
  shows "lease_holder t' = None \<or> lease_holder t' = lease_holder t \<and> lease_high t' = lease_high t"
  using at_most_expired_sel(4) [OF assms] by (auto simp: lease_holder_def lease_high_def)

text \<open>The effect of any command on the lease, by what became of it.\<close>

definition command_effect ::
  "'g Terminal \<Rightarrow> string \<Rightarrow> u64 \<Rightarrow> nat \<Rightarrow> 'g Terminal \<times> unit result \<Rightarrow> bool" where
  "command_effect t i q now out \<longleftrightarrow> (case out of (t', r) \<Rightarrow>
    if is_ok r then is_ok (snd (validate_lease_at t i q now)) \<and>
      (lease_holder t' = Some i \<and> lease_high t' = q \<or> lease_holder t' = None)
    else at_most_expired t t' \<or> lease t' = lease t)"

lemma command_effect_refused:
  "at_most_expired t t' \<Longrightarrow> command_effect t i q now (t', Inl e)"
  by (simp add: command_effect_def)

lemma set_last_sequence_sel [simp]:
  "lease_holder (set_last_sequence q t) = lease_holder t"
  "lease t = Some c \<Longrightarrow> lease_high (set_last_sequence q t) = q"
  "recovery (set_last_sequence q t) = recovery t"
  "pty_input (set_last_sequence q t) = pty_input t"
  by (simp_all add: set_last_sequence_def lease_holder_def lease_high_def map_option.compositionality o_def)

lemma command_effect_validated:
  assumes v: "validate_lease_at t i q now = (t1, Inr c)"
    and "lease_holder t' = Some i \<and> lease_high t' = q \<or> lease_holder t' = None"
  shows "command_effect t i q now (t', Inr ())"
  using assms by (simp add: command_effect_def)

lemma command_effect_failed:
  assumes "validate_lease_at t i q now = (t1, Inr c)" and "lease t' = lease t"
  shows "command_effect t i q now (t', Inl e)"
  using assms by (simp add: command_effect_def)

lemma command_effect_renew:
  "command_effect t i q now (renew_lease_at t i q ttl now now')"
proof (cases "validate_lease_at t i q now")
  case (Pair t1 r)
  show ?thesis
  proof (cases r)
    case (Inl e)
    then show ?thesis
      using command_effect_refused [OF validate_at_most_expired [OF Pair]]
      by (simp add: renew_lease_at_def Pair)
  next
    case (Inr c)
    note v = Pair [unfolded Inr]
    then have "lease t = Some c" "le_id c = i" by (simp_all add: validate_lease_Inr)
    then show ?thesis
      unfolding renew_lease_at_def v prod.case sum.case
      by (intro command_effect_validated [OF v]) (simp add: lease_holder_def lease_high_def)
  qed
qed

lemma command_effect_release:
  "command_effect t i q now (release_lease_command t i q now)"
proof (cases "validate_lease_at t i q now")
  case (Pair t1 r)
  show ?thesis
  proof (cases r)
    case (Inl e)
    then show ?thesis
      using command_effect_refused [OF validate_at_most_expired [OF Pair]]
      by (simp add: release_lease_command_def Pair)
  next
    case (Inr c)
    note v = Pair [unfolded Inr]
    show ?thesis
      unfolding release_lease_command_def v prod.case sum.case
      by (intro command_effect_validated [OF v]) (simp add: lease_holder_def)
  qed
qed

lemma command_effect_write:
  "command_effect t i q now (write_input out t i q bs now)"
proof (cases "validate_lease_at t i q now")
  case (Pair t1 r)
  show ?thesis
  proof (cases r)
    case (Inl e)
    then show ?thesis
      using command_effect_refused [OF validate_at_most_expired [OF Pair]]
      by (simp add: write_input_def Pair)
  next
    case (Inr c)
    note v = Pair [unfolded Inr]
    then have t: "t1 = t" "lease t = Some c" "le_id c = i" by (simp_all add: validate_lease_Inr)
    show ?thesis
    proof (cases out)
      case Wrote_all
      then show ?thesis
        unfolding write_input_def v prod.case sum.case Wrote_all write_outcome.case
        by (intro command_effect_validated [OF v])
          (simp add: t set_last_sequence_def lease_holder_def lease_high_def)
    next
      case (Write_failed n e)
      then show ?thesis
        unfolding write_input_def v prod.case sum.case Write_failed write_outcome.case
        by (intro command_effect_failed [OF v]) (simp add: t)
    qed
  qed
qed

text \<open>A resize the lease admits changes the grid, and on success the recorded size and
  the sequence; the ranges were checked before, so the engine never refuses it.\<close>

lemma TerminalEngine_resize_in_range:
  assumes "1 \<le> rows" "rows \<le> 1000" "1 \<le> cols" "cols \<le> 1000"
  shows "TerminalEngine_resize gr e rows cols pw ph =
    (e\<lparr> cached_viewport := None, grid := gr (grid e) (terminal_size rows cols pw ph) \<rparr>, Inr ())"
  using assms by (simp add: TerminalEngine_resize_def MAX_DIMENSION_def)

lemma command_effect_resize:
  "command_effect t i q now (resize gr out t i q rows cols pw ph now)"
proof (cases "validate_lease_at t i q now")
  case (Pair t1 r)
  let ?size = "1 \<le> rows \<and> rows \<le> 1000 \<and> 1 \<le> cols \<and> cols \<le> 1000"
  let ?pixels = "((pw = 0) = (ph = 0)) \<and> \<not> pw > 65535 \<and> \<not> ph > 65535"
  show ?thesis
  proof (cases "?size \<and> ?pixels")
    case False
    then have "\<exists>m. resize gr out t i q rows cols pw ph now = (t, bail m)"
      unfolding resize_def by auto
    then show ?thesis by (auto simp: command_effect_def bail_def)
  next
    case go: True
    show ?thesis
    proof (cases r)
      case (Inl e)
      have "resize gr out t i q rows cols pw ph now = (t1, Inl e)"
        unfolding resize_def using go Pair Inl by simp
      then show ?thesis using command_effect_refused [OF validate_at_most_expired [OF Pair]] by simp
    next
      case (Inr c)
      note v = Pair [unfolded Inr]
      then have t: "t1 = t" "lease t = Some c" "le_id c = i" by (simp_all add: validate_lease_Inr)
      let ?out = "resize gr out t i q rows cols pw ph now"
      have eff: "(\<exists>e. snd ?out = Inl e \<and> lease (fst ?out) = lease t) \<or>
        snd ?out = Inr () \<and> lease_holder (fst ?out) = Some i \<and> lease_high (fst ?out) = q"
        using go t
        by (cases out) (simp_all add: resize_def v TerminalEngine_resize_in_range
            set_last_sequence_def lease_holder_def lease_high_def)
      then show ?thesis
        using command_effect_failed [OF v] command_effect_validated [OF v]
        by (cases ?out) auto
    qed
  qed
qed

lemma exec_command_effect:
  assumes "exec canonical gr op t = (t', oc)" and "command op = Some (i, q)"
  obtains now r where "command_effect t i q now (t', r)" and "oc = outcome_of t i q now r"
proof (cases op)
  case (Renew i' q' ttl now now')
  then show ?thesis
    using assms command_effect_renew [of t i q now ttl now'] that by (auto split: prod.splits)
next
  case (Release_command i' q' now)
  then show ?thesis
    using assms command_effect_release [of t i q now] that by (auto split: prod.splits)
next
  case (Input out i' q' bs now)
  then show ?thesis
    using assms command_effect_write [of t i q now out bs] that by (auto split: prod.splits)
next
  case (Resize out i' q' rows cols pw ph now)
  then show ?thesis
    using assms command_effect_resize [of t i q now gr out rows cols pw ph] that
    by (auto split: prod.splits)
qed (use assms in simp_all)

lemma validated_holder:
  assumes "is_ok (snd (validate_lease_at t i q now))"
  shows "lease_holder t = Some i \<and> lease_high t < q"
proof -
  from assms obtain t1 c where "validate_lease_at t i q now = (t1, Inr c)"
    by (cases "validate_lease_at t i q now") (auto simp: is_ok_iff)
  then show ?thesis by (auto simp: validate_lease_Inr lease_holder_def lease_high_def)
qed

text \<open>An acquisition either grants, or answers a reader without touching the terminal, or
  refuses after at most expiring the lease.\<close>

lemma acquire_cases:
  assumes "acquire_resumable_lease_at canonical nt ni t ro to rt ttl client now = (t', r)"
  obtains (refused) e where "r = Inl e" "at_most_expired t t'"
  | (reader) g where "ro" "t' = t" "r = Inr g"
  | (resumed) "\<not> ro" "\<not> to" "rt \<noteq> []" "resume_authorized (expire_current t now) client rt"
      "(t', r) = grant_lease (expire_current t now) client rt ni (recovery_generation t) ttl now"
  | (fresh) n where "\<not> ro" "to \<or> lease (expire_current t now) = None \<and> recovery t = None"
      "to \<or> rt = []" "checked_add (recovery_generation t) 1 = Some n"
      "(t', r) = grant_lease ((expire_current t now)\<lparr> recovery_generation := n \<rparr>) client nt ni n ttl now"
proof -
  let ?t1 = "expire_current t now"
  note dead = expire_current_at_most_expired [of t now]
  note sel = at_most_expired_sel(1,2) [OF dead]
  have same: "at_most_expired t t" by (simp add: at_most_expired_def)
  show ?thesis
  proof (cases "\<not> length rt \<le> 128 \<or> (case client of None \<Rightarrow> False | Some i \<Rightarrow> \<not> canonical i)")
    case True
    then have "t' = t \<and> (\<exists>m. r = bail m)"
      using assms unfolding acquire_resumable_lease_at_def by (cases "length rt \<le> 128") auto
    then show ?thesis using refused same by (auto simp: bail_def)
  next
    case ok: False
    show ?thesis
    proof (cases ro)
      case True
      then have "t' = t \<and> (\<exists>g. r = Inr g)"
        using assms ok unfolding acquire_resumable_lease_at_def by auto
      then show ?thesis using reader True by blast
    next
      case False
      consider "\<not> to" "rt \<noteq> []" | "to \<or> rt = []" by blast
      then show ?thesis
      proof cases
        case 1
        show ?thesis
        proof (cases "resume_authorized ?t1 client rt")
          case True
          then have "(t', r) = grant_lease ?t1 client rt ni (recovery_generation t) ttl now"
            using assms ok False 1 sel unfolding acquire_resumable_lease_at_def by simp
          then show ?thesis using resumed False 1 True by blast
        next
          case no: False
          then have "t' = ?t1 \<and> (\<exists>e. r = Inl e)"
            using assms ok False 1 unfolding acquire_resumable_lease_at_def by (auto simp: bail_def)
          then show ?thesis using refused dead by blast
        qed
      next
        case 2
        show ?thesis
        proof (cases "(lease ?t1 = None \<and> recovery t = None) \<or> to")
          case no: False
          then have "t' = ?t1 \<and> (\<exists>e. r = Inl e)"
            using assms ok False 2 sel unfolding acquire_resumable_lease_at_def
            by (auto simp: bail_def)
          then show ?thesis using refused dead by blast
        next
          case free: True
          show ?thesis
          proof (cases "checked_add (recovery_generation t) 1")
            case None
            then have "t' = ?t1 \<and> (\<exists>e. r = Inl e)"
              using assms ok False 2 free sel unfolding acquire_resumable_lease_at_def
              by (auto simp: bail_def)
            then show ?thesis using refused dead by blast
          next
            case (Some n)
            then have "(t', r) = grant_lease (?t1\<lparr> recovery_generation := n \<rparr>) client nt ni n ttl now"
              using assms ok False 2 free sel unfolding acquire_resumable_lease_at_def by auto
            then show ?thesis using fresh False 2 free Some by blast
          qed
        qed
      qed
    qed
  qed
qed

lemma grant_lease_sel [simp]:
  "lease_holder (fst (grant_lease t client token i g ttl now)) = Some i"
  "recovery (fst (grant_lease t client token i g ttl now)) =
    map_option (\<lambda>c. \<lparr> ir_client_id = c, ir_token = token \<rparr>) client"
  "recovery_generation (fst (grant_lease t client token i g ttl now)) = recovery_generation t"
  "pty_input (fst (grant_lease t client token i g ttl now)) = pty_input t"
  "is_ok (snd (grant_lease t client token i g ttl now))"
  by (simp_all add: grant_lease_def lease_holder_def)

lemma acquire_holder:
  assumes "acquire_resumable_lease_at canonical nt ni t ro to rt ttl client now = (t', r)"
  shows "lease_holder t' = None \<or> lease_holder t' = lease_holder t \<and> lease_high t' = lease_high t \<or>
    lease_holder t' = Some ni"
  using assms
proof (cases rule: acquire_cases)
  case (refused e)
  then show ?thesis using at_most_expired_holder by blast
next
  case resumed
  then show ?thesis by (metis fst_conv grant_lease_sel(1))
next
  case (fresh n)
  then show ?thesis by (metis fst_conv grant_lease_sel(1))
qed simp

lemma exec_quiet:
  assumes x: "exec canonical gr op t = (t', oc)" and c: "command op = None"
  shows "lease_holder t' = None \<or> lease_holder t' = lease_holder t \<and> lease_high t' = lease_high t \<or>
    granted_id op \<noteq> None \<and> lease_holder t' = granted_id op"
proof (cases op)
  case (Acquire nt ni ro to rt ttl client now)
  then show ?thesis using x acquire_holder by (fastforce split: prod.splits)
next
  case (Expire i now)
  then have "t' = fst (expire_lease_if_due_at t i now)" using x by (auto split: prod.splits)
  then show ?thesis using at_most_expired_holder [OF expire_lease_at_most_expired [of t i now]] by auto
next
  case (Detach i)
  then show ?thesis using x by (auto simp: release_lease_def lease_holder_def split: if_splits)
qed (use c in simp_all)

interpretation input: fenced_commands lease_holder lease_high "exec canonical gr" command granted_id log_of
proof
  fix op s s' oc i q
  assume x: "exec canonical gr op s = (s', oc)" and c: "command op = Some (i, q)" and oc: "oc \<noteq> Refused"
  obtain now r where e: "command_effect s i q now (s', r)" and o: "oc = outcome_of s i q now r"
    by (rule exec_command_effect [OF x c])
  have "is_ok (snd (validate_lease_at s i q now))"
    using e o oc by (auto simp: command_effect_def outcome_of_def split: if_splits)
  then show "lease_holder s = Some i \<and> lease_high s < q" by (rule validated_holder)
next
  fix op s s' i q
  assume x: "exec canonical gr op s = (s', Carried_out)" and c: "command op = Some (i, q)"
  obtain now r where e: "command_effect s i q now (s', r)" and o: "Carried_out = outcome_of s i q now r"
    by (rule exec_command_effect [OF x c])
  then show "lease_holder s' = Some i \<and> lease_high s' = q \<or> lease_holder s' = None"
    by (auto simp: command_effect_def outcome_of_def split: if_splits)
next
  fix op s s' oc
  assume x: "exec canonical gr op s = (s', oc)" and c: "command op = None \<or> oc \<noteq> Carried_out"
  show "lease_holder s' = None \<or> lease_holder s' = lease_holder s \<and> lease_high s' = lease_high s \<or>
    command op = None \<and> granted_id op \<noteq> None \<and> lease_holder s' = granted_id op"
  proof (cases "command op")
    case None
    then show ?thesis using exec_quiet [OF x] by blast
  next
    case (Some iq)
    obtain i q where iq: "iq = (i, q)" by (cases iq)
    obtain now r where e: "command_effect s i q now (s', r)" and o: "oc = outcome_of s i q now r"
      by (rule exec_command_effect [OF x Some [unfolded iq]])
    then have "at_most_expired s s' \<or> lease s' = lease s"
      using c Some by (auto simp: command_effect_def outcome_of_def split: if_splits)
    then show ?thesis
    proof
      assume "at_most_expired s s'"
      then show ?thesis using at_most_expired_holder by blast
    qed (simp add: lease_holder_def lease_high_def)
  qed
qed (auto simp: log_of_def split: option.splits)

section \<open>What reaches the pseudo terminal\<close>

lemma acquire_keeps_pty:
  assumes "acquire_resumable_lease_at canonical nt ni t ro to rt ttl client now = (t', r)"
  shows "pty_input t' = pty_input t"
  using assms
proof (cases rule: acquire_cases)
  case (refused e)
  then show ?thesis using at_most_expired_sel(3) by blast
next
  case resumed
  then have "t' = fst (grant_lease (expire_current t now) client rt ni (recovery_generation t) ttl now)"
    by (metis fst_conv)
  then show ?thesis using at_most_expired_sel(3) [OF expire_current_at_most_expired] by simp
next
  case (fresh n)
  then have "t' = fst (grant_lease ((expire_current t now)\<lparr> recovery_generation := n \<rparr>) client nt ni n ttl now)"
    by (metis fst_conv)
  then show ?thesis using at_most_expired_sel(3) [OF expire_current_at_most_expired] by simp
qed simp

lemma commands_keep_pty:
  "pty_input (fst (renew_lease_at t i q ttl now now')) = pty_input t"
  "pty_input (fst (release_lease_command t i q now)) = pty_input t"
  "pty_input (fst (resize gr out t i q rows cols pw ph now)) = pty_input t"
proof -
  obtain t1 r where v: "validate_lease_at t i q now = (t1, r)" by (cases "validate_lease_at t i q now")
  then have p: "pty_input t1 = pty_input t" using at_most_expired_sel(3) validate_at_most_expired by blast
  show "pty_input (fst (renew_lease_at t i q ttl now now')) = pty_input t"
    using p by (cases r) (simp_all add: renew_lease_at_def v)
  show "pty_input (fst (release_lease_command t i q now)) = pty_input t"
    using p by (cases r) (simp_all add: release_lease_command_def v)
  show "pty_input (fst (resize gr out t i q rows cols pw ph now)) = pty_input t"
    using p by (cases r; cases out) (simp_all add: resize_def v split: sum.split prod.split)
qed

lemma write_input_pty:
  "write_input out t i q bs now = (t', r) \<Longrightarrow>
    pty_input t' = pty_input t @ delivered (Input out i q bs now) (outcome_of t i q now r)"
proof (cases "validate_lease_at t i q now")
  case (Pair t1 v)
  assume w: "write_input out t i q bs now = (t', r)"
  have p: "pty_input t1 = pty_input t" using at_most_expired_sel(3) validate_at_most_expired Pair by blast
  show ?thesis
  proof (cases v)
    case (Inl e)
    then have "t' = t1" "r = Inl e" using w Pair by (simp_all add: write_input_def)
    moreover have "outcome_of t i q now (Inl e) = Refused" using Pair Inl by (simp add: outcome_of_def)
    ultimately show ?thesis using p by simp
  next
    case (Inr c)
    then show ?thesis
      using w p Pair by (cases out) (auto simp: write_input_def outcome_of_def)
  qed
qed

lemma exec_pty:
  assumes "exec canonical gr op t = (t', oc)"
  shows "pty_input t' = pty_input t @ concat (map c_bytes (log_of op oc))"
proof (cases op)
  case (Acquire nt ni ro to rt ttl client now)
  then show ?thesis using assms acquire_keeps_pty by (fastforce simp: log_of_def split: prod.splits)
next
  case (Expire i now)
  then have "t' = fst (expire_lease_if_due_at t i now)" using assms by (auto split: prod.splits)
  then show ?thesis
    using at_most_expired_sel(3) [OF expire_lease_at_most_expired [of t i now]] Expire
    by (simp add: log_of_def)
next
  case (Detach i)
  then show ?thesis using assms by (auto simp: release_lease_def log_of_def split: if_splits)
next
  case (Input out i q bs now)
  obtain r where w: "write_input out t i q bs now = (t', r)" and "oc = outcome_of t i q now r"
    using assms Input by (auto split: prod.splits)
  then show ?thesis
    using write_input_pty [OF w] Input by (cases out) (auto simp: log_of_def)
next
  case (Renew i q ttl now now')
  then have "t' = fst (renew_lease_at t i q ttl now now')" using assms by (auto split: prod.splits)
  then show ?thesis using Renew by (simp add: log_of_def commands_keep_pty)
next
  case (Release_command i q now)
  then have "t' = fst (release_lease_command t i q now)" using assms by (auto split: prod.splits)
  then show ?thesis using Release_command by (simp add: log_of_def commands_keep_pty)
next
  case (Resize out i q rows cols pw ph now)
  then have "t' = fst (resize gr out t i q rows cols pw ph now)" using assms by (auto split: prod.splits)
  then show ?thesis using Resize by (simp add: log_of_def commands_keep_pty)
qed

lemma lease_system_inv:
  assumes "lease_reachable canonical gr s"
  shows "fence_inv (lease_holder (sys_terminal s)) (lease_high (sys_terminal s)) (sys_ids s) (sys_log s) \<and>
    pty_input (sys_terminal s) = concat (map c_bytes (sys_log s))"
  using assms
proof induction
  case (spawned t)
  then show ?case by (simp add: fence_inv_def fenced_def lease_holder_def)
next
  case (called s op)
  obtain t' oc where x: "exec canonical gr op (sys_terminal s) = (t', oc)"
    by (cases "exec canonical gr op (sys_terminal s)")
  from called.hyps(2) have fresh: "i \<notin> sys_ids s" if "granted_id op = Some i" for i
    using that by blast
  have "fence_inv (lease_holder (sys_terminal s)) (lease_high (sys_terminal s)) (sys_ids s) (sys_log s)"
    using called.IH by blast
  from input.fence_step [OF this x fresh] exec_pty [OF x] called.IH show ?case
    by (simp add: lease_system_exec_def x)
qed

section \<open>Recovery authority\<close>

text \<open>The operations that may end the authority of client \<open>c\<close> with proof \<open>tok\<close> and lease \<open>i\<close>:
  a takeover, the client presenting its own proof, and the explicit release of the lease.\<close>

fun contests :: "string \<Rightarrow> string \<Rightarrow> string \<Rightarrow> lease_op \<Rightarrow> bool" where
  "contests c tok i (Acquire nt ni ro to rt ttl client now) =
    (\<not> ro \<and> (to \<or> client = Some c \<and> rt = tok))"
| "contests c tok i (Release_command i' q now) = (i' = i)"
| "contests c tok i op = False"

definition run_terminal ::
  "(string \<Rightarrow> bool) \<Rightarrow> ('g \<Rightarrow> TerminalSize \<Rightarrow> 'g) \<Rightarrow> lease_op list \<Rightarrow> 'g Terminal \<Rightarrow> 'g Terminal" where
  "run_terminal canonical gr ops t = fold (\<lambda>op t. fst (exec canonical gr op t)) ops t"

lemma run_terminal_simps [simp]:
  "run_terminal canonical gr [] t = t"
  "run_terminal canonical gr (op # ops) t = run_terminal canonical gr ops (fst (exec canonical gr op t))"
  by (simp_all add: run_terminal_def)

lemma exec_fst:
  "fst (exec canonical gr (Acquire nt ni ro to rt ttl client now) t) =
    fst (acquire_resumable_lease_at canonical nt ni t ro to rt ttl client now)"
  "fst (exec canonical gr (Renew i q d now now') t) = fst (renew_lease_at t i q d now now')"
  "fst (exec canonical gr (Release_command i q now) t) = fst (release_lease_command t i q now)"
  "fst (exec canonical gr (Expire i now) t) = fst (expire_lease_if_due_at t i now)"
  "fst (exec canonical gr (Detach i) t) = release_lease t i"
  "fst (exec canonical gr (Input wout i q bs now) t) = fst (write_input wout t i q bs now)"
  "fst (exec canonical gr (Resize rout i q rows cols pw ph now) t) =
    fst (resize gr rout t i q rows cols pw ph now)"
  by (simp_all add: split_beta)

text \<open>\<open>authority t c tok i g\<close>: client \<open>c\<close> may resume with \<open>tok\<close> at generation \<open>g\<close>, and nobody
  but the holder of lease \<open>i\<close> can type.\<close>

definition authority :: "'g Terminal \<Rightarrow> string \<Rightarrow> string \<Rightarrow> string \<Rightarrow> u64 \<Rightarrow> bool" where
  "authority t c tok i g \<longleftrightarrow>
    recovery t = Some \<lparr> ir_client_id = c, ir_token = tok \<rparr> \<and> recovery_generation t = g \<and>
    (lease_holder t = None \<or> lease_holder t = Some i)"

lemma authority_expired:
  assumes "authority t c tok i g" "at_most_expired t t'"
  shows "authority t' c tok i g"
  using assms at_most_expired_sel [OF assms(2)] at_most_expired_holder [OF assms(2)]
  by (auto simp: authority_def)

lemma authority_lease:
  assumes "authority t c tok i g" "recovery t' = recovery t"
    "recovery_generation t' = recovery_generation t"
    "lease_holder t' = None \<or> lease_holder t' = lease_holder t"
  shows "authority t' c tok i g"
  using assms by (auto simp: authority_def)

lemma commands_keep_authority:
  assumes a: "authority t c tok i g"
  shows "authority (fst (renew_lease_at t i' q ttl now now')) c tok i g"
    "authority (fst (write_input wout t i' q bs now)) c tok i g"
    "authority (fst (resize gr rout t i' q rows cols pw ph now)) c tok i g"
    "i' \<noteq> i \<Longrightarrow> authority (fst (release_lease_command t i' q now)) c tok i g"
proof -
  obtain t1 r where v: "validate_lease_at t i' q now = (t1, r)" by (cases "validate_lease_at t i' q now")
  have t1: "authority t1 c tok i g" by (rule authority_expired [OF a validate_at_most_expired [OF v]])
  have held: "lease t1 = Some x \<and> le_id x = i'" if "r = Inr x" for x
    using v that by (auto simp: validate_lease_Inr)
  note defs = set_last_sequence_def lease_holder_def map_option.compositionality o_def
  show "authority (fst (renew_lease_at t i' q ttl now now')) c tok i g"
  proof (cases r)
    case (Inr x)
    then show ?thesis
      using held [OF Inr]
      by (intro authority_lease [OF t1]) (simp_all add: renew_lease_at_def v lease_holder_def)
  qed (simp add: renew_lease_at_def v t1)
  show "authority (fst (write_input wout t i' q bs now)) c tok i g"
    using t1 by (cases r; cases wout)
      (auto intro!: authority_lease [OF t1] simp: write_input_def v defs)
  show "authority (fst (resize gr rout t i' q rows cols pw ph now)) c tok i g"
    using a t1 by (cases r; cases rout)
      (auto intro!: authority_lease [OF t1] simp: resize_def v defs split: sum.split prod.split)
  show "authority (fst (release_lease_command t i' q now)) c tok i g" if "i' \<noteq> i"
  proof (cases r)
    case (Inr x)
    then show ?thesis using held [OF Inr] that t1 by (simp add: authority_def lease_holder_def)
  qed (simp add: release_lease_command_def v t1)
qed

lemma acquire_keeps_authority:
  assumes a: "authority t c tok i g" and no: "ro \<or> \<not> to \<and> \<not> (client = Some c \<and> rt = tok)"
    and q: "acquire_resumable_lease_at canonical nt ni t ro to rt ttl client now = (t', r)"
  shows "authority t' c tok i g \<and> (ro \<or> \<not> is_ok r)"
  using q
proof (cases rule: acquire_cases)
  case (refused e)
  then show ?thesis using authority_expired [OF a] by simp
next
  case (reader gr)
  then show ?thesis using a by simp
next
  case resumed
  then show ?thesis
    using no a at_most_expired_sel(1) [OF expire_current_at_most_expired [of t now]]
    by (auto simp: resume_authorized_def authority_def split: option.splits)
next
  case (fresh n)
  then show ?thesis using no a by (auto simp: authority_def)
qed

lemma exec_keeps_authority:
  assumes a: "authority t c tok i g" and no: "\<not> contests c tok i op"
  shows "authority (fst (exec canonical gr op t)) c tok i g"
proof (cases op)
  case (Acquire nt ni ro to rt ttl client now)
  obtain t' r where q: "acquire_resumable_lease_at canonical nt ni t ro to rt ttl client now = (t', r)"
    by (cases "acquire_resumable_lease_at canonical nt ni t ro to rt ttl client now")
  have "ro \<or> \<not> to \<and> \<not> (client = Some c \<and> rt = tok)" using no Acquire by auto
  from acquire_keeps_authority [OF a this q] show ?thesis by (simp add: Acquire q exec_fst del: exec.simps)
next
  case (Expire j now)
  then show ?thesis
    using authority_expired [OF a expire_lease_at_most_expired [of t j now]] by (simp add: exec_fst del: exec.simps)
next
  case (Detach j)
  then show ?thesis
    using a by (auto simp: release_lease_def authority_def lease_holder_def)
next
  case (Renew j q ttl now now')
  then show ?thesis using commands_keep_authority(1) [OF a, of j q ttl now now'] by (simp add: exec_fst del: exec.simps)
next
  case (Release_command j q now)
  then show ?thesis using no commands_keep_authority(4) [OF a, of j q now] by (simp add: exec_fst del: exec.simps)
next
  case (Input out j q bs now)
  then show ?thesis using commands_keep_authority(2) [OF a, of out j q bs now] by (simp add: exec_fst del: exec.simps)
next
  case (Resize out j q rows cols pw ph now)
  then show ?thesis
    using commands_keep_authority(3) [OF a, of gr out j q rows cols pw ph now] by (simp add: exec_fst del: exec.simps)
qed

lemma run_keeps_authority:
  assumes "authority t c tok i g" "list_all (\<lambda>op. \<not> contests c tok i op) ops"
  shows "authority (run_terminal canonical gr ops t) c tok i g"
  using assms by (induction ops arbitrary: t) (simp_all add: exec_keeps_authority)

lemma authority_resumes:
  assumes a: "authority t c tok i g" and "canonical c" "tok \<noteq> []" "length tok \<le> 128"
  shows "\<exists>t' grant.
    acquire_resumable_lease_at canonical nt ni t False False tok ttl (Some c) now = (t', Inr grant) \<and>
    authority t' c tok ni g \<and> lease_holder t' = Some ni \<and> lg_lease_id grant = ni \<and>
    lg_resume_token grant = tok \<and> lg_recovery_generation grant = g"
proof -
  note sel = at_most_expired_sel(1,2) [OF expire_current_at_most_expired [of t now]]
  have "resume_authorized (expire_current t now) (Some c) tok"
    using a sel by (simp add: resume_authorized_def authority_def)
  then show ?thesis
    using assms sel
    by (simp add: acquire_resumable_lease_at_def grant_lease_def authority_def lease_holder_def Let_def)
qed

text \<open>A token that neither the lease nor the recovery record carries can never be brought
  back by presenting it: tokens only enter the terminal from \<^verbatim>\<open>Uuid::new_v4\<close>.\<close>

definition revoked :: "string \<Rightarrow> 'g Terminal \<Rightarrow> bool" where
  "revoked tok t \<longleftrightarrow>
    (\<forall>r. recovery t = Some r \<longrightarrow> ir_token r \<noteq> tok) \<and>
    (\<forall>l. lease t = Some l \<longrightarrow> le_resume_token l \<noteq> tok)"

fun issues_token :: "string \<Rightarrow> lease_op \<Rightarrow> bool" where
  "issues_token tok (Acquire nt ni ro to rt ttl client now) = (nt = tok)"
| "issues_token tok op = False"

lemma revoked_expired:
  "revoked tok t \<Longrightarrow> at_most_expired t t' \<Longrightarrow> revoked tok t'"
  using at_most_expired_sel(1,4) [of t t'] by (auto simp: revoked_def)

lemma revoked_weaker:
  assumes "revoked tok t" "recovery t' = recovery t \<or> recovery t' = None"
    and "\<And>l'. lease t' = Some l' \<Longrightarrow> \<exists>l. lease t = Some l \<and> le_resume_token l' = le_resume_token l"
  shows "revoked tok t'"
proof -
  have "le_resume_token l' \<noteq> tok" if l': "lease t' = Some l'" for l'
  proof -
    from assms(3) [OF l'] obtain l where "lease t = Some l" "le_resume_token l' = le_resume_token l"
      by blast
    then show ?thesis using assms(1) by (simp add: revoked_def)
  qed
  moreover have "ir_token r \<noteq> tok" if "recovery t' = Some r" for r
    using assms(1,2) that by (auto simp: revoked_def)
  ultimately show ?thesis by (simp add: revoked_def)
qed

lemma acquire_keeps_revoked:
  assumes a: "revoked tok t" and no: "nt \<noteq> tok"
    and q: "acquire_resumable_lease_at canonical nt ni t ro to rt ttl client now = (t', r)"
  shows "revoked tok t' \<and> (is_ok r \<and> \<not> ro \<and> \<not> to \<and> rt \<noteq> [] \<longrightarrow> rt \<noteq> tok)"
  using q
proof (cases rule: acquire_cases)
  case (refused e)
  then show ?thesis using revoked_expired [OF a] by simp
next
  case (reader gr)
  then show ?thesis using a by simp
next
  case resumed
  have "revoked tok (expire_current t now)"
    by (rule revoked_expired [OF a expire_current_at_most_expired])
  then have rt: "rt \<noteq> tok"
    using resumed(4) by (auto simp: resume_authorized_def revoked_def split: option.splits)
  have "t' = fst (grant_lease (expire_current t now) client rt ni (recovery_generation t) ttl now)"
    using resumed(5) by (metis fst_conv)
  then have "revoked tok t'" using rt by (auto simp: revoked_def grant_lease_def)
  then show ?thesis using rt by blast
next
  case (fresh n)
  have "t' = fst (grant_lease ((expire_current t now)\<lparr> recovery_generation := n \<rparr>) client nt ni n ttl now)"
    using fresh(5) by (metis fst_conv)
  then have "revoked tok t'" using no by (auto simp: revoked_def grant_lease_def)
  then show ?thesis using fresh(3) by blast
qed

lemma commands_keep_revoked:
  assumes a: "revoked tok t"
  shows "revoked tok (fst (renew_lease_at t i' q ttl now now'))"
    "revoked tok (fst (write_input wout t i' q bs now))"
    "revoked tok (fst (resize gr rout t i' q rows cols pw ph now))"
    "revoked tok (fst (release_lease_command t i' q now))"
proof -
  obtain t1 r where v: "validate_lease_at t i' q now = (t1, r)" by (cases "validate_lease_at t i' q now")
  have t1: "revoked tok t1" by (rule revoked_expired [OF a validate_at_most_expired [OF v]])
  have held: "lease t1 = Some x" if "r = Inr x" for x
    using v that by (auto simp: validate_lease_Inr)
  show "revoked tok (fst (renew_lease_at t i' q ttl now now'))"
  proof (cases r)
    case (Inr x)
    then show ?thesis
      using held [OF Inr] by (intro revoked_weaker [OF t1]) (auto simp: renew_lease_at_def v)
  qed (simp add: renew_lease_at_def v t1)
  show "revoked tok (fst (write_input wout t i' q bs now))"
    using t1 by (cases r; cases wout)
      (auto intro!: revoked_weaker [OF t1] simp: write_input_def v set_last_sequence_def)
  show "revoked tok (fst (resize gr rout t i' q rows cols pw ph now))"
    using a t1 by (cases r; cases rout)
      (auto intro!: revoked_weaker [OF t1] simp: resize_def v set_last_sequence_def
        split: sum.split prod.split)
  show "revoked tok (fst (release_lease_command t i' q now))"
    using t1 by (cases r) (simp_all add: release_lease_command_def v revoked_def)
qed

lemma exec_keeps_revoked:
  assumes a: "revoked tok t" and no: "\<not> issues_token tok op"
  shows "revoked tok (fst (exec canonical gr op t))"
proof (cases op)
  case (Acquire nt ni ro to rt ttl client now)
  obtain t' r where q: "acquire_resumable_lease_at canonical nt ni t ro to rt ttl client now = (t', r)"
    by (cases "acquire_resumable_lease_at canonical nt ni t ro to rt ttl client now")
  have "nt \<noteq> tok" using no Acquire by auto
  from acquire_keeps_revoked [OF a this q] show ?thesis by (simp add: Acquire q exec_fst del: exec.simps)
next
  case (Expire j now)
  then show ?thesis
    using revoked_expired [OF a expire_lease_at_most_expired [of t j now]] by (simp add: exec_fst del: exec.simps)
next
  case (Detach j)
  then show ?thesis using a by (auto simp: release_lease_def revoked_def)
next
  case (Renew j q ttl now now')
  then show ?thesis using commands_keep_revoked(1) [OF a, of j q ttl now now'] by (simp add: exec_fst del: exec.simps)
next
  case (Release_command j q now)
  then show ?thesis using commands_keep_revoked(4) [OF a, of j q now] by (simp add: exec_fst del: exec.simps)
next
  case (Input out j q bs now)
  then show ?thesis using commands_keep_revoked(2) [OF a, of out j q bs now] by (simp add: exec_fst del: exec.simps)
next
  case (Resize out j q rows cols pw ph now)
  then show ?thesis
    using commands_keep_revoked(3) [OF a, of gr out j q rows cols pw ph now] by (simp add: exec_fst del: exec.simps)
qed

lemma run_keeps_revoked:
  assumes "revoked tok t" "list_all (\<lambda>op. \<not> issues_token tok op) ops"
  shows "revoked tok (run_terminal canonical gr ops t)"
  using assms by (induction ops arbitrary: t) (simp_all add: exec_keeps_revoked)

section \<open>Concrete runs\<close>

definition demo_terminal :: "unit Terminal" where
  "demo_terminal = \<lparr> info_rows = 24, info_cols = 80,
     engine = \<lparr> cached_viewport = None, grid = () \<rparr>, pty_input = [],
     pty_size = \<lparr> pty_rows = 24, pty_cols = 80, pty_pixel_width = 0, pty_pixel_height = 0 \<rparr>,
     lease = None, recovery = None, recovery_generation = 0, lease_events = [] \<rparr>"

definition demo_uuid :: "string \<Rightarrow> bool" where
  "demo_uuid i = (i \<in> {''laptop'', ''phone''})"

definition demo_grid :: "unit \<Rightarrow> TerminalSize \<Rightarrow> unit" where
  "demo_grid g sz = ()"

text \<open>The laptop acquires the terminal and types; the phone takes over and types; the
  laptop's next keystroke comes too late.\<close>

definition demo_ops :: "lease_op list" where
  "demo_ops =
    [Acquire ''T1'' ''L1'' False False [] (Some 15) (Some ''laptop'') 0,
     Input Wrote_all ''L1'' 1 [108] 1,
     Acquire ''T2'' ''L2'' False True [] (Some 15) (Some ''phone'') 2,
     Input Wrote_all ''L2'' 1 [112] 3,
     Input Wrote_all ''L1'' 2 [115] 4]"

lemma reachable_run:
  assumes "lease_reachable canonical gr s"
    and "distinct (List.map_filter granted_id ops)"
    and "set (List.map_filter granted_id ops) \<inter> insert [] (sys_ids s) = {}"
  shows "lease_reachable canonical gr (fold (lease_system_exec canonical gr) ops s)"
  using assms
proof (induction ops arbitrary: s)
  case (Cons op ops)
  have "lease_reachable canonical gr (lease_system_exec canonical gr op s)"
    by (rule called) (use Cons.prems in \<open>auto split: option.splits\<close>)
  moreover have "sys_ids (lease_system_exec canonical gr op s) = sys_ids s \<union> set_option (granted_id op)"
    by (simp add: lease_system_exec_def split_beta)
  ultimately show ?case
    using Cons.prems by (auto intro!: Cons.IH split: option.splits)
qed simp

definition demo_system :: "unit lease_system" where
  "demo_system = fold (lease_system_exec demo_uuid demo_grid) demo_ops
     \<lparr> sys_terminal = demo_terminal, sys_log = [], sys_ids = {} \<rparr>"

lemma demo_system_reachable: "lease_reachable demo_uuid demo_grid demo_system"
  unfolding demo_system_def
  by (rule reachable_run, rule spawned)
    (simp_all add: demo_terminal_def demo_ops_def)

lemmas lease_eval = lease_system_exec_def acquire_resumable_lease_at_def grant_lease_def
  expire_current_def resume_authorized_def write_input_def validate_lease_at_def
  expire_lease_if_due_at_def lease_due_def set_last_sequence_def outcome_of_def log_of_def
  checked_add_def revoke_def bail_def Let_def

lemma demo_system_log:
  "sys_log demo_system =
    [\<lparr> c_lease = ''L1'', c_sequence = 1, c_done = True, c_bytes = [108] \<rparr>,
     \<lparr> c_lease = ''L2'', c_sequence = 1, c_done = True, c_bytes = [112] \<rparr>]"
  by (simp add: demo_system_def demo_ops_def demo_terminal_def demo_uuid_def lease_eval)



text \<open>C7. A disconnected device keeps its input authority: after any calls that neither
  take the terminal over nor present the device's own credential nor release its lease
  by command, no other grant has been made, and the device resumes with its credential
  at its old generation whatever happened to its lease meanwhile.\<close>

theorem recovery_survives_disconnection:
  assumes "authority t c tok i g"
    and "list_all (\<lambda>op. \<not> contests c tok i op) ops"
    and "canonical c" "tok \<noteq> []" "length tok \<le> 128"
    and "t' = run_terminal canonical gr ops t"
  shows "authority t' c tok i g \<and>
    (\<exists>t'' grant.
      acquire_resumable_lease_at canonical nt ni t' False False tok ttl (Some c) now = (t'', Inr grant) \<and>
      authority t'' c tok ni g \<and> lease_holder t'' = Some ni \<and> lg_lease_id grant = ni \<and>
      lg_resume_token grant = tok \<and> lg_recovery_generation grant = g)"
  using run_keeps_authority [OF assms(1,2)] authority_resumes assms(3-6) by blast

definition demo_owned :: "unit Terminal" where
  "demo_owned = fst (acquire_resumable_lease_at demo_uuid ''T1'' ''L1'' demo_terminal False False []
     (Some 15) (Some ''laptop'') 0)"

definition demo_meanwhile :: "lease_op list" where
  "demo_meanwhile =
    [Detach ''L1'', Acquire ''T2'' ''L2'' False False [] (Some 15) (Some ''phone'') 20,
     Input Wrote_all ''L1'' 1 [112] 21]"

lemma demo_owned_authority: "authority demo_owned ''laptop'' ''T1'' ''L1'' 1"
  by (simp add: demo_owned_def demo_terminal_def demo_uuid_def lease_eval authority_def lease_holder_def)

theorem recovery_survives_disconnection_witness:
  "authority (run_terminal demo_uuid demo_grid demo_meanwhile demo_owned) ''laptop'' ''T1'' ''L1'' 1 \<and>
    is_ok (snd (acquire_resumable_lease_at demo_uuid ''T3'' ''L3''
      (run_terminal demo_uuid demo_grid demo_meanwhile demo_owned) False False ''T1'' (Some 15)
      (Some ''laptop'') 30))"
  using recovery_survives_disconnection [OF demo_owned_authority, of demo_meanwhile demo_uuid
      "run_terminal demo_uuid demo_grid demo_meanwhile demo_owned" demo_grid "''T3''" "''L3''" "Some 15" 30]
  by (auto simp: demo_meanwhile_def demo_uuid_def)

text \<open>C28. A superseded credential is dead: once neither the lease nor the recovery
  record carries a token, no later sequence of calls makes the terminal accept it again
  for a resume, for any client, unless the identifier generator repeats it.\<close>

theorem revoked_token_never_resumes:
  assumes "revoked tok t" and "list_all (\<lambda>op. \<not> issues_token tok op) ops"
    and "tok \<noteq> []" "nt \<noteq> tok"
  shows "\<not> is_ok (snd (acquire_resumable_lease_at canonical nt ni (run_terminal canonical gr ops t)
    False False tok ttl client now))"
proof (cases "acquire_resumable_lease_at canonical nt ni (run_terminal canonical gr ops t)
    False False tok ttl client now")
  case (Pair t' r)
  from acquire_keeps_revoked [OF run_keeps_revoked [OF assms(1,2)] assms(4) Pair] assms(3)
  show ?thesis by (simp add: Pair)
qed

definition demo_taken_over :: "unit Terminal" where
  "demo_taken_over = fst (acquire_resumable_lease_at demo_uuid ''T2'' ''L2'' demo_owned False True []
     (Some 15) (Some ''phone'') 2)"

lemma demo_taken_over_revoked: "revoked ''T1'' demo_taken_over"
  by (simp add: demo_taken_over_def demo_owned_def demo_terminal_def demo_uuid_def lease_eval revoked_def)

theorem revoked_token_never_resumes_witness:
  "\<not> is_ok (snd (acquire_resumable_lease_at demo_uuid ''T3'' ''L3''
    (run_terminal demo_uuid demo_grid [Detach ''L2''] demo_taken_over) False False ''T1'' None
    (Some ''laptop'') 9))"
  by (rule revoked_token_never_resumes [OF demo_taken_over_revoked]) simp_all

end
