(* ===== verification/Negotiation.thy ===== *)
theory Negotiation
  imports Ordered_Map
begin

text \<open>
  Protocol and capability negotiation (\<^verbatim>\<open>negotiation.rs\<close>): what a client offers, what
  the gateway selects, and the two places that check the selection again, the client
  and the worker. The gateway prunes capabilities whose prerequisites were not
  negotiated; both checks refuse such selections, so the pruning and the checks have
  to agree.
\<close>

section \<open>Data\<close>

definition MAX_CAPABILITIES :: usize where
  "MAX_CAPABILITIES = 64"

definition MAX_CAPABILITY_NAME_BYTES :: usize where
  "MAX_CAPABILITY_NAME_BYTES = 64"

definition CAPABILITY_LEGACY_ANSI_SNAPSHOT :: string where
  "CAPABILITY_LEGACY_ANSI_SNAPSHOT = ''terminal.legacy_ansi_snapshot''"

definition CAPABILITY_SEMANTIC_STATE :: string where
  "CAPABILITY_SEMANTIC_STATE = ''terminal.semantic_state''"

definition CAPABILITY_HISTORY_PAGING :: string where
  "CAPABILITY_HISTORY_PAGING = ''terminal.history_paging''"

definition CAPABILITY_DATAGRAM_STATE :: string where
  "CAPABILITY_DATAGRAM_STATE = ''terminal.datagram_state''"

definition CAPABILITY_STATE_ACK :: string where
  "CAPABILITY_STATE_ACK = ''terminal.state_ack''"

definition CAPABILITY_SEMANTIC_DIFF :: string where
  "CAPABILITY_SEMANTIC_DIFF = ''terminal.semantic_diff''"

definition CAPABILITY_CLIPBOARD_WRITE :: string where
  "CAPABILITY_CLIPBOARD_WRITE = ''terminal.clipboard_write''"

definition CAPABILITY_SESSION_OBJECTS :: string where
  "CAPABILITY_SESSION_OBJECTS = ''session.objects''"

definition CAPABILITY_INPUT_RESUME :: string where
  "CAPABILITY_INPUT_RESUME = ''terminal.input_resume''"

definition CAPABILITY_INPUT_LEASE :: string where
  "CAPABILITY_INPUT_LEASE = ''terminal.input_lease''"

definition CAPABILITY_PAYLOAD_ZSTD :: string where
  "CAPABILITY_PAYLOAD_ZSTD = ''payload.zstd''"

definition CAPABILITY_TCP_FORWARD :: string where
  "CAPABILITY_TCP_FORWARD = ''forward.tcp''"

definition CAPABILITY_STREAM_CHANNELS :: string where
  "CAPABILITY_STREAM_CHANNELS = ''transport.stream_channels''"

lemmas capability_names = CAPABILITY_LEGACY_ANSI_SNAPSHOT_def CAPABILITY_SEMANTIC_STATE_def
  CAPABILITY_HISTORY_PAGING_def CAPABILITY_DATAGRAM_STATE_def CAPABILITY_STATE_ACK_def
  CAPABILITY_SEMANTIC_DIFF_def CAPABILITY_CLIPBOARD_WRITE_def CAPABILITY_SESSION_OBJECTS_def
  CAPABILITY_INPUT_RESUME_def CAPABILITY_INPUT_LEASE_def CAPABILITY_PAYLOAD_ZSTD_def
  CAPABILITY_TCP_FORWARD_def CAPABILITY_STREAM_CHANNELS_def

definition MINIMUM_PROTOCOL_VERSION :: u32 where
  "MINIMUM_PROTOCOL_VERSION = 1"

definition PROTOCOL_VERSION :: u32 where
  "PROTOCOL_VERSION = 2"

definition LEGACY_CLIENT_HELLO_VERSION :: u32 where
  "LEGACY_CLIENT_HELLO_VERSION = 1"

record CapabilityRange =
  cr_name :: string
  cr_minimum_version :: u32
  cr_maximum_version :: u32

record ProtocolSupport =
  ps_minimum_version :: u32
  ps_maximum_version :: u32
  ps_capabilities :: "CapabilityRange list"

text \<open>\<^verbatim>\<open>CapabilityOffer\<close> has the fields of \<^verbatim>\<open>CapabilityRange\<close>.\<close>

type_synonym CapabilityOffer = CapabilityRange

record CapabilitySelection =
  cs_name :: string
  cs_version :: u32

record ClientHello =
  ch_protocol_version :: u32
  ch_username :: string
  ch_minimum_protocol_version :: u32
  ch_maximum_protocol_version :: u32
  ch_capabilities :: "CapabilityOffer list"

record ServerHello =
  sh_protocol_version :: u32
  sh_challenge :: bytes
  sh_server_instance :: string
  sh_capabilities :: "CapabilitySelection list"

record NegotiatedProtocol =
  np_version :: u32
  np_capabilities :: "(string, u32) btree"

definition capability_range :: "string \<Rightarrow> u32 \<Rightarrow> u32 \<Rightarrow> CapabilityRange" where
  "capability_range name lo hi =
    \<lparr> cr_name = name, cr_minimum_version = lo, cr_maximum_version = hi \<rparr>"

definition ProtocolSupport_runtime :: ProtocolSupport where
  "ProtocolSupport_runtime = \<lparr>
    ps_minimum_version = MINIMUM_PROTOCOL_VERSION,
    ps_maximum_version = PROTOCOL_VERSION,
    ps_capabilities = [
      capability_range CAPABILITY_TCP_FORWARD 1 1,
      capability_range CAPABILITY_STREAM_CHANNELS 1 1,
      capability_range CAPABILITY_PAYLOAD_ZSTD 1 1,
      capability_range CAPABILITY_LEGACY_ANSI_SNAPSHOT 1 1,
      capability_range CAPABILITY_SEMANTIC_STATE 2 2,
      capability_range CAPABILITY_HISTORY_PAGING 1 1,
      capability_range CAPABILITY_STATE_ACK 1 1,
      capability_range CAPABILITY_SEMANTIC_DIFF 1 1,
      capability_range CAPABILITY_DATAGRAM_STATE 2 2,
      capability_range CAPABILITY_CLIPBOARD_WRITE 1 1,
      capability_range CAPABILITY_SESSION_OBJECTS 1 1,
      capability_range CAPABILITY_INPUT_RESUME 2 2,
      capability_range CAPABILITY_INPUT_LEASE 1 1] \<rparr>"

definition command_line_client :: ProtocolSupport where
  "command_line_client = \<lparr>
    ps_minimum_version = MINIMUM_PROTOCOL_VERSION,
    ps_maximum_version = PROTOCOL_VERSION,
    ps_capabilities = [
      capability_range CAPABILITY_TCP_FORWARD 1 1,
      capability_range CAPABILITY_STREAM_CHANNELS 1 1,
      capability_range CAPABILITY_LEGACY_ANSI_SNAPSHOT 1 1,
      capability_range CAPABILITY_PAYLOAD_ZSTD 1 1] \<rparr>"

definition rust_semantic_client :: ProtocolSupport where
  "rust_semantic_client = ProtocolSupport_runtime"

definition server_protocol_support :: "bool \<Rightarrow> bool \<Rightarrow> bool \<Rightarrow> ProtocolSupport" where
  "server_protocol_support tcp_forwarding terminal_datagrams rootless =
    (let support = ProtocolSupport_runtime;
       raised = map (\<lambda>c. if cr_name c = CAPABILITY_DATAGRAM_STATE
                         then c\<lparr> cr_maximum_version := 3 \<rparr> else c) (ps_capabilities support)
     in support\<lparr> ps_capabilities := filter (\<lambda>c.
          (tcp_forwarding \<or> cr_name c \<noteq> CAPABILITY_TCP_FORWARD) \<and>
          (terminal_datagrams \<or> cr_name c \<noteq> CAPABILITY_DATAGRAM_STATE)) raised \<rparr>)"

section \<open>Operations\<close>

definition NegotiatedProtocol_has :: "NegotiatedProtocol \<Rightarrow> string \<Rightarrow> u32 \<Rightarrow> bool" where
  "NegotiatedProtocol_has n name minimum_version =
    (case bt_get (np_capabilities n) name of None \<Rightarrow> False | Some v \<Rightarrow> v \<ge> minimum_version)"

definition client_hello :: "string \<Rightarrow> ProtocolSupport \<Rightarrow> ClientHello" where
  "client_hello username support = \<lparr>
    ch_protocol_version = LEGACY_CLIENT_HELLO_VERSION,
    ch_username = username,
    ch_minimum_protocol_version = ps_minimum_version support,
    ch_maximum_protocol_version = ps_maximum_version support,
    ch_capabilities = map (\<lambda>c. capability_range (cr_name c) (cr_minimum_version c)
      (cr_maximum_version c)) (ps_capabilities support) \<rparr>"

definition is_ascii_lowercase :: "char \<Rightarrow> bool" where
  "is_ascii_lowercase c \<longleftrightarrow> CHR ''a'' \<le> c \<and> c \<le> CHR ''z''"

definition is_ascii_digit :: "char \<Rightarrow> bool" where
  "is_ascii_digit c \<longleftrightarrow> CHR ''0'' \<le> c \<and> c \<le> CHR ''9''"

definition validate_capability_name :: "string \<Rightarrow> unit result" where
  "validate_capability_name name =
    (if \<not> (name \<noteq> [] \<and> length name \<le> MAX_CAPABILITY_NAME_BYTES \<and>
          list_all (\<lambda>b. is_ascii_lowercase b \<or> is_ascii_digit b \<or> b = CHR ''.'' \<or> b = CHR ''_'') name)
     then bail ''invalid protocol capability name'' else Inr ())"

text \<open>\<^verbatim>\<open>ensure!(map.insert(k, v).is_none())\<close>\<close>

definition insert_unique ::
  "string \<Rightarrow> 'k::linorder \<Rightarrow> 'v \<Rightarrow> ('k, 'v) btree \<Rightarrow> ('k, 'v) btree result" where
  "insert_unique msg k v m = (if bt_get m k \<noteq> None then bail msg else Inr (bt_insert k v m))"

definition validate_support :: "ProtocolSupport \<Rightarrow> unit result" where
  "validate_support support =
    (if \<not> (ps_minimum_version support > 0 \<and> ps_minimum_version support \<le> ps_maximum_version support)
       then bail ''server protocol support range is invalid''
     else if \<not> length (ps_capabilities support) \<le> MAX_CAPABILITIES
       then bail ''server supports too many capabilities''
     else and_then (try_fold (\<lambda>names c.
        and_then (validate_capability_name (cr_name c)) (\<lambda>_.
        if \<not> (cr_minimum_version c > 0 \<and> cr_minimum_version c \<le> cr_maximum_version c)
          then bail ''server capability {} has an invalid version range''
        else insert_unique ''server capability {} is duplicated'' (cr_name c) () names))
        [] (ps_capabilities support)) (\<lambda>_. Inr ()))"

definition validate_offers :: "CapabilityOffer list \<Rightarrow> (string, u32 \<times> u32) btree result" where
  "validate_offers offers =
    (if \<not> length offers \<le> MAX_CAPABILITIES then bail ''client offered too many capabilities''
     else try_fold (\<lambda>res offer.
        and_then (validate_capability_name (cr_name offer)) (\<lambda>_.
        if \<not> (cr_minimum_version offer > 0 \<and> cr_minimum_version offer \<le> cr_maximum_version offer)
          then bail ''client capability {} has an invalid version range''
        else insert_unique ''client capability {} is duplicated'' (cr_name offer)
          (cr_minimum_version offer, cr_maximum_version offer) res))
        [] offers)"

definition hello_version_range :: "ClientHello \<Rightarrow> (u32 \<times> u32) result" where
  "hello_version_range hello =
    (if ch_minimum_protocol_version hello = 0 \<and> ch_maximum_protocol_version hello = 0 then
       (if \<not> ch_protocol_version hello > 0 then bail ''legacy client protocol version is zero''
        else Inr (ch_protocol_version hello, ch_protocol_version hello))
     else if \<not> (ch_minimum_protocol_version hello > 0 \<and>
                ch_minimum_protocol_version hello \<le> ch_maximum_protocol_version hello)
       then bail ''client protocol version range is invalid''
     else if \<not> (ch_minimum_protocol_version hello \<le> ch_protocol_version hello \<and>
                ch_protocol_version hello \<le> ch_maximum_protocol_version hello)
       then bail ''legacy protocol hint is outside the advertised client range''
     else Inr (ch_minimum_protocol_version hello, ch_maximum_protocol_version hello))"

text \<open>The test on the semantic state that guards most capabilities.\<close>

definition contains_key :: "('k, 'v) btree \<Rightarrow> 'k \<Rightarrow> bool" where
  "contains_key m k \<longleftrightarrow> bt_get m k \<noteq> None"

definition semantic_v2 :: "(string, u32) btree \<Rightarrow> bool" where
  "semantic_v2 m = (case bt_get m CAPABILITY_SEMANTIC_STATE of None \<Rightarrow> False | Some v \<Rightarrow> v \<ge> 2)"

definition validate_capability_dependencies :: "(string, u32) btree \<Rightarrow> unit result" where
  "validate_capability_dependencies m =
    (if \<not> (\<not> contains_key m CAPABILITY_TCP_FORWARD \<or> contains_key m CAPABILITY_STREAM_CHANNELS)
       then bail ''forward.tcp requires transport.stream_channels v1''
     else if \<not> (\<not> contains_key m CAPABILITY_CLIPBOARD_WRITE \<or> semantic_v2 m)
       then bail ''terminal.clipboard_write requires terminal.semantic_state v2''
     else if \<not> (\<not> contains_key m CAPABILITY_HISTORY_PAGING \<or> semantic_v2 m)
       then bail ''terminal.history_paging requires terminal.semantic_state v2''
     else if \<not> (\<not> contains_key m CAPABILITY_STATE_ACK \<or> semantic_v2 m)
       then bail ''terminal.state_ack requires terminal.semantic_state v2''
     else if \<not> (\<not> contains_key m CAPABILITY_SEMANTIC_DIFF \<or>
                (contains_key m CAPABILITY_STATE_ACK \<and> semantic_v2 m))
       then bail ''terminal.semantic_diff requires terminal.state_ack and terminal.semantic_state v2''
     else if \<not> (\<not> contains_key m CAPABILITY_DATAGRAM_STATE \<or>
                (contains_key m CAPABILITY_STATE_ACK \<and> contains_key m CAPABILITY_SESSION_OBJECTS \<and>
                 semantic_v2 m))
       then bail ''terminal.datagram_state requires terminal.state_ack, session.objects, and terminal.semantic_state v2''
     else if \<not> (\<not> contains_key m CAPABILITY_INPUT_LEASE \<or> contains_key m CAPABILITY_SESSION_OBJECTS)
       then bail ''terminal.input_lease requires session.objects v1''
     else if \<not> (\<not> contains_key m CAPABILITY_INPUT_RESUME \<or> contains_key m CAPABILITY_INPUT_LEASE)
       then bail ''terminal.input_resume requires terminal.input_lease v1''
     else Inr ())"

definition prune :: "string \<Rightarrow> ((string, u32) btree \<Rightarrow> bool) \<Rightarrow> (string, u32) btree \<Rightarrow> (string, u32) btree" where
  "prune name unmet m = (if contains_key m name \<and> unmet m then bt_remove name m else m)"

text \<open>The sequence of conditional removals after the loop, in source order.\<close>

definition prune_dependencies :: "(string, u32) btree \<Rightarrow> (string, u32) btree" where
  "prune_dependencies m0 =
    (let m1 = prune CAPABILITY_CLIPBOARD_WRITE (\<lambda>m. \<not> semantic_v2 m) m0;
         m2 = prune CAPABILITY_HISTORY_PAGING (\<lambda>m. \<not> semantic_v2 m) m1;
         m3 = prune CAPABILITY_STATE_ACK (\<lambda>m. \<not> semantic_v2 m) m2;
         m4 = prune CAPABILITY_SEMANTIC_DIFF
                (\<lambda>m. \<not> contains_key m CAPABILITY_STATE_ACK \<or> \<not> semantic_v2 m) m3;
         m5 = prune CAPABILITY_DATAGRAM_STATE
                (\<lambda>m. \<not> contains_key m CAPABILITY_STATE_ACK \<or>
                     \<not> contains_key m CAPABILITY_SESSION_OBJECTS \<or> \<not> semantic_v2 m) m4;
         m6 = prune CAPABILITY_INPUT_LEASE (\<lambda>m. \<not> contains_key m CAPABILITY_SESSION_OBJECTS) m5;
         m7 = (if \<not> contains_key m6 CAPABILITY_INPUT_LEASE
               then bt_remove CAPABILITY_INPUT_RESUME m6 else m6);
         m8 = (if \<not> contains_key m7 CAPABILITY_STREAM_CHANNELS
               then bt_remove CAPABILITY_TCP_FORWARD m7 else m7)
     in m8)"

definition select_capability ::
  "(string, u32 \<times> u32) btree \<Rightarrow> (string, u32) btree \<Rightarrow> CapabilityRange \<Rightarrow> (string, u32) btree" where
  "select_capability offers m supported =
    (case bt_get offers (cr_name supported) of
      None \<Rightarrow> m
    | Some (lo, hi) \<Rightarrow>
        let capability_minimum = max lo (cr_minimum_version supported);
            capability_maximum = min hi (cr_maximum_version supported)
        in if capability_minimum \<le> capability_maximum
           then bt_insert (cr_name supported) capability_maximum m else m)"

definition negotiate_client_hello :: "ClientHello \<Rightarrow> ProtocolSupport \<Rightarrow> NegotiatedProtocol result" where
  "negotiate_client_hello hello server =
    and_then (validate_support server) (\<lambda>_.
    and_then (hello_version_range hello) (\<lambda>(client_minimum, client_maximum).
    let minimum = max client_minimum (ps_minimum_version server);
        maximum = min client_maximum (ps_maximum_version server)
    in if \<not> minimum \<le> maximum
       then bail ''client protocol range {}..={} does not overlap server range {}..={}''
       else and_then (validate_offers (ch_capabilities hello)) (\<lambda>client_capabilities.
         Inr \<lparr> np_version = maximum,
               np_capabilities = prune_dependencies
                 (fold (\<lambda>c m. select_capability client_capabilities m c) (ps_capabilities server) []) \<rparr>)))"

definition selections :: "NegotiatedProtocol \<Rightarrow> CapabilitySelection list" where
  "selections n = map (\<lambda>(name, version). \<lparr> cs_name = name, cs_version = version \<rparr>) (np_capabilities n)"

definition worker_select ::
  "(string, CapabilityRange) btree \<Rightarrow> (string, u32) btree \<Rightarrow> CapabilitySelection
     \<Rightarrow> (string, u32) btree result" where
  "worker_select supported m selection =
    and_then (validate_capability_name (cs_name selection)) (\<lambda>_.
    and_then (ok_or ''worker stream selected an unknown capability''
      (bt_get supported (cs_name selection))) (\<lambda>c.
    if \<not> (cr_minimum_version c \<le> cs_version selection \<and> cs_version selection \<le> cr_maximum_version c)
      then bail ''worker stream selected an unsupported capability version''
    else insert_unique ''worker stream selected a capability more than once''
      (cs_name selection) (cs_version selection) m))"

definition validate_worker_selection ::
  "u32 \<Rightarrow> CapabilitySelection list \<Rightarrow> ProtocolSupport \<Rightarrow> NegotiatedProtocol result" where
  "validate_worker_selection version selected support =
    and_then (validate_support support) (\<lambda>_.
    if \<not> (ps_minimum_version support \<le> version \<and> version \<le> ps_maximum_version support)
      then bail ''worker stream selected an unsupported protocol version''
    else if \<not> length selected \<le> MAX_CAPABILITIES
      then bail ''worker stream selected too many capabilities''
    else
      let supported = fold (\<lambda>c m. bt_insert (cr_name c) c m) (ps_capabilities support) []
      in and_then (try_fold (worker_select supported) [] selected) (\<lambda>capabilities.
         and_then (validate_capability_dependencies capabilities) (\<lambda>_.
         Inr \<lparr> np_version = version, np_capabilities = capabilities \<rparr>)))"

definition client_select ::
  "(string, u32 \<times> u32) btree \<Rightarrow> (string, u32) btree \<Rightarrow> CapabilitySelection
     \<Rightarrow> (string, u32) btree result" where
  "client_select offers m selected =
    and_then (validate_capability_name (cs_name selected)) (\<lambda>_.
    if \<not> cs_version selected > 0 then bail ''selected capability version is zero''
    else (case bt_get offers (cs_name selected) of
        None \<Rightarrow> bail ''server selected unoffered capability {}''
      | Some (lo, hi) \<Rightarrow>
          if \<not> (lo \<le> cs_version selected \<and> cs_version selected \<le> hi)
            then bail ''server selected unsupported version {} for capability {}''
          else insert_unique ''server selected capability {} more than once''
            (cs_name selected) (cs_version selected) m))"

definition validate_server_hello :: "ClientHello \<Rightarrow> ServerHello \<Rightarrow> NegotiatedProtocol result" where
  "validate_server_hello client server =
    and_then (hello_version_range client) (\<lambda>(minimum, maximum).
    if \<not> (minimum \<le> sh_protocol_version server \<and> sh_protocol_version server \<le> maximum)
      then bail ''server selected protocol version {} outside client range {}..={}''
    else and_then (validate_offers (ch_capabilities client)) (\<lambda>offers.
      if \<not> length (sh_capabilities server) \<le> MAX_CAPABILITIES
        then bail ''server selected too many capabilities''
      else and_then (try_fold (client_select offers) [] (sh_capabilities server)) (\<lambda>capabilities.
        and_then (validate_capability_dependencies capabilities) (\<lambda>_.
        Inr \<lparr> np_version = sh_protocol_version server, np_capabilities = capabilities \<rparr>))))"

section \<open>Maps built by checked insertion\<close>

lemma bt_get_empty: "bt_get [] = Map.empty"
  by (simp add: fun_eq_iff)

lemma bt_get_snoc: "bt_ok (m @ [(k, v)]) \<Longrightarrow> bt_get m k = None"
  unfolding bt_ok_def bt_get_def by (auto simp: sorted_wrt_append map_of_eq_None_iff)

lemma bt_insert_snoc: "bt_ok (m @ [(k, v)]) \<Longrightarrow> bt_insert k v m = m @ [(k, v)]"
  unfolding bt_ok_def
proof (induction m)
  case (Cons e m)
  then show ?case by (cases e) (auto simp: order_less_not_sym)
qed simp

lemma bt_ok_prefix: "bt_ok (m @ m') \<Longrightarrow> bt_ok m"
  by (simp add: bt_ok_def sorted_wrt_append)

text \<open>Re-inserting the entries of a map one by one, each passing its check, rebuilds it.\<close>

lemma rebuild_map:
  assumes "bt_ok m" and "\<And>e acc. e \<in> set m \<Longrightarrow> f acc (g e) = insert_unique msg (fst e) (snd e) acc"
  shows "try_fold f [] (map g m) = Inr m"
  using assms
proof (induction m rule: rev_induct)
  case (snoc e m)
  obtain k v where e: "e = (k, v)" by (cases e)
  have "try_fold f [] (map g m) = Inr m"
    using snoc.prems by (intro snoc.IH) (auto intro: bt_ok_prefix)
  then show ?case
    using snoc.prems bt_get_snoc [of m k v] bt_insert_snoc [of m k v]
    by (simp add: try_fold_append insert_unique_def e)
qed simp

text \<open>A loop that inserts every element of a list under its own key, refusing duplicates,
  succeeds only with distinct keys and yields exactly the listed entries.\<close>

lemma checked_inserts:
  assumes "try_fold (\<lambda>m x. and_then (check x) (\<lambda>_ :: unit. insert_unique msg (key x) (val x) m)) m0 xs = Inr m"
    and "bt_ok m0"
  shows "bt_ok m" "distinct (map key xs)" "x \<in> set xs \<Longrightarrow> bt_get m0 (key x) = None \<and> check x = Inr ()"
    "bt_get m = bt_get m0 ++ map_of (map (\<lambda>x. (key x, val x)) xs)"
proof -
  have "bt_ok m \<and> distinct (map key xs) \<and> (\<forall>x \<in> set xs. bt_get m0 (key x) = None \<and> check x = Inr ()) \<and>
    bt_get m = bt_get m0 ++ map_of (map (\<lambda>x. (key x, val x)) xs)"
    using assms
  proof (induction xs arbitrary: m0)
    case (Cons x xs)
    obtain m1 where c: "check x = Inr ()" and i: "insert_unique msg (key x) (val x) m0 = Inr m1"
      and rest: "try_fold (\<lambda>m x. and_then (check x) (\<lambda>_. insert_unique msg (key x) (val x) m)) m1 xs = Inr m"
      using Cons.prems(1) that
      by (cases "check x"; cases "insert_unique msg (key x) (val x) m0") simp_all
    have new: "bt_get m0 (key x) = None" and m1: "m1 = bt_insert (key x) (val x) m0"
      using i by (simp_all add: insert_unique_def split: if_splits)
    have get: "bt_get m1 = (bt_get m0)(key x \<mapsto> val x)"
      unfolding m1 by (rule bt_get_insert [OF Cons.prems(2)])
    have ok1: "bt_ok m1" unfolding m1 by (rule bt_ok_insert [OF Cons.prems(2)])
    note ih = Cons.IH [OF rest ok1]
    have fresh: "key y \<noteq> key x" "bt_get m0 (key y) = None" if "y \<in> set xs" for y
    proof -
      have "bt_get m1 (key y) = None" using ih that by blast
      then show "key y \<noteq> key x" "bt_get m0 (key y) = None" by (simp_all add: get split: if_splits)
    qed
    have none: "map_of (map (\<lambda>x. (key x, val x)) xs) (key x) = None"
      using fresh(1) by (force simp: map_of_eq_None_iff)
    have "bt_get m = (bt_get m0)(key x \<mapsto> val x) ++ map_of (map (\<lambda>x. (key x, val x)) xs)"
      using ih unfolding get by blast
    also have "\<dots> = bt_get m0 ++ map_of (map (\<lambda>x. (key x, val x)) (x # xs))"
      using none by (simp add: fun_eq_iff map_add_def split: option.split)
    finally have "bt_get m = bt_get m0 ++ map_of (map (\<lambda>x. (key x, val x)) (x # xs))" .
    moreover have "distinct (map key (x # xs))" using ih fresh(1) by force
    moreover have "bt_get m0 (key y) = None \<and> check y = Inr ()" if "y \<in> set (x # xs)" for y
      using that new c fresh(2) ih by (cases "y = x") simp_all
    ultimately show ?case using ih by blast
  qed simp
  then show "bt_ok m" "distinct (map key xs)" "x \<in> set xs \<Longrightarrow> bt_get m0 (key x) = None \<and> check x = Inr ()"
    "bt_get m = bt_get m0 ++ map_of (map (\<lambda>x. (key x, val x)) xs)"
    by blast+
qed

section \<open>What the validators admit\<close>

definition range_check :: "string \<Rightarrow> CapabilityRange \<Rightarrow> unit result" where
  "range_check msg c = and_then (validate_capability_name (cr_name c)) (\<lambda>_.
    if \<not> (cr_minimum_version c > 0 \<and> cr_minimum_version c \<le> cr_maximum_version c)
    then bail msg else Inr ())"

lemma range_check_loop:
  "(\<lambda>m c. and_then (validate_capability_name (cr_name c)) (\<lambda>_.
      if \<not> (cr_minimum_version c > 0 \<and> cr_minimum_version c \<le> cr_maximum_version c) then bail msg
      else insert_unique dup (cr_name c) (val c) m)) =
   (\<lambda>m c. and_then (range_check msg c) (\<lambda>_. insert_unique dup (cr_name c) (val c) m))"
proof (intro ext)
  fix m c
  show "and_then (validate_capability_name (cr_name c)) (\<lambda>_.
      if \<not> (cr_minimum_version c > 0 \<and> cr_minimum_version c \<le> cr_maximum_version c) then bail msg
      else insert_unique dup (cr_name c) (val c) m) =
    and_then (range_check msg c) (\<lambda>_. insert_unique dup (cr_name c) (val c) m)"
    by (cases "validate_capability_name (cr_name c)") (simp_all add: range_check_def bail_def)
qed

lemma range_check_Inr:
  "range_check msg c = Inr () \<longleftrightarrow> validate_capability_name (cr_name c) = Inr () \<and>
    0 < cr_minimum_version c \<and> cr_minimum_version c \<le> cr_maximum_version c"
  by (auto simp: range_check_def and_then_Inr split: if_splits)

lemma validate_support_Inr:
  assumes "validate_support s = Inr ()"
  shows "0 < ps_minimum_version s" "ps_minimum_version s \<le> ps_maximum_version s"
    "length (ps_capabilities s) \<le> MAX_CAPABILITIES" "distinct (map cr_name (ps_capabilities s))"
    "c \<in> set (ps_capabilities s) \<Longrightarrow> range_check msg c = Inr ()"
proof -
  let ?msg = "''server capability {} has an invalid version range''"
  let ?dup = "''server capability {} is duplicated''"
  obtain m where head: "0 < ps_minimum_version s" "ps_minimum_version s \<le> ps_maximum_version s"
    "length (ps_capabilities s) \<le> MAX_CAPABILITIES"
    and loop: "try_fold (\<lambda>m c. and_then (range_check ?msg c) (\<lambda>_. insert_unique ?dup (cr_name c) () m))
      [] (ps_capabilities s) = Inr m"
    using assms unfolding validate_support_def range_check_loop [where val = "\<lambda>_. ()"]
    by (auto simp only: if_bail_Inr and_then_Inr not_not)
  note ins = checked_inserts [OF loop bt_ok_Nil]
  show "distinct (map cr_name (ps_capabilities s))" by (rule ins(2))
  show "range_check msg c = Inr ()" if "c \<in> set (ps_capabilities s)"
    using ins(3) [OF that] by (simp add: range_check_Inr)
qed (use assms in \<open>simp_all add: validate_support_def if_bail_Inr\<close>)

lemma validate_offers_Inr:
  assumes "validate_offers os = Inr m"
  shows "bt_ok m" "length os \<le> MAX_CAPABILITIES" "distinct (map cr_name os)"
    "x \<in> set os \<Longrightarrow> range_check msg x = Inr ()"
    "bt_get m = map_of (map (\<lambda>x. (cr_name x, (cr_minimum_version x, cr_maximum_version x))) os)"
proof -
  let ?msg = "''client capability {} has an invalid version range''"
  let ?dup = "''client capability {} is duplicated''"
  let ?val = "\<lambda>c. (cr_minimum_version c, cr_maximum_version c)"
  show "length os \<le> MAX_CAPABILITIES" using assms by (simp add: validate_offers_def if_bail_Inr)
  have loop: "try_fold (\<lambda>m c. and_then (range_check ?msg c) (\<lambda>_. insert_unique ?dup (cr_name c) (?val c) m))
      [] os = Inr m"
    using assms unfolding validate_offers_def range_check_loop [where val = ?val]
    by (simp only: if_bail_Inr)
  note ins = checked_inserts [OF loop bt_ok_Nil]
  show "bt_ok m" "distinct (map cr_name os)" by (rule ins(1,2))+
  show "range_check msg x = Inr ()" if "x \<in> set os"
    using ins(3) [OF that] by (simp add: range_check_Inr)
  show "bt_get m = map_of (map (\<lambda>c. (cr_name c, ?val c)) os)"
    using ins(4) by (simp add: bt_get_empty)
qed

text \<open>The version both ranges have in common, highest first.\<close>

definition common_version :: "(string, u32 \<times> u32) btree \<Rightarrow> CapabilityRange \<Rightarrow> u32 option" where
  "common_version offers c = (case bt_get offers (cr_name c) of None \<Rightarrow> None
    | Some (lo, hi) \<Rightarrow>
        if max lo (cr_minimum_version c) \<le> min hi (cr_maximum_version c)
        then Some (min hi (cr_maximum_version c)) else None)"

lemma select_capability_alt:
  "select_capability offers m c =
    (case common_version offers c of None \<Rightarrow> m | Some v \<Rightarrow> bt_insert (cr_name c) v m)"
  by (auto simp: select_capability_def common_version_def Let_def split: option.split)

lemma common_version_Some:
  assumes "common_version offers c = Some v"
  obtains lo hi where "bt_get offers (cr_name c) = Some (lo, hi)" "lo \<le> v" "v \<le> hi"
    "cr_minimum_version c \<le> v" "v \<le> cr_maximum_version c"
  using assms by (auto simp: common_version_def split: option.splits if_splits)

lemma fold_select:
  assumes "bt_ok m0" "distinct (map cr_name cs)" "\<forall>c \<in> set cs. bt_get m0 (cr_name c) = None"
  shows "bt_ok (fold (\<lambda>c m. select_capability offers m c) cs m0) \<and>
    (\<forall>k. bt_get (fold (\<lambda>c m. select_capability offers m c) cs m0) k =
      (case map_of (map (\<lambda>c. (cr_name c, c)) cs) k of None \<Rightarrow> bt_get m0 k
       | Some c \<Rightarrow> common_version offers c))"
  using assms
proof (induction cs arbitrary: m0)
  case (Cons c cs)
  let ?m = "select_capability offers m0 c"
  have ok: "bt_ok ?m" using Cons.prems(1) by (simp add: select_capability_alt bt_ok_insert split: option.split)
  have get: "bt_get ?m k = (if k = cr_name c then common_version offers c else bt_get m0 k)" for k
    using Cons.prems(1,3) by (simp add: select_capability_alt bt_get_insert split: option.split)
  have "\<forall>d \<in> set cs. bt_get ?m (cr_name d) = None"
  proof
    fix d assume d: "d \<in> set cs"
    then have "cr_name d \<noteq> cr_name c" using Cons.prems(2) by (auto simp: image_iff)
    then show "bt_get ?m (cr_name d) = None" using Cons.prems(3) d by (simp add: get)
  qed
  note ih = Cons.IH [OF ok _ this]
  have none: "map_of (map (\<lambda>c. (cr_name c, c)) cs) (cr_name c) = None"
    using Cons.prems(2) by (force simp: map_of_eq_None_iff)
  show ?case using ih Cons.prems(2) none by (auto simp: get split: option.split)
qed simp

section \<open>Pruning\<close>

lemma names_differ:
  "distinct [CAPABILITY_SEMANTIC_STATE, CAPABILITY_HISTORY_PAGING, CAPABILITY_DATAGRAM_STATE,
    CAPABILITY_STATE_ACK, CAPABILITY_SEMANTIC_DIFF, CAPABILITY_CLIPBOARD_WRITE,
    CAPABILITY_SESSION_OBJECTS, CAPABILITY_INPUT_RESUME, CAPABILITY_INPUT_LEASE,
    CAPABILITY_TCP_FORWARD, CAPABILITY_STREAM_CHANNELS]"
  by (simp add: capability_names)

lemma names_differ_rev:
  "distinct [CAPABILITY_STREAM_CHANNELS, CAPABILITY_TCP_FORWARD, CAPABILITY_INPUT_LEASE,
    CAPABILITY_INPUT_RESUME, CAPABILITY_SESSION_OBJECTS, CAPABILITY_CLIPBOARD_WRITE,
    CAPABILITY_SEMANTIC_DIFF, CAPABILITY_STATE_ACK, CAPABILITY_DATAGRAM_STATE,
    CAPABILITY_HISTORY_PAGING, CAPABILITY_SEMANTIC_STATE]"
  by (simp add: capability_names)

lemmas names_differ_simps [simp] = names_differ [simplified] names_differ_rev [simplified]

text \<open>The prerequisites of each capability, on the partial map of versions.\<close>

definition semantic2 :: "(string \<rightharpoonup> u32) \<Rightarrow> bool" where
  "semantic2 r = (case r CAPABILITY_SEMANTIC_STATE of None \<Rightarrow> False | Some v \<Rightarrow> v \<ge> 2)"

definition met :: "(string \<rightharpoonup> u32) \<Rightarrow> string \<Rightarrow> bool" where
  "met r k =
    (if k \<in> {CAPABILITY_CLIPBOARD_WRITE, CAPABILITY_HISTORY_PAGING, CAPABILITY_STATE_ACK}
       then semantic2 r
     else if k = CAPABILITY_SEMANTIC_DIFF then semantic2 r \<and> r CAPABILITY_STATE_ACK \<noteq> None
     else if k = CAPABILITY_DATAGRAM_STATE
       then semantic2 r \<and> r CAPABILITY_STATE_ACK \<noteq> None \<and> r CAPABILITY_SESSION_OBJECTS \<noteq> None
     else if k = CAPABILITY_INPUT_LEASE then r CAPABILITY_SESSION_OBJECTS \<noteq> None
     else if k = CAPABILITY_INPUT_RESUME
       then r CAPABILITY_INPUT_LEASE \<noteq> None \<and> r CAPABILITY_SESSION_OBJECTS \<noteq> None
     else if k = CAPABILITY_TCP_FORWARD then r CAPABILITY_STREAM_CHANNELS \<noteq> None
     else True)"

lemma met_simps [simp]:
  "met r CAPABILITY_CLIPBOARD_WRITE = semantic2 r"
  "met r CAPABILITY_HISTORY_PAGING = semantic2 r"
  "met r CAPABILITY_STATE_ACK = semantic2 r"
  "met r CAPABILITY_SEMANTIC_DIFF = (semantic2 r \<and> r CAPABILITY_STATE_ACK \<noteq> None)"
  "met r CAPABILITY_DATAGRAM_STATE =
    (semantic2 r \<and> r CAPABILITY_STATE_ACK \<noteq> None \<and> r CAPABILITY_SESSION_OBJECTS \<noteq> None)"
  "met r CAPABILITY_INPUT_LEASE = (r CAPABILITY_SESSION_OBJECTS \<noteq> None)"
  "met r CAPABILITY_INPUT_RESUME =
    (r CAPABILITY_INPUT_LEASE \<noteq> None \<and> r CAPABILITY_SESSION_OBJECTS \<noteq> None)"
  "met r CAPABILITY_TCP_FORWARD = (r CAPABILITY_STREAM_CHANNELS \<noteq> None)"
  "met r CAPABILITY_SEMANTIC_STATE" "met r CAPABILITY_SESSION_OBJECTS" "met r CAPABILITY_STREAM_CHANNELS"
  by (simp_all add: met_def)

definition guarded :: "string list" where
  "guarded = [CAPABILITY_TCP_FORWARD, CAPABILITY_CLIPBOARD_WRITE, CAPABILITY_HISTORY_PAGING,
    CAPABILITY_STATE_ACK, CAPABILITY_SEMANTIC_DIFF, CAPABILITY_DATAGRAM_STATE, CAPABILITY_INPUT_LEASE,
    CAPABILITY_INPUT_RESUME]"

lemma met_free: "k \<notin> set guarded \<Longrightarrow> met r k"
  by (simp add: guarded_def met_def)

lemma guarded_cases:
  obtains "k = CAPABILITY_CLIPBOARD_WRITE" | "k = CAPABILITY_HISTORY_PAGING" | "k = CAPABILITY_STATE_ACK"
    | "k = CAPABILITY_SEMANTIC_DIFF" | "k = CAPABILITY_DATAGRAM_STATE" | "k = CAPABILITY_INPUT_LEASE"
    | "k = CAPABILITY_INPUT_RESUME" | "k = CAPABILITY_TCP_FORWARD" | (free) "k \<notin> set guarded"
  unfolding guarded_def list.set by blast

lemma bt_get_prune:
  "bt_get (prune n c m) k = (if k = n \<and> c m then None else bt_get m k)"
  by (simp add: prune_def contains_key_def bt_get_remove)

lemma bt_get_remove_if:
  "bt_get (if c then bt_remove n m else m) k = (if k = n \<and> c then None else bt_get m k)"
  by (simp add: bt_get_remove)

lemma semantic_v2_alt: "semantic_v2 m = semantic2 (bt_get m)"
  by (simp add: semantic_v2_def semantic2_def)

lemma bt_ok_prune: "bt_ok m \<Longrightarrow> bt_ok (prune n c m)"
  by (simp add: prune_def bt_ok_remove)

lemma bt_ok_remove_if: "bt_ok m \<Longrightarrow> bt_ok (if c then bt_remove n m else m)"
  by (simp add: bt_ok_remove)

lemma bt_ok_prune_dependencies: "bt_ok m \<Longrightarrow> bt_ok (prune_dependencies m)"
  unfolding prune_dependencies_def Let_def by (intro bt_ok_remove_if bt_ok_prune)

lemma prune_dependencies_get:
  "bt_get (prune_dependencies m) k = (if met (bt_get m) k then bt_get m k else None)"
proof -
  let ?r = "bt_get m"
  let ?s = "semantic2 ?r"
  define m1 where "m1 = prune CAPABILITY_CLIPBOARD_WRITE (\<lambda>m. \<not> semantic_v2 m) m"
  define m2 where "m2 = prune CAPABILITY_HISTORY_PAGING (\<lambda>m. \<not> semantic_v2 m) m1"
  define m3 where "m3 = prune CAPABILITY_STATE_ACK (\<lambda>m. \<not> semantic_v2 m) m2"
  define m4 where "m4 = prune CAPABILITY_SEMANTIC_DIFF
    (\<lambda>m. \<not> contains_key m CAPABILITY_STATE_ACK \<or> \<not> semantic_v2 m) m3"
  define m5 where "m5 = prune CAPABILITY_DATAGRAM_STATE (\<lambda>m. \<not> contains_key m CAPABILITY_STATE_ACK \<or>
    \<not> contains_key m CAPABILITY_SESSION_OBJECTS \<or> \<not> semantic_v2 m) m4"
  define m6 where "m6 = prune CAPABILITY_INPUT_LEASE (\<lambda>m. \<not> contains_key m CAPABILITY_SESSION_OBJECTS) m5"
  define m7 where "m7 = (if \<not> contains_key m6 CAPABILITY_INPUT_LEASE
    then bt_remove CAPABILITY_INPUT_RESUME m6 else m6)"
  have result: "prune_dependencies m = (if \<not> contains_key m7 CAPABILITY_STREAM_CHANNELS
    then bt_remove CAPABILITY_TCP_FORWARD m7 else m7)"
    by (simp only: prune_dependencies_def Let_def m1_def m2_def m3_def m4_def m5_def m6_def m7_def)
  have s1: "semantic_v2 m1 = ?s" and s2: "semantic_v2 m2 = ?s" and s3: "semantic_v2 m3 = ?s"
    and s4: "semantic_v2 m4 = ?s"
    by (simp_all add: semantic_v2_def semantic2_def m1_def m2_def m3_def m4_def bt_get_prune)
  have g3: "bt_get m3 j = (if j \<in> {CAPABILITY_CLIPBOARD_WRITE, CAPABILITY_HISTORY_PAGING,
      CAPABILITY_STATE_ACK} \<and> \<not> ?s then None else ?r j)" for j
    unfolding m3_def bt_get_prune s2 unfolding m2_def bt_get_prune s1
    unfolding m1_def bt_get_prune semantic_v2_alt by simp
  have g4: "bt_get m4 j = (if j = CAPABILITY_SEMANTIC_DIFF \<and> (?r CAPABILITY_STATE_ACK = None \<or> \<not> ?s)
      then None else bt_get m3 j)" for j
    unfolding m4_def bt_get_prune s3 contains_key_def by (auto simp: g3)
  have g5: "bt_get m5 j = (if j = CAPABILITY_DATAGRAM_STATE \<and> (?r CAPABILITY_STATE_ACK = None \<or>
      ?r CAPABILITY_SESSION_OBJECTS = None \<or> \<not> ?s) then None else bt_get m4 j)" for j
    unfolding m5_def bt_get_prune s4 contains_key_def by (auto simp: g3 g4)
  have g6: "bt_get m6 j = (if j = CAPABILITY_INPUT_LEASE \<and> ?r CAPABILITY_SESSION_OBJECTS = None
      then None else bt_get m5 j)" for j
    unfolding m6_def bt_get_prune contains_key_def by (auto simp: g3 g4 g5)
  have g7: "bt_get m7 j = (if j = CAPABILITY_INPUT_RESUME \<and> (?r CAPABILITY_SESSION_OBJECTS = None \<or>
      ?r CAPABILITY_INPUT_LEASE = None) then None else bt_get m6 j)" for j
    unfolding m7_def bt_get_remove_if contains_key_def by (auto simp: g3 g4 g5 g6)
  have g8: "bt_get (prune_dependencies m) j = (if j = CAPABILITY_TCP_FORWARD \<and>
      ?r CAPABILITY_STREAM_CHANNELS = None then None else bt_get m7 j)" for j
    unfolding result bt_get_remove_if contains_key_def by (auto simp: g3 g4 g5 g6 g7)
  show ?thesis
  proof (cases k rule: guarded_cases)
    case free
    then have "bt_get (prune_dependencies m) k = ?r k"
      unfolding guarded_def list.set g8 g7 g6 g5 g4 g3 by simp
    then show ?thesis by (simp add: met_free [OF free])
  qed (auto simp: g8 g7 g6 g5 g4 g3)
qed

definition dependencies_ok :: "(string \<rightharpoonup> u32) \<Rightarrow> bool" where
  "dependencies_ok r \<longleftrightarrow> (\<forall>k \<in> dom r. met r k)"

lemma dependencies_ok_guarded:
  "dependencies_ok r \<longleftrightarrow> (\<forall>k \<in> set guarded. r k \<noteq> None \<longrightarrow> met r k)"
proof
  assume "dependencies_ok r"
  then show "\<forall>k \<in> set guarded. r k \<noteq> None \<longrightarrow> met r k" unfolding dependencies_ok_def dom_def by blast
next
  assume g: "\<forall>k \<in> set guarded. r k \<noteq> None \<longrightarrow> met r k"
  have "met r k" if "r k \<noteq> None" for k
  proof (cases "k \<in> set guarded")
    case True
    then show ?thesis using g that by blast
  next
    case False
    then show ?thesis by (rule met_free)
  qed
  then show "dependencies_ok r" unfolding dependencies_ok_def dom_def by blast
qed

text \<open>The executable check of the dependencies decides \<^const>\<open>dependencies_ok\<close>: every
  capability that is present has its prerequisites.\<close>

lemma validate_dependencies_iff:
  "validate_capability_dependencies m = Inr () \<longleftrightarrow> dependencies_ok (bt_get m)"
  unfolding dependencies_ok_guarded validate_capability_dependencies_def contains_key_def
    semantic_v2_alt if_bail_Inr guarded_def list.set ball_simps met_simps
  by blast

text \<open>The pruned map meets its dependencies, and it is the largest part of the raw map
  that does.\<close>

lemma met_mono:
  assumes m: "met q k" and dom: "\<And>j. q j \<noteq> None \<Longrightarrow> r j \<noteq> None" and s: "semantic2 q \<Longrightarrow> semantic2 r"
  shows "met r k"
  using m by (cases k rule: guarded_cases) (use dom s in \<open>simp_all add: met_free del: not_None_eq\<close>)

lemma met_pruned:
  assumes m: "met r k" and "r k \<noteq> None"
  shows "met (\<lambda>j. if met r j then r j else None) k"
proof -
  have "semantic2 (\<lambda>j. if met r j then r j else None) = semantic2 r" by (simp add: semantic2_def)
  then show ?thesis using m by (cases k rule: guarded_cases) (simp_all add: met_free del: not_None_eq)
qed

lemma prune_dependencies_ok: "dependencies_ok (bt_get (prune_dependencies m))"
proof -
  have r: "bt_get (prune_dependencies m) = (\<lambda>j. if met (bt_get m) j then bt_get m j else None)"
    by (simp add: fun_eq_iff prune_dependencies_get)
  show ?thesis
    unfolding dependencies_ok_def r
  proof
    fix k assume "k \<in> dom (\<lambda>j. if met (bt_get m) j then bt_get m j else None)"
    then have "met (bt_get m) k" "bt_get m k \<noteq> None" by (simp_all add: dom_def split: if_splits)
    then show "met (\<lambda>j. if met (bt_get m) j then bt_get m j else None) k" by (rule met_pruned)
  qed
qed

section \<open>Both ends accept what the gateway selects\<close>

lemma negotiate_Inr:
  assumes "negotiate_client_hello hello server = Inr n"
  obtains lo hi offers where "validate_support server = Inr ()"
    "hello_version_range hello = Inr (lo, hi)"
    "max lo (ps_minimum_version server) \<le> min hi (ps_maximum_version server)"
    "validate_offers (ch_capabilities hello) = Inr offers"
    "np_version n = min hi (ps_maximum_version server)"
    "np_capabilities n = prune_dependencies
      (fold (\<lambda>c m. select_capability offers m c) (ps_capabilities server) [])"
proof -
  from assms obtain r where s: "validate_support server = Inr ()" and r: "hello_version_range hello = Inr r"
    unfolding negotiate_client_hello_def by (auto simp: and_then_unit and_then_Inr)
  obtain lo hi where lohi: "r = (lo, hi)" by (cases r)
  from assms obtain offers where "max lo (ps_minimum_version server) \<le> min hi (ps_maximum_version server)"
    "validate_offers (ch_capabilities hello) = Inr offers"
    "n = \<lparr> np_version = min hi (ps_maximum_version server), np_capabilities = prune_dependencies
      (fold (\<lambda>c m. select_capability offers m c) (ps_capabilities server) []) \<rparr>"
    unfolding negotiate_client_hello_def s r lohi and_then.simps prod.case Let_def if_bail_Inr and_then_Inr
    by blast
  then show ?thesis using that s r lohi by simp
qed

lemma select_all:
  fixes offers :: "(string, u32 \<times> u32) btree"
  assumes "validate_support server = Inr ()"
  defines "raw \<equiv> fold (\<lambda>c m. select_capability offers m c) (ps_capabilities server) []"
  shows "bt_ok raw" "length raw \<le> MAX_CAPABILITIES"
    "bt_get raw k = Some v \<longleftrightarrow> (\<exists>c \<in> set (ps_capabilities server). cr_name c = k \<and> common_version offers c = Some v)"
proof -
  let ?cs = "ps_capabilities server"
  have d: "distinct (map cr_name ?cs)" and len: "length ?cs \<le> MAX_CAPABILITIES"
    using validate_support_Inr [OF assms(1)] by blast+
  have f: "bt_ok raw" and g: "bt_get raw k =
      (case map_of (map (\<lambda>c. (cr_name c, c)) ?cs) k of None \<Rightarrow> None | Some c \<Rightarrow> common_version offers c)" for k
    using fold_select [OF bt_ok_Nil d, of offers] unfolding raw_def by (simp_all cong: option.case_cong)
  show "bt_ok raw" by (rule f)
  have m: "map_of (map (\<lambda>c. (cr_name c, c)) ?cs) (cr_name c) = Some c" if "c \<in> set ?cs" for c
    using d that by (intro map_of_is_SomeI) (simp_all add: o_def image_iff)
  have listed: "c \<in> set ?cs \<and> cr_name c = k" if "map_of (map (\<lambda>c. (cr_name c, c)) ?cs) k = Some c" for k c
    using map_of_SomeD [OF that] by auto
  show iff: "bt_get raw k = Some v \<longleftrightarrow> (\<exists>c \<in> set ?cs. cr_name c = k \<and> common_version offers c = Some v)" for k v
  proof
    assume "bt_get raw k = Some v"
    then obtain c where "map_of (map (\<lambda>c. (cr_name c, c)) ?cs) k = Some c" "common_version offers c = Some v"
      by (auto simp: g split: option.splits)
    then show "\<exists>c \<in> set ?cs. cr_name c = k \<and> common_version offers c = Some v"
      using listed by blast
  next
    assume "\<exists>c \<in> set ?cs. cr_name c = k \<and> common_version offers c = Some v"
    then obtain c where "c \<in> set ?cs" "cr_name c = k" "common_version offers c = Some v" by blast
    then show "bt_get raw k = Some v" using m [of c] by (simp add: g)
  qed
  have "dom (bt_get raw) \<subseteq> set (map cr_name ?cs)"
  proof
    fix k assume "k \<in> dom (bt_get raw)"
    then obtain v where "bt_get raw k = Some v" by blast
    then show "k \<in> set (map cr_name ?cs)" unfolding iff by auto
  qed
  then have "card (dom (bt_get raw)) \<le> length (map cr_name ?cs)"
    by (meson List.finite_set card_length card_mono order_trans)
  then show "length raw \<le> MAX_CAPABILITIES"
    using btm.length_keys [OF f] len by simp
qed

lemma dom_card_mono:
  assumes "bt_ok m" "bt_ok m'" "dom (bt_get m) \<subseteq> dom (bt_get m')"
  shows "length m \<le> length m'"
proof -
  have "finite (dom (bt_get m'))" by (simp add: bt_get_def finite_dom_map_of)
  then show ?thesis
    using btm.length_keys [OF assms(1)] btm.length_keys [OF assms(2)] card_mono assms(3) by fastforce
qed

text \<open>What is known of a negotiation's result, entry by entry.\<close>

lemma negotiated_facts:
  assumes "validate_support server = Inr ()"
    and n: "np_capabilities n = prune_dependencies
      (fold (\<lambda>c m. select_capability offers m c) (ps_capabilities server) [])"
  shows "bt_ok (np_capabilities n)" "length (np_capabilities n) \<le> MAX_CAPABILITIES"
    "validate_capability_dependencies (np_capabilities n) = Inr ()"
    "(k, v) \<in> set (np_capabilities n) \<Longrightarrow>
      \<exists>c \<in> set (ps_capabilities server). cr_name c = k \<and> common_version offers c = Some v"
proof -
  let ?raw = "fold (\<lambda>c m. select_capability offers m c) (ps_capabilities server) []"
  note raw = select_all [OF assms(1), of offers]
  show ok: "bt_ok (np_capabilities n)" unfolding n by (rule bt_ok_prune_dependencies [OF raw(1)])
  have "dom (bt_get (np_capabilities n)) \<subseteq> dom (bt_get ?raw)"
    unfolding n by (auto simp: dom_def prune_dependencies_get)
  then show "length (np_capabilities n) \<le> MAX_CAPABILITIES"
    using dom_card_mono [OF ok raw(1)] raw(2) by simp
  show "validate_capability_dependencies (np_capabilities n) = Inr ()"
    unfolding n validate_dependencies_iff by (rule prune_dependencies_ok)
  show "\<exists>c \<in> set (ps_capabilities server). cr_name c = k \<and> common_version offers c = Some v"
    if kv: "(k, v) \<in> set (np_capabilities n)"
  proof -
    have "distinct (map fst (np_capabilities n))"
      using ok unfolding bt_ok_def by (simp add: strict_sorted_iff)
    then have "bt_get (np_capabilities n) k = Some v"
      unfolding bt_get_def using kv by (rule map_of_is_SomeI)
    then have "bt_get ?raw k = Some v" by (simp add: n prune_dependencies_get split: if_splits)
    then show ?thesis by (simp only: raw(3))
  qed
qed

lemma client_select_ok:
  assumes "range_check msg c = Inr ()" "cr_name c = k" "common_version offers c = Some v"
  shows "client_select offers acc \<lparr> cs_name = k, cs_version = v \<rparr> =
    insert_unique ''server selected capability {} more than once'' k v acc"
proof -
  obtain lo hi where "bt_get offers (cr_name c) = Some (lo, hi)" "lo \<le> v" "v \<le> hi"
    "cr_minimum_version c \<le> v"
    using common_version_Some [OF assms(3)] by blast
  moreover have "validate_capability_name k = Inr ()" "0 < cr_minimum_version c"
    using assms(1,2) by (auto simp: range_check_Inr)
  ultimately show ?thesis using assms(2) by (auto simp: client_select_def)
qed

lemma worker_select_ok:
  assumes "range_check msg c = Inr ()" "cr_name c = k" "common_version offers c = Some v"
    "bt_get supported k = Some c"
  shows "worker_select supported acc \<lparr> cs_name = k, cs_version = v \<rparr> =
    insert_unique ''worker stream selected a capability more than once'' k v acc"
proof -
  have "cr_minimum_version c \<le> v" "v \<le> cr_maximum_version c"
    using common_version_Some [OF assms(3)] by blast+
  then show ?thesis using assms(1,2,4) by (auto simp: worker_select_def range_check_Inr)
qed

lemma supported_table:
  fixes c :: CapabilityRange
  assumes "distinct (map cr_name cs)" "c \<in> set cs"
  shows "bt_get (fold (\<lambda>c m. bt_insert (cr_name c) c m) cs []) (cr_name c) = Some c"
proof -
  have "bt_ok (fold (\<lambda>c m. bt_insert (cr_name c) c m) cs m0) \<and>
      (c \<in> set cs \<or> cr_name c \<notin> cr_name ` set cs \<and> bt_get m0 (cr_name c) = Some c \<longrightarrow>
       bt_get (fold (\<lambda>c m. bt_insert (cr_name c) c m) cs m0) (cr_name c) = Some c)"
    if "bt_ok m0" "distinct (map cr_name cs)" for m0 :: "(string, CapabilityRange) btree"
    using that
  proof (induction cs arbitrary: m0)
    case (Cons d cs)
    have ok: "bt_ok (bt_insert (cr_name d) d m0)" by (rule bt_ok_insert [OF Cons.prems(1)])
    have d: "distinct (map cr_name cs)" "cr_name d \<notin> cr_name ` set cs" using Cons.prems(2) by auto
    note ih = Cons.IH [OF ok d(1)]
    have get: "bt_get (bt_insert (cr_name d) d m0) (cr_name c) =
      (if cr_name c = cr_name d then Some d else bt_get m0 (cr_name c))"
      by (simp add: bt_get_insert [OF Cons.prems(1)])
    show ?case using ih d(2) get by (cases "c = d") auto
  qed simp
  then show ?thesis using assms bt_ok_Nil by blast
qed

lemma length_selections: "length (selections n) = length (np_capabilities n)"
  by (simp add: selections_def)

lemma accept_selections:
  assumes "bt_ok (np_capabilities n)"
    and "\<And>k v acc. (k, v) \<in> set (np_capabilities n) \<Longrightarrow>
      f acc \<lparr> cs_name = k, cs_version = v \<rparr> = insert_unique msg k v acc"
  shows "try_fold f [] (selections n) = Inr (np_capabilities n)"
  unfolding selections_def using assms by (intro rebuild_map) auto

text \<open>C9. The client accepts every selection the gateway makes from its hello, and
  arrives at the same protocol: version and capability map are identical on both
  ends, whatever ranges and capabilities either side has.\<close>

theorem client_accepts_negotiation:
  assumes "negotiate_client_hello hello server = Inr n"
  shows "validate_server_hello hello
    \<lparr> sh_protocol_version = np_version n, sh_challenge = challenge, sh_server_instance = inst,
      sh_capabilities = selections n \<rparr> = Inr n"
proof -
  obtain lo hi offers where s: "validate_support server = Inr ()"
    and r: "hello_version_range hello = Inr (lo, hi)"
    and le: "max lo (ps_minimum_version server) \<le> min hi (ps_maximum_version server)"
    and o: "validate_offers (ch_capabilities hello) = Inr offers"
    and v: "np_version n = min hi (ps_maximum_version server)"
    and caps: "np_capabilities n = prune_dependencies
      (fold (\<lambda>c m. select_capability offers m c) (ps_capabilities server) [])"
    by (rule negotiate_Inr [OF assms]) blast
  note facts = negotiated_facts [OF s caps]
  have "try_fold (client_select offers) [] (selections n) = Inr (np_capabilities n)"
  proof (rule accept_selections [OF facts(1)])
    fix k v acc assume "(k, v) \<in> set (np_capabilities n)"
    from facts(4) [OF this] obtain c where "c \<in> set (ps_capabilities server)" "cr_name c = k"
      "common_version offers c = Some v" by blast
    then show "client_select offers acc \<lparr> cs_name = k, cs_version = v \<rparr> =
        insert_unique ''server selected capability {} more than once'' k v acc"
      using client_select_ok [OF validate_support_Inr(5) [OF s]] by blast
  qed
  moreover have "lo \<le> np_version n" "np_version n \<le> hi" using le v by auto
  ultimately show ?thesis
    using r o facts(2,3) by (simp add: validate_server_hello_def length_selections)
qed

text \<open>The worker's support table contains that of every gateway configuration.\<close>

lemma worker_supports_gateway:
  "set (ps_capabilities (server_protocol_support tcp dgram rootless))
    \<subseteq> set (ps_capabilities (server_protocol_support True True rootless'))"
  "ps_minimum_version (server_protocol_support tcp dgram rootless) = MINIMUM_PROTOCOL_VERSION"
  "ps_maximum_version (server_protocol_support tcp dgram rootless) = PROTOCOL_VERSION"
proof -
  show "set (ps_capabilities (server_protocol_support tcp dgram rootless))
    \<subseteq> set (ps_capabilities (server_protocol_support True True rootless'))"
    by (auto simp: server_protocol_support_def Let_def)
  show "ps_minimum_version (server_protocol_support tcp dgram rootless) = MINIMUM_PROTOCOL_VERSION"
    "ps_maximum_version (server_protocol_support tcp dgram rootless) = PROTOCOL_VERSION"
    by (simp_all only: server_protocol_support_def Let_def ProtocolSupport_runtime_def
        ProtocolSupport.select_convs ProtocolSupport.update_convs)
qed

lemma worker_support_valid: "validate_support (server_protocol_support True True rootless) = Inr ()"
  by code_simp

text \<open>C8. The worker accepts every selection the gateway hands over, whatever options
  the gateway runs with, and revalidates it to the same protocol.\<close>

theorem worker_accepts_gateway:
  assumes "negotiate_client_hello hello (server_protocol_support tcp dgram rootless) = Inr n"
  shows "validate_worker_selection (np_version n) (selections n)
    (server_protocol_support True True rootless') = Inr n"
proof -
  let ?gw = "server_protocol_support tcp dgram rootless"
  let ?wk = "server_protocol_support True True rootless'"
  obtain lo hi offers where s: "validate_support ?gw = Inr ()"
    and le: "max lo (ps_minimum_version ?gw) \<le> min hi (ps_maximum_version ?gw)"
    and v: "np_version n = min hi (ps_maximum_version ?gw)"
    and caps: "np_capabilities n = prune_dependencies
      (fold (\<lambda>c m. select_capability offers m c) (ps_capabilities ?gw) [])"
    by (rule negotiate_Inr [OF assms]) blast
  note facts = negotiated_facts [OF s caps] and w = validate_support_Inr [OF worker_support_valid]
  let ?table = "fold (\<lambda>c m. bt_insert (cr_name c) c m) (ps_capabilities ?wk) []"
  have "try_fold (worker_select ?table) [] (selections n) = Inr (np_capabilities n)"
  proof (rule accept_selections [OF facts(1)])
    fix k v acc assume "(k, v) \<in> set (np_capabilities n)"
    from facts(4) [OF this] obtain c where c: "c \<in> set (ps_capabilities ?gw)" "cr_name c = k"
      "common_version offers c = Some v" by blast
    then have cw: "c \<in> set (ps_capabilities ?wk)" using worker_supports_gateway(1) by blast
    show "worker_select ?table acc \<lparr> cs_name = k, cs_version = v \<rparr> =
        insert_unique ''worker stream selected a capability more than once'' k v acc"
      using worker_select_ok [OF w(5) [OF cw] c(2,3)] supported_table [OF w(4) cw] c(2) by simp
  qed
  moreover have "ps_minimum_version ?wk \<le> np_version n" "np_version n \<le> ps_maximum_version ?wk"
    using le v by (auto simp: worker_supports_gateway)
  ultimately show ?thesis
    using facts(2,3) worker_support_valid
    by (simp add: validate_worker_selection_def length_selections)
qed

text \<open>A protocol both sides could run: a version and capability versions inside the
  ranges of both, with all dependencies met.\<close>

definition within :: "CapabilityRange list \<Rightarrow> string \<Rightarrow> u32 \<Rightarrow> bool" where
  "within cs k v = list_ex (\<lambda>c. cr_name c = k \<and> cr_minimum_version c \<le> v \<and> v \<le> cr_maximum_version c) cs"

definition agreeable :: "ClientHello \<Rightarrow> ProtocolSupport \<Rightarrow> NegotiatedProtocol \<Rightarrow> bool" where
  "agreeable hello server p \<longleftrightarrow>
    (case hello_version_range hello of Inl _ \<Rightarrow> False
     | Inr (lo, hi) \<Rightarrow> lo \<le> np_version p \<and> np_version p \<le> hi) \<and>
    ps_minimum_version server \<le> np_version p \<and> np_version p \<le> ps_maximum_version server \<and>
    list_all (\<lambda>(k, v). within (ch_capabilities hello) k v \<and> within (ps_capabilities server) k v)
      (np_capabilities p) \<and>
    is_ok (validate_capability_dependencies (np_capabilities p))"

lemma common_version_max:
  assumes o: "validate_offers os = Inr offers" and c: "within os k v"
    and s: "cr_name c = k" "cr_minimum_version c \<le> v" "v \<le> cr_maximum_version c"
  obtains w where "common_version offers c = Some w" "v \<le> w"
proof -
  from c obtain x where x: "x \<in> set os" "cr_name x = k" "cr_minimum_version x \<le> v" "v \<le> cr_maximum_version x"
    by (auto simp: within_def list_ex_iff)
  have "distinct (map fst (map (\<lambda>x. (cr_name x, cr_minimum_version x, cr_maximum_version x)) os))"
    using validate_offers_Inr(3) [OF o] by (simp add: o_def)
  then have "bt_get offers k = Some (cr_minimum_version x, cr_maximum_version x)"
    unfolding validate_offers_Inr(5) [OF o] by (rule map_of_is_SomeI) (use x in auto)
  moreover have "max (cr_minimum_version x) (cr_minimum_version c) \<le> v"
    "v \<le> min (cr_maximum_version x) (cr_maximum_version c)"
    using x s by simp_all
  moreover from this have "max (cr_minimum_version x) (cr_minimum_version c)
      \<le> min (cr_maximum_version x) (cr_maximum_version c)" by (rule order_trans)
  ultimately show ?thesis
    using that s(1) by (simp add: common_version_def del: max.bounded_iff min.bounded_iff)
qed

text \<open>C23. Nothing better could have been agreed: the negotiated version is the highest
  both sides have, and any protocol both sides could run with its dependencies met has
  only capabilities that were negotiated, at versions no higher than the negotiated.\<close>

theorem negotiation_is_greatest:
  assumes "negotiate_client_hello hello server = Inr n" and "agreeable hello server p"
  shows "np_version p \<le> np_version n \<and>
    (\<forall>k v. bt_get (np_capabilities p) k = Some v \<longrightarrow>
      (\<exists>w. bt_get (np_capabilities n) k = Some w \<and> v \<le> w))"
proof -
  obtain lo hi offers where s: "validate_support server = Inr ()"
    and r: "hello_version_range hello = Inr (lo, hi)"
    and o: "validate_offers (ch_capabilities hello) = Inr offers"
    and v: "np_version n = min hi (ps_maximum_version server)"
    and caps: "np_capabilities n = prune_dependencies
      (fold (\<lambda>c m. select_capability offers m c) (ps_capabilities server) [])"
    by (rule negotiate_Inr [OF assms(1)]) blast
  let ?raw = "bt_get (fold (\<lambda>c m. select_capability offers m c) (ps_capabilities server) [])"
  let ?p = "bt_get (np_capabilities p)"
  note p = assms(2) [unfolded agreeable_def r sum.case prod.case]
  have raw: "\<exists>w. ?raw k = Some w \<and> x \<le> w" if "?p k = Some x" for k x
  proof -
    from that have "(k, x) \<in> set (np_capabilities p)" by (simp add: bt_get_def map_of_SomeD)
    then have "within (ch_capabilities hello) k x" "within (ps_capabilities server) k x"
      using p by (auto simp: list_all_iff)
    then obtain c where c: "c \<in> set (ps_capabilities server)" "cr_name c = k"
        "cr_minimum_version c \<le> x" "x \<le> cr_maximum_version c"
      and "within (ch_capabilities hello) k x" by (auto simp: within_def list_ex_iff)
    then obtain w where "common_version offers c = Some w" "x \<le> w"
      using common_version_max [OF o] by blast
    then show ?thesis using c(1,2) select_all(3) [OF s] by blast
  qed
  have "semantic2 ?raw" if "semantic2 ?p"
    using that raw [of CAPABILITY_SEMANTIC_STATE]
    by (auto simp: semantic2_def split: option.splits intro: order_trans)
  then have met: "met ?raw k" if "met ?p k" for k
    using met_mono [OF that] raw by blast
  have deps: "dependencies_ok ?p"
    using p by (simp add: validate_dependencies_iff [symmetric] is_ok_iff)
  have "\<exists>w. bt_get (np_capabilities n) k = Some w \<and> x \<le> w" if x: "?p k = Some x" for k x
  proof -
    have "met ?raw k" using deps met x unfolding dependencies_ok_def by blast
    then show ?thesis using raw [OF x] by (simp add: caps prune_dependencies_get)
  qed
  moreover have "np_version p \<le> np_version n" using p v by simp
  ultimately show ?thesis by blast
qed

section \<open>A concrete negotiation\<close>

definition demo_hello :: ClientHello where
  "demo_hello = client_hello ''ada'' command_line_client"

definition demo_server :: ProtocolSupport where
  "demo_server = server_protocol_support False True False"

definition demo_negotiated :: NegotiatedProtocol where
  "demo_negotiated = \<lparr> np_version = 2, np_capabilities =
    [(CAPABILITY_PAYLOAD_ZSTD, 1), (CAPABILITY_LEGACY_ANSI_SNAPSHOT, 1), (CAPABILITY_STREAM_CHANNELS, 1)] \<rparr>"

definition demo_offers :: "(string, u32 \<times> u32) btree" where
  "demo_offers = [(CAPABILITY_TCP_FORWARD, (1, 1)), (CAPABILITY_PAYLOAD_ZSTD, (1, 1)),
    (CAPABILITY_LEGACY_ANSI_SNAPSHOT, (1, 1)), (CAPABILITY_STREAM_CHANNELS, (1, 1))]"

lemma demo_server_valid: "validate_support demo_server = Inr ()"
  by code_simp

lemma demo_hello_offers: "validate_offers (ch_capabilities demo_hello) = Inr demo_offers"
  by code_simp

lemma demo_hello_range: "hello_version_range demo_hello = Inr (1, 2)"
  by code_simp

lemma demo_server_range: "ps_minimum_version demo_server = 1" "ps_maximum_version demo_server = 2"
  by (simp_all add: demo_server_def worker_supports_gateway MINIMUM_PROTOCOL_VERSION_def
      PROTOCOL_VERSION_def)

lemma demo_selected:
  "fold (\<lambda>c m. select_capability demo_offers m c) (ps_capabilities demo_server) [] =
    np_capabilities demo_negotiated"
  by code_simp

lemma prune_dependencies_unguarded:
  assumes "list_all (\<lambda>k. bt_get m k = None) guarded"
  shows "prune_dependencies m = m"
proof -
  have get: "bt_get m k = None" if "k \<in> set guarded" for k
    using assms that by (simp add: list_all_iff)
  have rm: "bt_remove k m = m" if "k \<in> set guarded" for k
    using get [OF that] by (auto simp: bt_remove_def filter_id_conv bt_get_def map_of_eq_None_iff)
  have p: "prune k c m = m" if "k \<in> set guarded" for k c using rm [OF that] by (simp add: prune_def)
  show ?thesis
    unfolding prune_dependencies_def Let_def
    by (simp add: p rm guarded_def)
qed

lemma demo_unguarded: "prune_dependencies (np_capabilities demo_negotiated) = np_capabilities demo_negotiated"
  by (rule prune_dependencies_unguarded) code_simp

lemma demo_negotiates: "negotiate_client_hello demo_hello demo_server = Inr demo_negotiated"
  by (simp add: negotiate_client_hello_def demo_server_valid demo_hello_range demo_hello_offers
      demo_server_range demo_selected demo_unguarded) (simp add: demo_negotiated_def)

theorem client_accepts_negotiation_witness:
  "validate_server_hello demo_hello
    \<lparr> sh_protocol_version = 2, sh_challenge = [7], sh_server_instance = ''gw'',
      sh_capabilities = selections demo_negotiated \<rparr> = Inr demo_negotiated"
  using client_accepts_negotiation [OF demo_negotiates, of "[7]" "''gw''"]
  by (simp add: demo_negotiated_def)

theorem worker_accepts_gateway_witness:
  "validate_worker_selection 2 (selections demo_negotiated) (server_protocol_support True True True) =
    Inr demo_negotiated"
  using worker_accepts_gateway [OF demo_negotiates [unfolded demo_server_def], of True]
  by (simp add: demo_negotiated_def)

definition demo_modest :: NegotiatedProtocol where
  "demo_modest = \<lparr> np_version = 1, np_capabilities = [(CAPABILITY_PAYLOAD_ZSTD, 1)] \<rparr>"

lemma demo_modest_agreeable: "agreeable demo_hello demo_server demo_modest"
  by code_simp

theorem negotiation_is_greatest_witness:
  "np_version demo_modest \<le> np_version demo_negotiated \<and>
    (\<exists>w. bt_get (np_capabilities demo_negotiated) CAPABILITY_PAYLOAD_ZSTD = Some w \<and> 1 \<le> w)"
  using negotiation_is_greatest [OF demo_negotiates demo_modest_agreeable]
  by (simp add: demo_modest_def bt_get_def)

end
