(* ===== verification/Compression.thy ===== *)
theory Compression
  imports Prelude
begin

text \<open>
  Negotiated payload compression (\<^verbatim>\<open>compression.rs\<close>). The Zstandard codec and SHA-256
  are third-party: a record of functions is a parameter of every definition, and
  \<open>codec_laws\<close> states what their documentation promises: a frame starts with the
  magic number, decoding a frame gives back its content with no input left over, and a
  digest has 32 bytes.
\<close>

section \<open>The codec\<close>

text \<open>\<open>zstd_decode codec n z\<close> reads at most \<open>n\<close> bytes of the first frame of \<open>z\<close>, and
  returns them with the input after that frame.\<close>

record codec =
  zstd_compress :: "bytes \<Rightarrow> bytes result"
  zstd_decode :: "nat \<Rightarrow> bytes \<Rightarrow> (bytes \<times> bytes) result"
  sha256 :: "bytes \<Rightarrow> bytes"

definition zstd_magic :: bytes where
  "zstd_magic = [0x28, 0xb5, 0x2f, 0xfd]"

definition codec_laws :: "codec \<Rightarrow> bool" where
  "codec_laws C \<longleftrightarrow>
    (\<forall>d. length (sha256 C d) = 32) \<and>
    (\<forall>d z. zstd_compress C d = Inr z \<longrightarrow> take 4 z = zstd_magic) \<and>
    (\<forall>d z n. zstd_compress C d = Inr z \<longrightarrow> length d < n \<longrightarrow> zstd_decode C n z = Inr (d, []))"

section \<open>Payloads\<close>

definition MIN_INPUT_BYTES :: usize where
  "MIN_INPUT_BYTES = 1024"

definition MIN_SAVING_BYTES :: usize where
  "MIN_SAVING_BYTES = 64"

definition MAX_FILE_CHUNK_SIZE :: usize where
  "MAX_FILE_CHUNK_SIZE = 1024 * 1024"

datatype PayloadEncoding = PayloadEncoding_None | PayloadEncoding_Zstd

fun PayloadEncoding_i32 :: "PayloadEncoding \<Rightarrow> i32" where
  "PayloadEncoding_i32 PayloadEncoding_None = 0"
| "PayloadEncoding_i32 PayloadEncoding_Zstd = 1"

definition PayloadEncoding_try_from :: "i32 \<Rightarrow> PayloadEncoding option" where
  "PayloadEncoding_try_from n =
    (if n = 0 then Some PayloadEncoding_None else if n = 1 then Some PayloadEncoding_Zstd else None)"

record EncodedPayload =
  ep_data :: bytes
  ep_encoding :: i32
  ep_uncompressed_size :: u32

definition div_ceil :: "nat \<Rightarrow> nat \<Rightarrow> nat" where
  "div_ceil n d = (n + d - 1) div d"

text \<open>The sum of two lengths of allocated buffers does not saturate a 64-bit \<^verbatim>\<open>usize\<close>;
  it is a sum of naturals here.\<close>

definition EncodedPayload_encode :: "codec \<Rightarrow> bytes \<Rightarrow> bool \<Rightarrow> usize \<Rightarrow> EncodedPayload result" where
  "EncodedPayload_encode C data enabled maximum =
    (let raw = Inr \<lparr> ep_data = data, ep_encoding = PayloadEncoding_i32 PayloadEncoding_None,
                     ep_uncompressed_size = 0 \<rparr>
     in if \<not> length data \<le> maximum then bail ''payload exceeds its raw size limit''
        else if enabled \<and> length data \<ge> MIN_INPUT_BYTES then
          and_then (zstd_compress C data) (\<lambda>compressed.
            let saving = max MIN_SAVING_BYTES (div_ceil (length data) 20)
            in if length compressed + saving \<le> length data then
                 and_then (usize_to_u32 (length data)) (\<lambda>size.
                   Inr \<lparr> ep_data = compressed, ep_encoding = PayloadEncoding_i32 PayloadEncoding_Zstd,
                         ep_uncompressed_size = size \<rparr>)
               else raw)
        else raw)"

definition validate_header :: "i32 \<Rightarrow> u32 \<Rightarrow> usize \<Rightarrow> bool \<Rightarrow> usize \<Rightarrow> unit result" where
  "validate_header encoding uncompressed_size wire_size enabled maximum =
    (if \<not> wire_size \<le> maximum then bail ''encoded payload exceeds its size limit''
     else and_then (ok_or ''unknown payload encoding'' (PayloadEncoding_try_from encoding)) (\<lambda>e.
       case e of
         PayloadEncoding_None \<Rightarrow>
           if \<not> uncompressed_size = 0 then bail ''raw payload has compression metadata'' else Inr ()
       | PayloadEncoding_Zstd \<Rightarrow>
           if \<not> enabled then bail ''zstd payload was not negotiated''
           else if \<not> (uncompressed_size > 0 \<and> unat uncompressed_size \<le> maximum)
             then bail ''uncompressed payload exceeds its size limit''
           else Inr ()))"

definition decode_bytes :: "codec \<Rightarrow> EncodedPayload \<Rightarrow> bool \<Rightarrow> usize \<Rightarrow> bytes result" where
  "decode_bytes C p enabled maximum =
    and_then (validate_header (ep_encoding p) (ep_uncompressed_size p) (length (ep_data p)) enabled maximum) (\<lambda>_.
    if ep_encoding p = PayloadEncoding_i32 PayloadEncoding_Zstd then
      (if \<not> take 4 (ep_data p) = zstd_magic then bail ''invalid zstd frame magic''
       else
         let expected = unat (ep_uncompressed_size p)
         in and_then (zstd_decode C (expected + 1) (ep_data p)) (\<lambda>(decoded, trailing).
            if \<not> length decoded = expected then bail ''decompressed payload size does not match''
            else if \<not> trailing = [] then bail ''zstd payload has trailing data''
            else Inr decoded))
    else Inr (ep_data p))"

definition EncodedPayload_decode :: "codec \<Rightarrow> EncodedPayload \<Rightarrow> bool \<Rightarrow> usize \<Rightarrow> bytes \<Rightarrow> bytes result" where
  "EncodedPayload_decode C p enabled maximum digest =
    (if \<not> length digest = 32 then bail ''payload digest is invalid''
     else and_then (decode_bytes C p enabled maximum) (\<lambda>data.
       if \<not> sha256 C data = digest then bail ''payload digest does not match'' else Inr data))"

section \<open>File chunks\<close>

record WriteFileChunkRequest =
  wc_transfer_id :: string
  wc_offset :: u64
  wc_data :: bytes
  wc_sha256 :: bytes
  wc_encoding :: i32
  wc_uncompressed_size :: u32

record FileChunkResponse =
  fc_offset :: u64
  fc_data :: bytes
  fc_sha256 :: bytes
  fc_eof :: bool
  fc_encoding :: i32
  fc_uncompressed_size :: u32

definition encode_upload :: "codec \<Rightarrow> WriteFileChunkRequest \<Rightarrow> bool \<Rightarrow> WriteFileChunkRequest result" where
  "encode_upload C chunk enabled =
    (if \<not> (wc_encoding chunk = 0 \<and> wc_uncompressed_size chunk = 0)
       then bail ''upload API requires raw bytes''
     else and_then (EncodedPayload_encode C (wc_data chunk) enabled MAX_FILE_CHUNK_SIZE) (\<lambda>payload.
       Inr (chunk\<lparr> wc_data := ep_data payload, wc_encoding := ep_encoding payload,
                   wc_uncompressed_size := ep_uncompressed_size payload \<rparr>)))"

definition decode_upload :: "codec \<Rightarrow> WriteFileChunkRequest \<Rightarrow> bool \<Rightarrow> WriteFileChunkRequest result" where
  "decode_upload C chunk enabled =
    and_then (decode_bytes C \<lparr> ep_data = wc_data chunk, ep_encoding = wc_encoding chunk,
        ep_uncompressed_size = wc_uncompressed_size chunk \<rparr> enabled MAX_FILE_CHUNK_SIZE) (\<lambda>data.
      Inr (chunk\<lparr> wc_data := data, wc_encoding := 0, wc_uncompressed_size := 0 \<rparr>))"

definition encode_download :: "codec \<Rightarrow> FileChunkResponse \<Rightarrow> bool \<Rightarrow> FileChunkResponse result" where
  "encode_download C chunk enabled =
    and_then (EncodedPayload_encode C (fc_data chunk) enabled MAX_FILE_CHUNK_SIZE) (\<lambda>payload.
      Inr (chunk\<lparr> fc_data := ep_data payload, fc_encoding := ep_encoding payload,
                  fc_uncompressed_size := ep_uncompressed_size payload \<rparr>))"

definition decode_download :: "codec \<Rightarrow> FileChunkResponse \<Rightarrow> bool \<Rightarrow> FileChunkResponse result" where
  "decode_download C chunk enabled =
    and_then (EncodedPayload_decode C \<lparr> ep_data = fc_data chunk, ep_encoding = fc_encoding chunk,
        ep_uncompressed_size = fc_uncompressed_size chunk \<rparr> enabled MAX_FILE_CHUNK_SIZE (fc_sha256 chunk)) (\<lambda>data.
      Inr (chunk\<lparr> fc_data := data, fc_encoding := 0, fc_uncompressed_size := 0 \<rparr>))"

section \<open>Decoding undoes encoding\<close>

lemma validate_header_Inr:
  "validate_header e u w en mx = Inr () \<longleftrightarrow> w \<le> mx \<and>
    (e = 0 \<and> u = 0 \<or> e = 1 \<and> en \<and> 0 < u \<and> unat u \<le> mx)"
  by (auto simp: validate_header_def PayloadEncoding_try_from_def bail_def)

lemma encode_Inr:
  assumes "EncodedPayload_encode C data enabled maximum = Inr p"
  obtains (raw) "length data \<le> maximum" "p = \<lparr> ep_data = data, ep_encoding = 0, ep_uncompressed_size = 0 \<rparr>"
  | (zstd) z where "enabled" "length data \<le> maximum" "MIN_INPUT_BYTES \<le> length data"
      "zstd_compress C data = Inr z" "length z + MIN_SAVING_BYTES \<le> length data"
      "p = \<lparr> ep_data = z, ep_encoding = 1, ep_uncompressed_size = word_of_nat (length data) \<rparr>"
      "length data < 2 ^ 32"
proof -
  have le: "length data \<le> maximum"
    using assms by (auto simp: EncodedPayload_encode_def Let_def split: if_splits)
  show ?thesis
  proof (cases "enabled \<and> length data \<ge> MIN_INPUT_BYTES")
    case False
    then show ?thesis using assms le raw by (auto simp: EncodedPayload_encode_def Let_def)
  next
    case True
    then obtain z where z: "zstd_compress C data = Inr z"
      using assms le by (auto simp: EncodedPayload_encode_def Let_def and_then_Inr)
    show ?thesis
    proof (cases "length z + max MIN_SAVING_BYTES (div_ceil (length data) 20) \<le> length data")
      case False
      then show ?thesis using assms le True z raw by (simp add: EncodedPayload_encode_def Let_def)
    next
      case small: True
      then have "length z + MIN_SAVING_BYTES \<le> length data" by simp
      moreover obtain u where "usize_to_u32 (length data) = Inr u"
        "p = \<lparr> ep_data = z, ep_encoding = 1, ep_uncompressed_size = u \<rparr>"
        using assms le True z small by (auto simp: EncodedPayload_encode_def Let_def and_then_Inr)
      ultimately show ?thesis
        using True le z zstd by (auto simp: usize_to_u32_def split: if_splits)
    qed
  qed
qed

lemma decode_bytes_encode:
  assumes laws: "codec_laws C" and enc: "EncodedPayload_encode C data enabled maximum = Inr p"
  shows "decode_bytes C p enabled maximum = Inr data"
  using enc
proof (cases rule: encode_Inr)
  case raw
  then show ?thesis
    by (simp add: decode_bytes_def validate_header_Inr [THEN iffD2])
next
  case (zstd z)
  have u: "unat (word_of_nat (length data) :: u32) = length data" using zstd by simp
  have "0 < length data" using zstd(3) unfolding MIN_INPUT_BYTES_def by linarith
  then have "0 < (word_of_nat (length data) :: u32)" unfolding word_less_nat_alt u by simp
  moreover have "take 4 z = zstd_magic" "zstd_decode C (length data + 1) z = Inr (data, [])"
    using laws zstd(4) by (simp_all add: codec_laws_def)
  ultimately show ?thesis
    using zstd u by (simp add: decode_bytes_def validate_header_Inr [THEN iffD2])
qed

lemma decode_encode:
  assumes "codec_laws C" "EncodedPayload_encode C data enabled maximum = Inr p"
  shows "EncodedPayload_decode C p enabled maximum (sha256 C data) = Inr data"
  using decode_bytes_encode [OF assms] assms(1)
  by (simp add: EncodedPayload_decode_def codec_laws_def)

lemma decode_bytes_Inr:
  assumes "decode_bytes C p enabled maximum = Inr d"
  shows "length (ep_data p) \<le> maximum" "length d \<le> maximum"
    "ep_encoding p \<noteq> 0 \<Longrightarrow> enabled \<and> length d = unat (ep_uncompressed_size p)"
proof -
  have h: "validate_header (ep_encoding p) (ep_uncompressed_size p) (length (ep_data p)) enabled maximum = Inr ()"
    using assms by (auto simp: decode_bytes_def and_then_Inr)
  then show "length (ep_data p) \<le> maximum" by (simp add: validate_header_Inr)
  have "length d \<le> maximum \<and> (ep_encoding p \<noteq> 0 \<longrightarrow> enabled \<and> length d = unat (ep_uncompressed_size p))"
  proof (cases "ep_encoding p = 1")
    case True
    then have "length d = unat (ep_uncompressed_size p)"
      using assms by (auto simp: decode_bytes_def and_then_Inr Let_def split: if_splits)
    then show ?thesis using h True by (simp add: validate_header_Inr)
  next
    case False
    then have "d = ep_data p" using assms by (simp add: decode_bytes_def and_then_unit)
    then show ?thesis using h False by (simp add: validate_header_Inr)
  qed
  then show "length d \<le> maximum"
    "ep_encoding p \<noteq> 0 \<Longrightarrow> enabled \<and> length d = unat (ep_uncompressed_size p)" by blast+
qed

lemma upload_chunk_round_trip:
  assumes "codec_laws C" "encode_upload C up enabled = Inr up'"
  shows "decode_upload C up' enabled = Inr up"
proof -
  obtain p where z: "wc_encoding up = 0" "wc_uncompressed_size up = 0"
    and p: "EncodedPayload_encode C (wc_data up) enabled MAX_FILE_CHUNK_SIZE = Inr p"
    and up': "up' = up\<lparr> wc_data := ep_data p, wc_encoding := ep_encoding p,
      wc_uncompressed_size := ep_uncompressed_size p \<rparr>"
    using assms(2) by (auto simp: encode_upload_def and_then_Inr split: if_splits)
  have "decode_bytes C p enabled MAX_FILE_CHUNK_SIZE = Inr (wc_data up)"
    by (rule decode_bytes_encode [OF assms(1) p])
  moreover have "\<lparr> ep_data = wc_data up', ep_encoding = wc_encoding up',
      ep_uncompressed_size = wc_uncompressed_size up' \<rparr> = p" by (simp add: up')
  moreover have "up'\<lparr> wc_data := wc_data up, wc_encoding := 0, wc_uncompressed_size := 0 \<rparr> = up"
    using z by (simp add: up')
  ultimately show "decode_upload C up' enabled = Inr up" by (simp add: decode_upload_def)
qed

lemma download_chunk_round_trip:
  assumes "codec_laws C" "encode_download C down enabled = Inr down'"
    and "fc_encoding down = 0" "fc_uncompressed_size down = 0" "fc_sha256 down = sha256 C (fc_data down)"
  shows "decode_download C down' enabled = Inr down"
proof -
  obtain p where p: "EncodedPayload_encode C (fc_data down) enabled MAX_FILE_CHUNK_SIZE = Inr p"
    and down': "down' = down\<lparr> fc_data := ep_data p, fc_encoding := ep_encoding p,
      fc_uncompressed_size := ep_uncompressed_size p \<rparr>"
    using assms(2) by (auto simp: encode_download_def and_then_Inr)
  have "EncodedPayload_decode C p enabled MAX_FILE_CHUNK_SIZE (fc_sha256 down') = Inr (fc_data down)"
    using decode_encode [OF assms(1) p] assms(5) by (simp add: down')
  moreover have "\<lparr> ep_data = fc_data down', ep_encoding = fc_encoding down',
      ep_uncompressed_size = fc_uncompressed_size down' \<rparr> = p" by (simp add: down')
  moreover have "down'\<lparr> fc_data := fc_data down, fc_encoding := 0, fc_uncompressed_size := 0 \<rparr> = down"
    using assms(3,4) by (simp add: down')
  ultimately show "decode_download C down' enabled = Inr down" by (simp add: decode_download_def)
qed

section \<open>What a receiver accepts\<close>

text \<open>A codec to run on: a frame is the magic number followed by the content, a digest
  repeats the first byte.\<close>

definition demo_codec :: codec where
  "demo_codec = \<lparr> zstd_compress = (\<lambda>d. Inr (zstd_magic @ d)),
     zstd_decode = (\<lambda>n z. Inr (take n (drop 4 z), [])),
     sha256 = (\<lambda>d. replicate 32 (if d = [] then 0 else hd d)) \<rparr>"

lemma demo_codec_laws: "codec_laws demo_codec"
  by (simp add: codec_laws_def demo_codec_def zstd_magic_def)

text \<open>What a receiver accepts is bounded and authentic, whatever the peer or the codec
  does: a decoded payload is never larger than the limit of its kind and always has the
  announced digest, and a compressed payload is refused unless it was negotiated.\<close>

lemma decoded_payload_sound:
  assumes "EncodedPayload_decode C p enabled maximum digest = Inr d"
  shows "length d \<le> maximum \<and> length (ep_data p) \<le> maximum \<and> sha256 C d = digest \<and> length digest = 32 \<and>
    (ep_encoding p \<noteq> 0 \<longrightarrow> enabled \<and> length d = unat (ep_uncompressed_size p))"
proof -
  have b: "decode_bytes C p enabled maximum = Inr d" and dg: "length digest = 32" "sha256 C d = digest"
    using assms by (auto simp: EncodedPayload_decode_def and_then_Inr split: if_splits)
  then show ?thesis using decode_bytes_Inr [OF b] by blast
qed

end
