(* ===== verification/Payload_Transfer.thy ===== *)
theory Payload_Transfer
  imports Compression Terminal_Sync
begin

text \<open>
  Reliable keyframes and history pages travel as a sequence of chunks
  (\<^verbatim>\<open>server.rs\<close>, \<^verbatim>\<open>terminal_state_chunks\<close> and its siblings) that the receiver puts
  together again (\<^verbatim>\<open>terminal_streaming.rs\<close>, \<^verbatim>\<open>TransferAssembler\<close>). The protobuf encoding
  of the messages is a parameter, with the law that decoding undoes encoding where a
  theorem needs it.
\<close>

section \<open>Chunks\<close>

definition MAX_TRANSFER_CHUNKS :: usize where
  "MAX_TRANSFER_CHUNKS = 4096"

definition TERMINAL_STATE_CHUNK_BYTES :: usize where
  "TERMINAL_STATE_CHUNK_BYTES = 512 * 1024"

record TerminalStateChunk =
  sc_transfer_id :: bytes
  sc_chunk_index :: u32
  sc_chunk_count :: u32
  sc_total_size :: u32
  sc_sha256 :: bytes
  sc_data :: bytes
  sc_encoding :: i32
  sc_uncompressed_size :: u32

record TerminalStateDiffChunk =
  dc_transfer_id :: bytes
  dc_chunk_index :: u32
  dc_chunk_count :: u32
  dc_total_size :: u32
  dc_sha256 :: bytes
  dc_data :: bytes

record HistoryPageChunk =
  hc_transfer_id :: bytes
  hc_chunk_index :: u32
  hc_chunk_count :: u32
  hc_total_size :: u32
  hc_sha256 :: bytes
  hc_data :: bytes
  hc_encoding :: i32
  hc_uncompressed_size :: u32

record TransferChunk =
  tc_transfer_id :: bytes
  tc_chunk_index :: u32
  tc_chunk_count :: u32
  tc_total_size :: u32
  tc_sha256 :: bytes
  tc_data :: bytes
  tc_encoding :: i32
  tc_uncompressed_size :: u32

definition TransferChunk_from_state :: "TerminalStateChunk \<Rightarrow> TransferChunk" where
  "TransferChunk_from_state c = \<lparr> tc_transfer_id = sc_transfer_id c, tc_chunk_index = sc_chunk_index c,
    tc_chunk_count = sc_chunk_count c, tc_total_size = sc_total_size c, tc_sha256 = sc_sha256 c,
    tc_data = sc_data c, tc_encoding = sc_encoding c, tc_uncompressed_size = sc_uncompressed_size c \<rparr>"

definition TransferChunk_from_history :: "HistoryPageChunk \<Rightarrow> TransferChunk" where
  "TransferChunk_from_history c = \<lparr> tc_transfer_id = hc_transfer_id c, tc_chunk_index = hc_chunk_index c,
    tc_chunk_count = hc_chunk_count c, tc_total_size = hc_total_size c, tc_sha256 = hc_sha256 c,
    tc_data = hc_data c, tc_encoding = hc_encoding c, tc_uncompressed_size = hc_uncompressed_size c \<rparr>"

section \<open>The sender\<close>

text \<open>\<^verbatim>\<open>encoded[start..end]\<close> for the chunk with a given index.\<close>

definition chunk_slice :: "bytes \<Rightarrow> nat \<Rightarrow> bytes" where
  "chunk_slice encoded index =
    (let start = index * TERMINAL_STATE_CHUNK_BYTES;
         stop = min (start + TERMINAL_STATE_CHUNK_BYTES) (length encoded)
     in take (stop - start) (drop start encoded))"

definition chunk_count_of :: "bytes \<Rightarrow> nat" where
  "chunk_count_of encoded = div_ceil (max (length encoded) 1) TERMINAL_STATE_CHUNK_BYTES"

definition terminal_state_chunks ::
  "codec \<Rightarrow> (State \<Rightarrow> bytes) \<Rightarrow> bytes \<Rightarrow> State \<Rightarrow> bool \<Rightarrow> TerminalStateChunk list result" where
  "terminal_state_chunks C encode_to_vec new_id state zstd =
    (let raw = encode_to_vec state in
     if length raw > MAX_ENCODED_STATE_BYTES
       then bail ''terminal state exceeds the semantic state transport limit''
     else and_then (EncodedPayload_encode C raw zstd MAX_ENCODED_STATE_BYTES) (\<lambda>payload.
       let encoded = ep_data payload in
       and_then (usize_to_u32 (length encoded)) (\<lambda>total_size.
       and_then (usize_to_u32 (chunk_count_of encoded)) (\<lambda>chunk_count.
         Inr (map (\<lambda>i. \<lparr> sc_transfer_id = new_id, sc_chunk_index = word_of_nat i,
             sc_chunk_count = chunk_count, sc_total_size = total_size, sc_sha256 = sha256 C raw,
             sc_data = chunk_slice encoded i, sc_encoding = ep_encoding payload,
             sc_uncompressed_size = ep_uncompressed_size payload \<rparr>) [0..<unat chunk_count])))))"

definition terminal_state_diff_chunks ::
  "codec \<Rightarrow> (TerminalStateDiff \<Rightarrow> bytes) \<Rightarrow> bytes \<Rightarrow> TerminalStateDiff \<Rightarrow> TerminalStateDiffChunk list result" where
  "terminal_state_diff_chunks C encode_to_vec new_id diff =
    (let encoded = encode_to_vec diff in
     if length encoded > MAX_ENCODED_STATE_BYTES
       then bail ''terminal state diff exceeds the semantic state transport limit''
     else and_then (usize_to_u32 (length encoded)) (\<lambda>total_size.
       and_then (usize_to_u32 (chunk_count_of encoded)) (\<lambda>chunk_count.
         Inr (map (\<lambda>i. \<lparr> dc_transfer_id = new_id, dc_chunk_index = word_of_nat i,
             dc_chunk_count = chunk_count, dc_total_size = total_size, dc_sha256 = sha256 C encoded,
             dc_data = chunk_slice encoded i \<rparr>) [0..<unat chunk_count]))))"

definition history_page_chunks ::
  "codec \<Rightarrow> (HistoryPage \<Rightarrow> bytes) \<Rightarrow> bytes \<Rightarrow> HistoryPage \<Rightarrow> bool \<Rightarrow> HistoryPageChunk list result" where
  "history_page_chunks C encode_to_vec new_id page zstd =
    (let raw = encode_to_vec page in
     if length raw > MAX_ENCODED_HISTORY_PAGE_BYTES
       then bail ''terminal history page exceeds the transport limit''
     else and_then (EncodedPayload_encode C raw zstd MAX_ENCODED_HISTORY_PAGE_BYTES) (\<lambda>payload.
       let encoded = ep_data payload in
       and_then (usize_to_u32 (length encoded)) (\<lambda>total_size.
       and_then (usize_to_u32 (chunk_count_of encoded)) (\<lambda>chunk_count.
         Inr (map (\<lambda>i. \<lparr> hc_transfer_id = new_id, hc_chunk_index = word_of_nat i,
             hc_chunk_count = chunk_count, hc_total_size = total_size, hc_sha256 = sha256 C raw,
             hc_data = chunk_slice encoded i, hc_encoding = ep_encoding payload,
             hc_uncompressed_size = ep_uncompressed_size payload \<rparr>) [0..<unat chunk_count])))))"

section \<open>The receiver\<close>

record PendingTransfer =
  pt_transfer_id :: bytes
  pt_total_size :: usize
  pt_sha256 :: bytes
  pt_chunks :: "bytes option list"
  pt_received_size :: usize
  pt_received_chunks :: usize
  pt_encoding :: i32
  pt_uncompressed_size :: u32

record TransferAssembler =
  ta_pending :: "PendingTransfer option"
  ta_allow_zstd :: bool

definition TransferAssembler_with_zstd :: "bool \<Rightarrow> TransferAssembler" where
  "TransferAssembler_with_zstd allow_zstd = \<lparr> ta_pending = None, ta_allow_zstd = allow_zstd \<rparr>"

text \<open>The checks on the chunk alone, in source order.\<close>

definition check_chunk :: "TransferAssembler \<Rightarrow> TransferChunk \<Rightarrow> usize \<Rightarrow> unit result" where
  "check_chunk a chunk maximum_size =
    (if \<not> length (tc_transfer_id chunk) = 16 then bail ''terminal transfer ID is invalid''
     else if \<not> length (tc_sha256 chunk) = 32 then bail ''terminal transfer digest is invalid''
     else if \<not> (1 \<le> unat (tc_chunk_count chunk) \<and> unat (tc_chunk_count chunk) \<le> MAX_TRANSFER_CHUNKS)
       then bail ''terminal transfer chunk count is invalid''
     else if \<not> unat (tc_chunk_index chunk) < unat (tc_chunk_count chunk)
       then bail ''terminal transfer chunk index is invalid''
     else if \<not> unat (tc_total_size chunk) \<le> maximum_size then bail ''terminal transfer is too large''
     else validate_header (tc_encoding chunk) (tc_uncompressed_size chunk) (unat (tc_total_size chunk))
       (ta_allow_zstd a) maximum_size)"

definition begin_transfer :: "TransferAssembler \<Rightarrow> TransferChunk \<Rightarrow> PendingTransfer result" where
  "begin_transfer a chunk =
    (case ta_pending a of
      Some pending \<Rightarrow>
        if \<not> pt_transfer_id pending = tc_transfer_id chunk
        then bail ''terminal transfer changed before completion'' else Inr pending
    | None \<Rightarrow>
        if \<not> unat (tc_chunk_index chunk) = 0
        then bail ''terminal transfer started after its first chunk''
        else Inr \<lparr> pt_transfer_id = tc_transfer_id chunk, pt_total_size = unat (tc_total_size chunk),
          pt_sha256 = tc_sha256 chunk, pt_chunks = replicate (unat (tc_chunk_count chunk)) None,
          pt_received_size = 0, pt_received_chunks = 0, pt_encoding = tc_encoding chunk,
          pt_uncompressed_size = tc_uncompressed_size chunk \<rparr>)"

definition same_transfer :: "PendingTransfer \<Rightarrow> TransferChunk \<Rightarrow> bool" where
  "same_transfer pending chunk \<longleftrightarrow>
    pt_transfer_id pending = tc_transfer_id chunk \<and> pt_total_size pending = unat (tc_total_size chunk) \<and>
    pt_sha256 pending = tc_sha256 chunk \<and> pt_encoding pending = tc_encoding chunk \<and>
    pt_uncompressed_size pending = tc_uncompressed_size chunk \<and>
    length (pt_chunks pending) = unat (tc_chunk_count chunk)"

definition finish_transfer :: "codec \<Rightarrow> bool \<Rightarrow> PendingTransfer \<Rightarrow> usize \<Rightarrow> bytes option result" where
  "finish_transfer C allow_zstd pending maximum_size =
    and_then (try_map (ok_or ''terminal transfer has a missing chunk'') (pt_chunks pending)) (\<lambda>parts.
    let encoded = concat parts in
    if \<not> length encoded = pt_total_size pending then bail ''terminal transfer size does not match''
    else and_then (EncodedPayload_decode C \<lparr> ep_data = encoded, ep_encoding = pt_encoding pending,
          ep_uncompressed_size = pt_uncompressed_size pending \<rparr> allow_zstd maximum_size (pt_sha256 pending))
      (\<lambda>data. Inr (Some data)))"

text \<open>The assembler is a mutable structure: a push that fails after it installed or
  changed the pending transfer leaves that change behind, so the new assembler is
  returned in every case.\<close>

definition TransferAssembler_push ::
  "codec \<Rightarrow> TransferAssembler \<Rightarrow> TransferChunk \<Rightarrow> usize \<Rightarrow> TransferAssembler \<times> bytes option result" where
  "TransferAssembler_push C a chunk maximum_size =
    (case and_then (check_chunk a chunk maximum_size) (\<lambda>_. begin_transfer a chunk) of
      Inl e \<Rightarrow> (a, Inl e)
    | Inr pending \<Rightarrow>
        let a1 = a\<lparr> ta_pending := Some pending \<rparr>;
            index = unat (tc_chunk_index chunk)
        in if \<not> same_transfer pending chunk then (a1, bail ''terminal transfer metadata changed'')
           else (case slice_index (pt_chunks pending) index of
               Inl e \<Rightarrow> (a1, Inl e)
             | Inr (Some existing) \<Rightarrow>
                 if \<not> existing = tc_data chunk
                 then (a1, bail ''terminal transfer chunk changed on retransmission'')
                 else (a1, Inr None)
             | Inr None \<Rightarrow>
                 (case usize_checked_add (pt_received_size pending) (length (tc_data chunk)) of
                   None \<Rightarrow> (a1, bail ''terminal transfer size overflowed'')
                 | Some received \<Rightarrow>
                     let p1 = pending\<lparr> pt_received_size := received \<rparr>
                     in if \<not> received \<le> pt_total_size p1
                        then (a\<lparr> ta_pending := Some p1 \<rparr>, bail ''terminal transfer exceeds declared size'')
                        else let p2 = p1\<lparr> pt_received_chunks := pt_received_chunks p1 + 1,
                                          pt_chunks := (pt_chunks p1)[index := Some (tc_data chunk)] \<rparr>
                             in if pt_received_chunks p2 \<noteq> length (pt_chunks p2)
                                then (a\<lparr> ta_pending := Some p2 \<rparr>, Inr None)
                                else (a\<lparr> ta_pending := None \<rparr>,
                                      finish_transfer C (ta_allow_zstd a) p2 maximum_size))))"

definition TerminalStateAssembler_push ::
  "codec \<Rightarrow> (bytes \<Rightarrow> State result) \<Rightarrow> (State \<Rightarrow> nat) \<Rightarrow> (string \<Rightarrow> nat) \<Rightarrow> TransferAssembler
     \<Rightarrow> TerminalStateChunk \<Rightarrow> TransferAssembler \<times> State option result" where
  "TerminalStateAssembler_push C decode encoded_len graphemes a chunk =
    (let (a', r) = TransferAssembler_push C a (TransferChunk_from_state chunk) MAX_ENCODED_STATE_BYTES
     in (a', and_then r (\<lambda>encoded. case encoded of
          None \<Rightarrow> Inr None
        | Some encoded \<Rightarrow> and_then (decode encoded) (\<lambda>state.
            and_then (with_context ''received terminal state is invalid''
              (validate encoded_len graphemes state)) (\<lambda>_. Inr (Some state))))))"

definition HistoryPageAssembler_push ::
  "codec \<Rightarrow> (bytes \<Rightarrow> HistoryPage result) \<Rightarrow> (HistoryPage \<Rightarrow> nat) \<Rightarrow> (string \<Rightarrow> nat) \<Rightarrow> TransferAssembler
     \<Rightarrow> HistoryPageChunk \<Rightarrow> TransferAssembler \<times> HistoryPage option result" where
  "HistoryPageAssembler_push C decode encoded_len graphemes a chunk =
    (let (a', r) = TransferAssembler_push C a (TransferChunk_from_history chunk) MAX_ENCODED_HISTORY_PAGE_BYTES
     in (a', and_then r (\<lambda>encoded. case encoded of
          None \<Rightarrow> Inr None
        | Some encoded \<Rightarrow> and_then (decode encoded) (\<lambda>page.
            and_then (with_context ''received terminal history page is invalid''
              (validate_history_page encoded_len graphemes page)) (\<lambda>_. Inr (Some page))))))"

text \<open>Pushing a sequence of chunks, with the result of each push.\<close>

fun push_all :: "('a \<Rightarrow> 'c \<Rightarrow> 'a \<times> 'r) \<Rightarrow> 'a \<Rightarrow> 'c list \<Rightarrow> 'a \<times> 'r list" where
  "push_all f a [] = (a, [])"
| "push_all f a (c # cs) = (let (a', r) = f a c; (a'', rs) = push_all f a' cs in (a'', r # rs))"

section \<open>Chunking\<close>

lemma chunk_slice_alt:
  "chunk_slice encoded i = take TERMINAL_STATE_CHUNK_BYTES (drop (i * TERMINAL_STATE_CHUNK_BYTES) encoded)"
  by (simp add: chunk_slice_def Let_def min_def)

lemma concat_slices:
  "concat (map (\<lambda>i. take b (drop (i * b) xs)) [0..<n]) = take (n * b) xs"
proof (induction n)
  case (Suc n)
  have "take (n * b) xs @ take b (drop (n * b) xs) = take (n * b + b) xs" by (simp add: take_add)
  then show ?case using Suc by (simp add: add.commute)
qed simp

lemma div_ceil_mult: "0 < d \<Longrightarrow> n \<le> div_ceil n d * d"
proof -
  assume d: "0 < d"
  have "n + d - 1 = (n + d - 1) div d * d + (n + d - 1) mod d" by simp
  moreover have "(n + d - 1) mod d < d" using d by simp
  ultimately have "n + d - 1 < (n + d - 1) div d * d + d" by linarith
  then show ?thesis unfolding div_ceil_def using d by linarith
qed

lemma div_ceil_le: "0 < d \<Longrightarrow> n \<le> m * d \<Longrightarrow> div_ceil n d \<le> m"
proof -
  assume d: "0 < d" "n \<le> m * d"
  then have "n + d - 1 < (m + 1) * d" by simp
  then have "div_ceil n d < m + 1" unfolding div_ceil_def using d(1) by (simp add: div_less_iff_less_mult)
  then show ?thesis by simp
qed

lemma div_ceil_pos: "0 < d \<Longrightarrow> 0 < n \<Longrightarrow> 0 < div_ceil n d"
  by (simp add: div_ceil_def div_greater_zero_iff)

lemma concat_chunks: "concat (map (chunk_slice encoded) [0..<chunk_count_of encoded]) = encoded"
proof -
  have "length encoded \<le> chunk_count_of encoded * TERMINAL_STATE_CHUNK_BYTES"
    using div_ceil_mult [of TERMINAL_STATE_CHUNK_BYTES "max (length encoded) 1"]
    by (simp add: chunk_count_of_def TERMINAL_STATE_CHUNK_BYTES_def)
  then show ?thesis unfolding chunk_slice_alt [abs_def] concat_slices by simp
qed

lemma sum_chunks: "(\<Sum>i<chunk_count_of encoded. length (chunk_slice encoded i)) = length encoded"
proof -
  have "length (concat (map (chunk_slice encoded) [0..<chunk_count_of encoded])) =
      (\<Sum>i<chunk_count_of encoded. length (chunk_slice encoded i))"
    by (simp add: length_concat o_def interv_sum_list_conv_sum_set_nat atLeast0LessThan)
  then show ?thesis by (simp add: concat_chunks)
qed

lemma chunk_count_pos: "0 < chunk_count_of encoded"
  by (simp add: chunk_count_of_def div_ceil_pos TERMINAL_STATE_CHUNK_BYTES_def)

lemma chunk_count_le:
  assumes "length encoded \<le> 8 * 1024 * 1024"
  shows "chunk_count_of encoded \<le> 16"
  unfolding chunk_count_of_def
  by (rule div_ceil_le) (use assms in \<open>simp_all add: TERMINAL_STATE_CHUNK_BYTES_def\<close>)

section \<open>Reassembly\<close>

text \<open>The chunk with a given index of the transfer of a payload, and the pending transfer
  of a receiver that has the chunks with the indices in a set.\<close>

definition transfer_chunk :: "bytes \<Rightarrow> bytes \<Rightarrow> EncodedPayload \<Rightarrow> nat \<Rightarrow> TransferChunk" where
  "transfer_chunk new_id digest p i = \<lparr> tc_transfer_id = new_id, tc_chunk_index = word_of_nat i,
    tc_chunk_count = word_of_nat (chunk_count_of (ep_data p)),
    tc_total_size = word_of_nat (length (ep_data p)), tc_sha256 = digest,
    tc_data = chunk_slice (ep_data p) i, tc_encoding = ep_encoding p,
    tc_uncompressed_size = ep_uncompressed_size p \<rparr>"

definition received :: "bytes \<Rightarrow> bytes \<Rightarrow> EncodedPayload \<Rightarrow> nat set \<Rightarrow> PendingTransfer" where
  "received new_id digest p S = \<lparr> pt_transfer_id = new_id, pt_total_size = length (ep_data p),
    pt_sha256 = digest,
    pt_chunks = map (\<lambda>i. if i \<in> S then Some (chunk_slice (ep_data p) i) else None)
      [0..<chunk_count_of (ep_data p)],
    pt_received_size = (\<Sum>i\<in>S. length (chunk_slice (ep_data p) i)), pt_received_chunks = card S,
    pt_encoding = ep_encoding p, pt_uncompressed_size = ep_uncompressed_size p \<rparr>"

definition transferable :: "bytes \<Rightarrow> bytes \<Rightarrow> EncodedPayload \<Rightarrow> bool \<Rightarrow> usize \<Rightarrow> bool" where
  "transferable new_id digest p zstd maximum \<longleftrightarrow>
    length new_id = 16 \<and> length digest = 32 \<and> maximum \<le> 8 * 1024 * 1024 \<and>
    validate_header (ep_encoding p) (ep_uncompressed_size p) (length (ep_data p)) zstd maximum = Inr ()"

lemma transferable_facts:
  assumes "transferable new_id digest p zstd maximum"
  shows "length (ep_data p) \<le> maximum" "unat (word_of_nat (length (ep_data p)) :: u32) = length (ep_data p)"
    "chunk_count_of (ep_data p) \<le> 16"
    "unat (word_of_nat (chunk_count_of (ep_data p)) :: u32) = chunk_count_of (ep_data p)"
    "i < chunk_count_of (ep_data p) \<Longrightarrow> unat (word_of_nat i :: u32) = i"
proof -
  show l: "length (ep_data p) \<le> maximum" using assms by (simp add: transferable_def validate_header_Inr)
  then have m: "length (ep_data p) \<le> 8 * 1024 * 1024" using assms by (simp add: transferable_def)
  then show "unat (word_of_nat (length (ep_data p)) :: u32) = length (ep_data p)" by simp
  show c: "chunk_count_of (ep_data p) \<le> 16" by (rule chunk_count_le [OF m])
  then show "unat (word_of_nat (chunk_count_of (ep_data p)) :: u32) = chunk_count_of (ep_data p)" by simp
  show "unat (word_of_nat i :: u32) = i" if "i < chunk_count_of (ep_data p)" using c that by simp
qed

lemma received_insert:
  assumes "i < chunk_count_of (ep_data p)" "i \<notin> S" "finite S"
  shows "(received new_id digest p S)
      \<lparr> pt_received_size := pt_received_size (received new_id digest p S) + length (chunk_slice (ep_data p) i),
        pt_received_chunks := pt_received_chunks (received new_id digest p S) + 1,
        pt_chunks := (pt_chunks (received new_id digest p S))[i := Some (chunk_slice (ep_data p) i)] \<rparr> =
    received new_id digest p (insert i S)"
proof -
  have "(map (\<lambda>j. if j \<in> S then Some (chunk_slice (ep_data p) j) else None)
      [0..<chunk_count_of (ep_data p)])[i := Some (chunk_slice (ep_data p) i)] =
    map (\<lambda>j. if j \<in> insert i S then Some (chunk_slice (ep_data p) j) else None)
      [0..<chunk_count_of (ep_data p)]"
    using assms(1) by (intro nth_equalityI) (auto simp: nth_list_update)
  then show ?thesis using assms(2,3) by (simp add: received_def add.commute)
qed

lemma received_size_le:
  assumes "S \<subseteq> {..<chunk_count_of (ep_data p)}"
  shows "(\<Sum>i\<in>S. length (chunk_slice (ep_data p) i)) \<le> length (ep_data p)"
proof -
  have "(\<Sum>i\<in>S. length (chunk_slice (ep_data p) i)) \<le>
      (\<Sum>i<chunk_count_of (ep_data p). length (chunk_slice (ep_data p) i))"
    using assms by (intro sum_mono2) auto
  then show ?thesis by (simp only: sum_chunks)
qed

lemma check_transfer_chunk:
  assumes "transferable new_id digest p (ta_allow_zstd a) maximum" "i < chunk_count_of (ep_data p)"
  shows "check_chunk a (transfer_chunk new_id digest p i) maximum = Inr ()"
  using assms transferable_facts [OF assms(1)] chunk_count_pos [of "ep_data p"]
  by (simp add: check_chunk_def transfer_chunk_def transferable_def MAX_TRANSFER_CHUNKS_def)

lemma same_transfer_received:
  assumes "transferable new_id digest p zstd maximum"
  shows "same_transfer (received new_id digest p S) (transfer_chunk new_id digest p i)"
  using transferable_facts [OF assms] by (simp add: same_transfer_def received_def transfer_chunk_def)

lemma push_transfer_chunk:
  assumes tr: "transferable new_id digest p zstd maximum"
    and i: "i < chunk_count_of (ep_data p)" and S: "S \<subseteq> {..<chunk_count_of (ep_data p)}"
    and start: "begin_transfer \<lparr> ta_pending = pend, ta_allow_zstd = zstd \<rparr> (transfer_chunk new_id digest p i)
      = Inr (received new_id digest p S)"
  shows "TransferAssembler_push C \<lparr> ta_pending = pend, ta_allow_zstd = zstd \<rparr>
      (transfer_chunk new_id digest p i) maximum =
    (if i \<in> S then (\<lparr> ta_pending = Some (received new_id digest p S), ta_allow_zstd = zstd \<rparr>, Inr None)
     else if insert i S = {..<chunk_count_of (ep_data p)}
       then (\<lparr> ta_pending = None, ta_allow_zstd = zstd \<rparr>,
         finish_transfer C zstd (received new_id digest p (insert i S)) maximum)
     else (\<lparr> ta_pending = Some (received new_id digest p (insert i S)), ta_allow_zstd = zstd \<rparr>, Inr None))"
proof -
  let ?a = "\<lparr> ta_pending = pend, ta_allow_zstd = zstd \<rparr>" and ?n = "chunk_count_of (ep_data p)"
  let ?c = "transfer_chunk new_id digest p i" and ?r = "received new_id digest p"
  have fin: "finite S" using S finite_subset by blast
  have chk: "check_chunk ?a ?c maximum = Inr ()" by (rule check_transfer_chunk) (use tr i in simp_all)
  have idx: "unat (tc_chunk_index ?c) = i"
    using transferable_facts(5) [OF tr i] by (simp add: transfer_chunk_def)
  have data: "tc_data ?c = chunk_slice (ep_data p) i" by (simp add: transfer_chunk_def)
  have get: "slice_index (pt_chunks (?r S)) i = Inr (if i \<in> S then Some (chunk_slice (ep_data p) i) else None)"
    using i by (simp add: slice_index_def received_def)
  note same = same_transfer_received [OF tr, of S i]
  show ?thesis
  proof (cases "i \<in> S")
    case True
    then show ?thesis
      by (simp add: TransferAssembler_push_def chk start same idx get data)
  next
    case False
    then have ins: "insert i S \<subseteq> {..<?n}" using S i by simp
    have size: "pt_received_size (?r S) + length (chunk_slice (ep_data p) i) =
        (\<Sum>j\<in>insert i S. length (chunk_slice (ep_data p) j))"
      using False fin by (simp add: received_def)
    have le: "pt_received_size (?r S) + length (chunk_slice (ep_data p) i) \<le> length (ep_data p)"
      unfolding size by (rule received_size_le [OF ins])
    have small: "length (ep_data p) < 2 ^ 64"
      using transferable_facts(1) [OF tr] tr by (simp add: transferable_def)
    have add: "usize_checked_add (pt_received_size (?r S)) (length (chunk_slice (ep_data p) i)) =
        Some (pt_received_size (?r S) + length (chunk_slice (ep_data p) i))"
      using le small by (simp add: usize_checked_add_def)
    have full: "card (insert i S) = ?n \<longleftrightarrow> insert i S = {..<?n}"
      using ins card_subset_eq [of "{..<?n}" "insert i S"] by auto
    have cnt: "pt_received_chunks (?r (insert i S)) = card (insert i S)"
      "length (pt_chunks (?r (insert i S))) = ?n" "pt_total_size (?r S) = length (ep_data p)"
      by (simp_all add: received_def)
    have upd: "(?r S)\<lparr> pt_received_size := pt_received_size (?r S) + length (chunk_slice (ep_data p) i),
        pt_received_chunks := pt_received_chunks (?r S) + 1,
        pt_chunks := (pt_chunks (?r S))[i := Some (chunk_slice (ep_data p) i)] \<rparr> = ?r (insert i S)"
      by (rule received_insert [OF i False fin])
    let ?p1 = "(?r S)\<lparr> pt_received_size := pt_received_size (?r S) + length (chunk_slice (ep_data p) i) \<rparr>"
    have p2: "?p1\<lparr> pt_received_chunks := pt_received_chunks ?p1 + 1,
        pt_chunks := (pt_chunks ?p1)[i := Some (chunk_slice (ep_data p) i)] \<rparr> = ?r (insert i S)"
      using upd by simp
    have none: "slice_index (pt_chunks (?r S)) i = Inr None" using get False by simp
    show ?thesis
      unfolding TransferAssembler_push_def chk start and_then.simps sum.case Let_def idx data none
        option.case add p2
      using False le same full cnt by simp
  qed
qed

lemma push_pending_chunk:
  assumes "transferable new_id digest p zstd maximum" "i < chunk_count_of (ep_data p)"
    "S \<subseteq> {..<chunk_count_of (ep_data p)}"
  shows "begin_transfer \<lparr> ta_pending = Some (received new_id digest p S), ta_allow_zstd = zstd \<rparr>
    (transfer_chunk new_id digest p i) = Inr (received new_id digest p S)"
  by (simp add: begin_transfer_def received_def transfer_chunk_def)

lemma push_first_chunk:
  assumes "transferable new_id digest p zstd maximum"
  shows "begin_transfer \<lparr> ta_pending = None, ta_allow_zstd = zstd \<rparr> (transfer_chunk new_id digest p 0)
    = Inr (received new_id digest p {})"
  using transferable_facts [OF assms]
  by (simp add: begin_transfer_def received_def transfer_chunk_def map_replicate_const)

text \<open>Any chunks of the transfer, in any order and with repetitions, are absorbed without
  a result while some chunk is still missing.\<close>

lemma push_incomplete:
  assumes tr: "transferable new_id digest p zstd maximum"
    and "\<forall>i \<in> set is. i < chunk_count_of (ep_data p)" "S \<subseteq> {..<chunk_count_of (ep_data p)}"
    and "S \<union> set is \<noteq> {..<chunk_count_of (ep_data p)}"
  shows "push_all (\<lambda>a c. TransferAssembler_push C a c maximum)
      \<lparr> ta_pending = Some (received new_id digest p S), ta_allow_zstd = zstd \<rparr>
      (map (transfer_chunk new_id digest p) is) =
    (\<lparr> ta_pending = Some (received new_id digest p (S \<union> set is)), ta_allow_zstd = zstd \<rparr>,
     replicate (length is) (Inr None))"
  using assms(2-)
proof (induction "is" arbitrary: S)
  case (Cons i "is")
  let ?n = "chunk_count_of (ep_data p)"
  have i: "i < ?n" using Cons.prems by simp
  have more: "insert i S \<noteq> {..<?n}" using Cons.prems by auto
  have step: "TransferAssembler_push C \<lparr> ta_pending = Some (received new_id digest p S), ta_allow_zstd = zstd \<rparr>
      (transfer_chunk new_id digest p i) maximum =
    (\<lparr> ta_pending = Some (received new_id digest p (insert i S)), ta_allow_zstd = zstd \<rparr>, Inr None)"
    using push_transfer_chunk [OF tr i Cons.prems(2) push_pending_chunk [OF tr i Cons.prems(2)], of C] more
    by (simp add: insert_absorb)
  have "push_all (\<lambda>a c. TransferAssembler_push C a c maximum)
      \<lparr> ta_pending = Some (received new_id digest p (insert i S)), ta_allow_zstd = zstd \<rparr>
      (map (transfer_chunk new_id digest p) is) =
    (\<lparr> ta_pending = Some (received new_id digest p (insert i S \<union> set is)), ta_allow_zstd = zstd \<rparr>,
     replicate (length is) (Inr None))"
    by (rule Cons.IH) (use Cons.prems i in auto)
  then show ?case by (simp add: step)
qed simp

lemma finish_received:
  assumes "codec_laws C" "EncodedPayload_encode C raw zstd maximum = Inr p"
  shows "finish_transfer C zstd (received new_id (sha256 C raw) p {..<chunk_count_of (ep_data p)}) maximum =
    Inr (Some raw)"
proof -
  let ?n = "chunk_count_of (ep_data p)"
  have pt: "pt_chunks (received new_id (sha256 C raw) p {..<?n}) =
      map (\<lambda>i. Some (chunk_slice (ep_data p) i)) [0..<?n]" by (simp add: received_def)
  have "try_map (ok_or m) (map (\<lambda>i. Some (chunk_slice (ep_data p) i)) is) =
      Inr (map (chunk_slice (ep_data p)) is)" for m "is"
    by (induction "is") simp_all
  then have "try_map (ok_or ''terminal transfer has a missing chunk'')
      (pt_chunks (received new_id (sha256 C raw) p {..<?n})) = Inr (map (chunk_slice (ep_data p)) [0..<?n])"
    unfolding pt .
  moreover have "EncodedPayload_decode C \<lparr> ep_data = ep_data p, ep_encoding = ep_encoding p,
      ep_uncompressed_size = ep_uncompressed_size p \<rparr> zstd maximum (sha256 C raw) = Inr raw"
    using decode_encode [OF assms] by (cases p) simp
  ultimately show ?thesis
    by (simp add: finish_transfer_def concat_chunks) (simp add: received_def)
qed

lemma push_all_append:
  "push_all f a (xs @ ys) = (let (a', rs) = push_all f a xs; (a'', ss) = push_all f a' ys in (a'', rs @ ss))"
  by (induction xs arbitrary: a) (simp_all add: split_beta)

text \<open>Delivery orders that complete a transfer of \<open>n\<close> chunks with their last chunk and not
  before: they start with the first chunk, and every chunk occurs.\<close>

definition completes :: "nat \<Rightarrow> nat list \<Rightarrow> bool" where
  "completes n order \<longleftrightarrow> order \<noteq> [] \<and> hd order = 0 \<and> set order = {..<n} \<and> last order \<notin> set (butlast order)"

lemma transfer_completes:
  assumes laws: "codec_laws C" and enc: "EncodedPayload_encode C raw zstd maximum = Inr p"
    and tr: "transferable new_id (sha256 C raw) p zstd maximum"
    and order: "completes (chunk_count_of (ep_data p)) order"
  shows "push_all (\<lambda>a c. TransferAssembler_push C a c maximum) (TransferAssembler_with_zstd zstd)
      (map (transfer_chunk new_id (sha256 C raw) p) order) =
    (TransferAssembler_with_zstd zstd, replicate (length order - 1) (Inr None) @ [Inr (Some raw)])"
proof -
  let ?n = "chunk_count_of (ep_data p)" and ?c = "transfer_chunk new_id (sha256 C raw) p"
  let ?r = "received new_id (sha256 C raw) p" and ?z = "\<lambda>x. \<lparr> ta_pending = x, ta_allow_zstd = zstd \<rparr>"
  let ?push = "\<lambda>a c. TransferAssembler_push C a c maximum"
  obtain rest where rest: "order = 0 # rest" and all: "insert 0 (set rest) = {..<?n}"
    using order by (cases order) (auto simp: completes_def)
  note first = push_transfer_chunk [OF tr chunk_count_pos _ push_first_chunk [OF tr], of C]
  note fin = finish_received [OF laws enc, of new_id]
  show ?thesis
  proof (cases rest rule: rev_cases)
    case Nil
    then have "insert 0 {} = {..<?n}" using all by simp
    then have "?push (?z None) (?c 0) = (?z None, Inr (Some raw))" using first fin by simp
    then show ?thesis using rest Nil by (simp add: TransferAssembler_with_zstd_def)
  next
    case (snoc pre l)
    have l: "l < ?n" "l \<noteq> 0" "l \<notin> set pre"
    proof -
      have "l \<in> insert 0 (set rest)" using snoc by simp
      then show "l < ?n" unfolding all by simp
      show "l \<noteq> 0" "l \<notin> set pre" using order rest snoc by (simp_all add: completes_def butlast_append)
    qed
    have whole: "insert l ({0} \<union> set pre) = {..<?n}" unfolding all [symmetric] snoc by auto
    then have sub: "{0} \<union> set pre \<subseteq> {..<?n}" by blast
    then have pre: "\<forall>i \<in> set pre. i < ?n" by blast
    have ln: "l \<in> {..<?n}" using l(1) by simp
    moreover have "l \<notin> {0} \<union> set pre" "l \<notin> insert 0 {}" using l(2,3) by simp_all
    ultimately have miss: "{0} \<union> set pre \<noteq> {..<?n}" and "insert 0 {} \<noteq> {..<?n}" by metis+
    then have one: "?push (?z None) (?c 0) = (?z (Some (?r {0})), Inr None)" using first by simp
    have two: "push_all ?push (?z (Some (?r {0}))) (map ?c pre) =
        (?z (Some (?r ({0} \<union> set pre))), replicate (length pre) (Inr None))"
      by (rule push_incomplete [OF tr pre]) (use chunk_count_pos miss in simp_all)
    have three: "?push (?z (Some (?r ({0} \<union> set pre)))) (?c l) = (?z None, Inr (Some raw))"
      using push_transfer_chunk [OF tr l(1) sub push_pending_chunk [OF tr l(1) sub], of C] l fin whole by simp
    show ?thesis
      unfolding rest snoc TransferAssembler_with_zstd_def
      using one two three by (simp add: push_all_append replicate_append_same)
  qed
qed

lemma encode_transferable:
  assumes "codec_laws C" "EncodedPayload_encode C raw zstd maximum = Inr p" "length new_id = 16"
    "maximum \<le> 8 * 1024 * 1024"
  shows "transferable new_id (sha256 C raw) p zstd maximum"
proof -
  have "decode_bytes C p zstd maximum = Inr raw" by (rule decode_bytes_encode [OF assms(1,2)])
  then have "validate_header (ep_encoding p) (ep_uncompressed_size p) (length (ep_data p)) zstd maximum = Inr ()"
    by (auto simp: decode_bytes_def and_then_Inr)
  then show ?thesis using assms by (simp add: transferable_def codec_laws_def)
qed

lemma terminal_state_chunks_Inr:
  assumes "terminal_state_chunks C enc new_id state zstd = Inr chunks"
  obtains p where "EncodedPayload_encode C (enc state) zstd MAX_ENCODED_STATE_BYTES = Inr p"
    "map TransferChunk_from_state chunks =
      map (transfer_chunk new_id (sha256 C (enc state)) p) [0..<chunk_count_of (ep_data p)]"
proof -
  from assms obtain p n m where p: "EncodedPayload_encode C (enc state) zstd MAX_ENCODED_STATE_BYTES = Inr p"
    and nm: "unat n = length (ep_data p)" "unat m = chunk_count_of (ep_data p)"
    and chunks: "chunks = map (\<lambda>i. \<lparr> sc_transfer_id = new_id, sc_chunk_index = word_of_nat i,
         sc_chunk_count = m, sc_total_size = n, sc_sha256 = sha256 C (enc state),
         sc_data = chunk_slice (ep_data p) i, sc_encoding = ep_encoding p,
         sc_uncompressed_size = ep_uncompressed_size p \<rparr>) [0..<unat m]"
    by (auto simp: terminal_state_chunks_def Let_def and_then_Inr usize_to_u32_Inr split: if_splits)
  show ?thesis
    using that [OF p] by (simp add: TransferChunk_from_state_def transfer_chunk_def o_def chunks nm [symmetric])
qed

lemma history_page_chunks_Inr:
  assumes "history_page_chunks C enc new_id page zstd = Inr chunks"
  obtains p where "EncodedPayload_encode C (enc page) zstd MAX_ENCODED_HISTORY_PAGE_BYTES = Inr p"
    "map TransferChunk_from_history chunks =
      map (transfer_chunk new_id (sha256 C (enc page)) p) [0..<chunk_count_of (ep_data p)]"
proof -
  from assms obtain p n m where p: "EncodedPayload_encode C (enc page) zstd MAX_ENCODED_HISTORY_PAGE_BYTES = Inr p"
    and nm: "unat n = length (ep_data p)" "unat m = chunk_count_of (ep_data p)"
    and chunks: "chunks = map (\<lambda>i. \<lparr> hc_transfer_id = new_id, hc_chunk_index = word_of_nat i,
         hc_chunk_count = m, hc_total_size = n, hc_sha256 = sha256 C (enc page),
         hc_data = chunk_slice (ep_data p) i, hc_encoding = ep_encoding p,
         hc_uncompressed_size = ep_uncompressed_size p \<rparr>) [0..<unat m]"
    by (auto simp: history_page_chunks_def Let_def and_then_Inr usize_to_u32_Inr split: if_splits)
  show ?thesis
    using that [OF p] by (simp add: TransferChunk_from_history_def transfer_chunk_def o_def chunks nm [symmetric])
qed

text \<open>Both assemblers post-process the result of the transfer in the same way.\<close>

lemma push_all_post:
  assumes "\<And>a c. g a c = (let (a', r) = f a (h c) in (a', k r))"
  shows "push_all g a cs = (let (a', rs) = push_all f a (map h cs) in (a', map k rs))"
  by (induction cs arbitrary: a) (simp_all add: assms split_beta)

section \<open>Bounds against a hostile sender\<close>

definition stored :: "bytes option list \<Rightarrow> nat" where
  "stored chunks = sum_list (map (case_option 0 length) chunks)"

definition present :: "bytes option list \<Rightarrow> nat" where
  "present chunks = length (filter (\<lambda>c. c \<noteq> None) chunks)"

definition pending_ok :: "usize \<Rightarrow> PendingTransfer \<Rightarrow> bool" where
  "pending_ok maximum p \<longleftrightarrow> length (pt_chunks p) \<le> MAX_TRANSFER_CHUNKS \<and>
    stored (pt_chunks p) \<le> pt_total_size p \<and> pt_total_size p \<le> maximum \<and>
    stored (pt_chunks p) \<le> pt_received_size p \<and> pt_received_chunks p = present (pt_chunks p) \<and>
    present (pt_chunks p) < length (pt_chunks p) \<and> length (pt_sha256 p) = 32"

definition assembler_ok :: "usize \<Rightarrow> TransferAssembler \<Rightarrow> bool" where
  "assembler_ok maximum a \<longleftrightarrow> (\<forall>p. ta_pending a = Some p \<longrightarrow> pending_ok maximum p)"

lemma stored_update:
  assumes "i < length cs" "cs ! i = None"
  shows "stored (cs[i := Some d]) = stored cs + length d" "present (cs[i := Some d]) = present cs + 1"
proof -
  have cs: "cs = take i cs @ None # drop (Suc i) cs"
    using assms by (metis id_take_nth_drop)
  have up: "cs[i := Some d] = take i cs @ Some d # drop (Suc i) cs"
    using assms(1) by (rule upd_conv_take_nth_drop)
  show "stored (cs[i := Some d]) = stored cs + length d"
    by (subst (2) cs, subst up) (simp add: stored_def)
  show "present (cs[i := Some d]) = present cs + 1"
    by (subst (2) cs, subst up) (simp add: present_def)
qed

lemma present_le: "present cs \<le> length cs"
  unfolding present_def by (rule length_filter_le)

lemma fresh_pending_ok:
  assumes "check_chunk a chunk maximum = Inr ()" "ta_pending a = None"
    "begin_transfer a chunk = Inr p"
  shows "pending_ok maximum p"
proof -
  have "p = \<lparr> pt_transfer_id = tc_transfer_id chunk, pt_total_size = unat (tc_total_size chunk),
      pt_sha256 = tc_sha256 chunk, pt_chunks = replicate (unat (tc_chunk_count chunk)) None,
      pt_received_size = 0, pt_received_chunks = 0, pt_encoding = tc_encoding chunk,
      pt_uncompressed_size = tc_uncompressed_size chunk \<rparr>"
    using assms(2,3) by (simp add: begin_transfer_def split: if_splits)
  moreover have "stored (replicate n None) = 0" "present (replicate n None) = 0" for n
    by (induction n) (simp_all add: stored_def present_def)
  ultimately show ?thesis
    using assms(1) by (simp add: check_chunk_def if_bail_Inr pending_ok_def)
qed

lemma begin_transfer_ok:
  assumes "assembler_ok maximum a" "check_chunk a chunk maximum = Inr ()" "begin_transfer a chunk = Inr p"
  shows "pending_ok maximum p"
proof (cases "ta_pending a")
  case None
  then show ?thesis using fresh_pending_ok assms by blast
next
  case (Some q)
  then show ?thesis using assms by (simp add: begin_transfer_def assembler_ok_def split: if_splits)
qed

lemma finish_transfer_sound:
  assumes "finish_transfer C z p maximum = Inr r"
  shows "\<exists>d. r = Some d \<and> length d \<le> maximum \<and> sha256 C d = pt_sha256 p"
proof -
  obtain q d where "EncodedPayload_decode C q z maximum (pt_sha256 p) = Inr d" "r = Some d"
    using assms by (auto simp: finish_transfer_def and_then_Inr Let_def split: if_splits)
  then show ?thesis
    using decode_bytes_Inr(2) by (auto simp: EncodedPayload_decode_def and_then_Inr split: if_splits)
qed

text \<open>The cases of one push, by what becomes of the pending transfer.\<close>

definition push_outcome ::
  "codec \<Rightarrow> usize \<Rightarrow> TransferChunk \<Rightarrow> TransferAssembler \<times> bytes option result \<Rightarrow> bool" where
  "push_outcome C maximum chunk out \<longleftrightarrow> assembler_ok maximum (fst out) \<and>
    (\<forall>d. snd out = Inr (Some d) \<longrightarrow> length d \<le> maximum \<and> sha256 C d = tc_sha256 chunk)"

lemma push_outcome_intros:
  "assembler_ok maximum a \<Longrightarrow> push_outcome C maximum chunk (a, Inl e)"
  "assembler_ok maximum a \<Longrightarrow> push_outcome C maximum chunk (a, Inr None)"
  "pending_ok maximum p \<Longrightarrow> push_outcome C maximum chunk (a\<lparr> ta_pending := Some p \<rparr>, Inl e)"
  "pending_ok maximum p \<Longrightarrow> push_outcome C maximum chunk (a\<lparr> ta_pending := Some p \<rparr>, Inr None)"
  by (simp_all add: push_outcome_def assembler_ok_def)

lemma push_keeps_ok:
  assumes ok: "assembler_ok maximum a"
  shows "push_outcome C maximum chunk (TransferAssembler_push C a chunk maximum)"
proof (cases "and_then (check_chunk a chunk maximum) (\<lambda>_. begin_transfer a chunk)")
  case (Inl e)
  then show ?thesis using ok by (simp add: TransferAssembler_push_def push_outcome_intros)
next
  case (Inr p)
  then have chk: "check_chunk a chunk maximum = Inr ()" and b: "begin_transfer a chunk = Inr p"
    by (auto simp: and_then_Inr)
  have p: "pending_ok maximum p" by (rule begin_transfer_ok [OF ok chk b])
  let ?i = "unat (tc_chunk_index chunk)"
  note intros = push_outcome_intros(3,4) [of maximum _ C chunk a]
  show ?thesis
  proof (cases "same_transfer p chunk")
    case False
    then show ?thesis using p by (simp add: TransferAssembler_push_def Inr bail_def intros)
  next
    case same: True
    have i: "?i < length (pt_chunks p)"
      using chk same by (simp add: check_chunk_def if_bail_Inr same_transfer_def)
    show ?thesis
    proof (cases "pt_chunks p ! ?i")
      case (Some d)
      then show ?thesis
        using p same i by (simp add: TransferAssembler_push_def Let_def Inr slice_index_def bail_def intros)
    next
      case None
      let ?size = "pt_received_size p + length (tc_data chunk)"
      let ?p1 = "p\<lparr> pt_received_size := ?size \<rparr>"
      let ?p2 = "?p1\<lparr> pt_received_chunks := pt_received_chunks ?p1 + 1,
        pt_chunks := (pt_chunks ?p1)[?i := Some (tc_data chunk)] \<rparr>"
      note upd = stored_update [OF i None, of "tc_data chunk"]
      have p1: "pending_ok maximum ?p1" using p by (simp add: pending_ok_def)
      have cnt: "pt_received_chunks ?p2 = present (pt_chunks ?p2)"
        using p upd by (simp add: pending_ok_def)
      have p2: "pending_ok maximum ?p2"
        if "?size \<le> pt_total_size p" "pt_received_chunks ?p2 \<noteq> length (pt_chunks ?p2)"
      proof -
        have "present (pt_chunks ?p2) \<le> length (pt_chunks ?p2)" by (rule present_le)
        then have "present (pt_chunks ?p2) < length (pt_chunks ?p2)" using that(2) cnt by simp
        then show ?thesis using p upd that(1) cnt by (simp add: pending_ok_def)
      qed
      have none: "slice_index (pt_chunks p) ?i = Inr None" using i None by (simp add: slice_index_def)
      have fin: "push_outcome C maximum chunk (a\<lparr> ta_pending := None \<rparr>,
          finish_transfer C (ta_allow_zstd a) ?p2 maximum)"
        using finish_transfer_sound [of C "ta_allow_zstd a" ?p2 maximum] same
        by (auto simp: push_outcome_def assembler_ok_def same_transfer_def)
      show ?thesis
        unfolding TransferAssembler_push_def Inr sum.case Let_def none option.case
        using same p p1 p2 fin
        by (cases "usize_checked_add (pt_received_size p) (length (tc_data chunk))")
          (auto simp: usize_checked_add_def bail_def intros split: if_splits)
    qed
  qed
qed

lemma push_all_ok:
  assumes "assembler_ok maximum a"
  shows "assembler_ok maximum (fst (push_all (\<lambda>a c. TransferAssembler_push C a c maximum) a cs)) \<and>
    list_all2 (\<lambda>c r. \<forall>d. r = Inr (Some d) \<longrightarrow> length d \<le> maximum \<and> sha256 C d = tc_sha256 c) cs
      (snd (push_all (\<lambda>a c. TransferAssembler_push C a c maximum) a cs))"
  using assms
proof (induction cs arbitrary: a)
  case (Cons c cs)
  obtain a1 r where 1: "TransferAssembler_push C a c maximum = (a1, r)"
    by (cases "TransferAssembler_push C a c maximum")
  have "push_outcome C maximum c (a1, r)" using push_keeps_ok [OF Cons.prems, of C c] 1 by simp
  then show ?case using Cons.IH [of a1] by (simp add: 1 push_outcome_def split_beta)
qed simp

text \<open>Chunks of any message type that convert to the chunks of a payload deliver it.\<close>

lemma converted_chunks_complete:
  assumes laws: "codec_laws C" and p: "EncodedPayload_encode C raw zstd maximum = Inr p"
    and i: "length new_id = 16" and mx: "maximum \<le> 8 * 1024 * 1024"
    and ch: "map from chunks = map (transfer_chunk new_id (sha256 C raw) p) [0..<chunk_count_of (ep_data p)]"
    and order: "completes (length chunks) order"
  shows "push_all (\<lambda>a c. TransferAssembler_push C a c maximum) (TransferAssembler_with_zstd zstd)
      (map from (map ((!) chunks) order)) =
    (TransferAssembler_with_zstd zstd, replicate (length order - 1) (Inr None) @ [Inr (Some raw)])"
proof -
  have n: "length chunks = chunk_count_of (ep_data p)" using arg_cong [OF ch, of length] by simp
  have nth: "from (chunks ! j) = transfer_chunk new_id (sha256 C raw) p j" if "j < length chunks" for j
    using arg_cong [OF ch, of "\<lambda>xs. xs ! j"] that n by simp
  have eq: "map from (map ((!) chunks) order) = map (transfer_chunk new_id (sha256 C raw) p) order"
    using order nth by (auto simp: completes_def)
  show ?thesis
    unfolding eq
    by (rule transfer_completes [OF laws p encode_transferable [OF laws p i mx] order [unfolded n]])
qed

section \<open>Properties\<close>

text \<open>C24. A keyframe arrives intact: the chunks of a valid state, delivered in any order and
  with any repetitions that start with the first chunk, produce nothing until the last
  missing one, and that one produces exactly the state that was sent; the assembler is
  then ready for the next transfer.\<close>

theorem keyframe_transfer:
  assumes laws: "codec_laws C" and ck: "terminal_state_chunks C enc new_id state zstd = Inr chunks"
    and i: "length new_id = 16" and dec: "decode (enc state) = Inr state"
    and valid: "validate encoded_len graphemes state = Inr ()" and order: "completes (length chunks) order"
  shows "push_all (TerminalStateAssembler_push C decode encoded_len graphemes)
      (TransferAssembler_with_zstd zstd) (map ((!) chunks) order) =
    (TransferAssembler_with_zstd zstd, replicate (length order - 1) (Inr None) @ [Inr (Some state)])"
proof -
  obtain p where p: "EncodedPayload_encode C (enc state) zstd MAX_ENCODED_STATE_BYTES = Inr p"
    and ch: "map TransferChunk_from_state chunks =
      map (transfer_chunk new_id (sha256 C (enc state)) p) [0..<chunk_count_of (ep_data p)]"
    by (rule terminal_state_chunks_Inr [OF ck])
  have "MAX_ENCODED_STATE_BYTES \<le> 8 * 1024 * 1024" by (simp add: MAX_ENCODED_STATE_BYTES_def)
  note whole = converted_chunks_complete [OF laws p i this ch order]
  let ?k = "\<lambda>r. and_then r (\<lambda>encoded. case encoded of None \<Rightarrow> Inr None
    | Some encoded \<Rightarrow> and_then (decode encoded) (\<lambda>x.
        and_then (with_context ''received terminal state is invalid'' (validate encoded_len graphemes x))
          (\<lambda>_. Inr (Some x))))"
  show ?thesis
    unfolding push_all_post [where f = "\<lambda>a c. TransferAssembler_push C a c MAX_ENCODED_STATE_BYTES"
        and h = TransferChunk_from_state and k = ?k, OF TerminalStateAssembler_push_def]
    using whole dec valid by (simp del: map_map)
qed

text \<open>The same for a page of history.\<close>

lemma history_page_transfer:
  assumes laws: "codec_laws C" and ck: "history_page_chunks C enc new_id page zstd = Inr chunks"
    and i: "length new_id = 16" and dec: "decode (enc page) = Inr page"
    and valid: "validate_history_page encoded_len graphemes page = Inr ()"
    and order: "completes (length chunks) order"
  shows "push_all (HistoryPageAssembler_push C decode encoded_len graphemes)
      (TransferAssembler_with_zstd zstd) (map ((!) chunks) order) =
    (TransferAssembler_with_zstd zstd, replicate (length order - 1) (Inr None) @ [Inr (Some page)])"
proof -
  obtain p where p: "EncodedPayload_encode C (enc page) zstd MAX_ENCODED_HISTORY_PAGE_BYTES = Inr p"
    and ch: "map TransferChunk_from_history chunks =
      map (transfer_chunk new_id (sha256 C (enc page)) p) [0..<chunk_count_of (ep_data p)]"
    by (rule history_page_chunks_Inr [OF ck])
  have "MAX_ENCODED_HISTORY_PAGE_BYTES \<le> 8 * 1024 * 1024" by (simp add: MAX_ENCODED_HISTORY_PAGE_BYTES_def)
  note whole = converted_chunks_complete [OF laws p i this ch order]
  let ?k = "\<lambda>r. and_then r (\<lambda>encoded. case encoded of None \<Rightarrow> Inr None
    | Some encoded \<Rightarrow> and_then (decode encoded) (\<lambda>x.
        and_then (with_context ''received terminal history page is invalid'' (validate_history_page encoded_len graphemes x))
          (\<lambda>_. Inr (Some x))))"
  show ?thesis
    unfolding push_all_post [where f = "\<lambda>a c. TransferAssembler_push C a c MAX_ENCODED_HISTORY_PAGE_BYTES"
        and h = TransferChunk_from_history and k = ?k, OF HistoryPageAssembler_push_def]
    using whole dec valid by (simp del: map_map)
qed

text \<open>C29. Against a hostile sender: whatever chunks are pushed, the assembler never holds
  more bytes than the limit nor more than the maximal number of slots, and every payload
  it delivers is within the limit and has the digest its chunk announced.\<close>

theorem transfer_assembler_bounded:
  "assembler_ok maximum (fst (push_all (\<lambda>a c. TransferAssembler_push C a c maximum)
      (TransferAssembler_with_zstd zstd) cs)) \<and>
    list_all2 (\<lambda>c r. \<forall>d. r = Inr (Some d) \<longrightarrow> length d \<le> maximum \<and> sha256 C d = tc_sha256 c) cs
      (snd (push_all (\<lambda>a c. TransferAssembler_push C a c maximum) (TransferAssembler_with_zstd zstd) cs))"
  by (rule push_all_ok) (simp add: assembler_ok_def TransferAssembler_with_zstd_def)

theorem transfer_assembler_bounded_witness:
  "assembler_ok 10 (fst (push_all (\<lambda>a c. TransferAssembler_push demo_codec a c 10)
      (TransferAssembler_with_zstd True)
      [\<lparr> tc_transfer_id = replicate 16 1, tc_chunk_index = 0, tc_chunk_count = 2, tc_total_size = 4,
         tc_sha256 = replicate 32 1, tc_data = [1, 2], tc_encoding = 0, tc_uncompressed_size = 0 \<rparr>]))"
  using transfer_assembler_bounded by blast

section \<open>Concrete transfers\<close>

definition demo_size :: nat where
  "demo_size = 700000"

definition demo_state_bytes :: "State \<Rightarrow> bytes" where
  "demo_state_bytes state = replicate demo_size 7"

definition demo_state_parse :: "bytes \<Rightarrow> State result" where
  "demo_state_parse bs = Inr (demo_state 1 [])"

definition demo_chunks :: "TerminalStateChunk list" where
  "demo_chunks = map (\<lambda>i. \<lparr> sc_transfer_id = replicate 16 5, sc_chunk_index = word_of_nat i,
     sc_chunk_count = 2, sc_total_size = 700000, sc_sha256 = replicate 32 7,
     sc_data = chunk_slice (demo_state_bytes (demo_state 1 [])) i, sc_encoding = 0,
     sc_uncompressed_size = 0 \<rparr>) [0..<2]"

lemma demo_payload:
  assumes "demo_size \<le> maximum"
  shows "EncodedPayload_encode demo_codec (replicate demo_size 7) False maximum =
    Inr \<lparr> ep_data = replicate demo_size 7, ep_encoding = 0, ep_uncompressed_size = 0 \<rparr>"
  using assms by (simp add: EncodedPayload_encode_def)

lemma demo_digest: "sha256 demo_codec (replicate demo_size 7) = replicate 32 7"
  by (simp add: demo_codec_def demo_size_def del: replicate.simps)

lemma demo_count: "chunk_count_of (replicate demo_size x) = 2"
  by (simp add: chunk_count_of_def demo_size_def div_ceil_def TERMINAL_STATE_CHUNK_BYTES_def)

lemma demo_state_chunks:
  "terminal_state_chunks demo_codec demo_state_bytes (replicate 16 5) (demo_state 1 []) False = Inr demo_chunks"
proof -
  have "demo_size \<le> MAX_ENCODED_STATE_BYTES" by (simp add: demo_size_def MAX_ENCODED_STATE_BYTES_def)
  moreover have "usize_to_u32 demo_size = Inr 700000" by (simp add: usize_to_u32_Inr demo_size_def)
  moreover have "usize_to_u32 2 = Inr 2" by (simp add: usize_to_u32_Inr)
  ultimately show ?thesis
    by (simp add: terminal_state_chunks_def demo_state_bytes_def demo_payload demo_digest demo_count
        demo_chunks_def)
qed

theorem keyframe_transfer_witness:
  "push_all (TerminalStateAssembler_push demo_codec demo_state_parse demo_encoded_len length)
      (TransferAssembler_with_zstd False) (map ((!) demo_chunks) [0, 0, 1]) =
    (TransferAssembler_with_zstd False, [Inr None, Inr None, Inr (Some (demo_state 1 []))])"
proof -
  have v: "validate demo_encoded_len length (demo_state 1 []) = Inr ()"
    by (rule demo_state_valid) (simp_all add: cells_ok_def)
  have o: "completes (length demo_chunks) [0, 0, 1]"
    by (auto simp: completes_def demo_chunks_def)
  show ?thesis
    using keyframe_transfer [OF demo_codec_laws demo_state_chunks _ _ v o, of demo_state_parse]
    by (simp add: demo_state_parse_def numeral_2_eq_2)
qed

end
