(* ===== verification/Text_Support.thy ===== *)
theory Text_Support
  imports Prelude
begin

text \<open>
  What the source uses of the standard library's text and path types: the Unicode
  classes of \<^verbatim>\<open>char::is_whitespace\<close> and \<^verbatim>\<open>char::is_control\<close>, \<^verbatim>\<open>str::trim\<close>, the
  length of a text in UTF-8 bytes, decimal printing and parsing of unsigned
  integers, splitting of byte strings, and \<^verbatim>\<open>std::path\<close> on Unix. A path is the
  sequence of its components, which is what the library compares and hashes.
\<close>

section \<open>Characters and trimming\<close>

definition is_whitespace :: "nat \<Rightarrow> bool" where
  "is_whitespace c \<longleftrightarrow> 9 \<le> c \<and> c \<le> 13 \<or> c = 32 \<or> c = 0x85 \<or> c = 0xA0 \<or> c = 0x1680
    \<or> 0x2000 \<le> c \<and> c \<le> 0x200A \<or> c = 0x2028 \<or> c = 0x2029 \<or> c = 0x202F \<or> c = 0x205F
    \<or> c = 0x3000"

definition is_control :: "nat \<Rightarrow> bool" where
  "is_control c \<longleftrightarrow> c \<le> 0x1F \<or> 0x7F \<le> c \<and> c \<le> 0x9F"

definition trim_text :: "utext \<Rightarrow> utext" where
  "trim_text s = rev (dropWhile is_whitespace (rev (dropWhile is_whitespace s)))"

definition utf8_len :: "nat \<Rightarrow> nat" where
  "utf8_len c = (if c < 0x80 then 1 else if c < 0x800 then 2 else if c < 0x10000 then 3 else 4)"

definition utf8_length :: "utext \<Rightarrow> nat" where
  "utf8_length s = sum_list (map utf8_len s)"

text \<open>A literal of the source, as scalar values.\<close>

definition text_of :: "string \<Rightarrow> utext" where
  "text_of s = map of_char s"

definition trimmed :: "utext \<Rightarrow> bool" where
  "trimmed s \<longleftrightarrow> s = [] \<or> \<not> is_whitespace (hd s) \<and> \<not> is_whitespace (last s)"

lemma hd_dropWhile_not: "dropWhile P s \<noteq> [] \<Longrightarrow> \<not> P (hd (dropWhile P s))"
  by (rule hd_dropWhile)

lemma dropWhile_id: "s = [] \<or> \<not> P (hd s) \<Longrightarrow> dropWhile P s = s"
  by (cases s) auto

lemma trimmed_trim: "trimmed (trim_text s)"
proof (cases "trim_text s = []")
  case False
  define a where "a = dropWhile is_whitespace s"
  define b where "b = dropWhile is_whitespace (rev a)"
  have t: "trim_text s = rev b" by (simp add: trim_text_def a_def b_def)
  have b: "b \<noteq> []" using False by (simp add: t)
  have "\<not> is_whitespace (hd b)" using b unfolding b_def by (rule hd_dropWhile_not)
  then have "\<not> is_whitespace (last (trim_text s))" using b by (simp add: t last_rev)
  moreover have "\<not> is_whitespace (hd (trim_text s))"
  proof -
    obtain pre where pre: "rev a = pre @ b" by (metis b_def takeWhile_dropWhile_id)
    then have ra: "a = rev b @ rev pre" by (metis rev_append rev_rev_ident)
    then have "a \<noteq> []" using b by simp
    then have "\<not> is_whitespace (hd a)" unfolding a_def by (rule hd_dropWhile_not)
    then show ?thesis using ra b by (simp add: t)
  qed
  ultimately show ?thesis by (simp add: trimmed_def)
qed (simp add: trimmed_def)

lemma trim_trimmed: "trimmed s \<Longrightarrow> trim_text s = s"
proof -
  assume a: "trimmed s"
  then have "dropWhile is_whitespace s = s" by (intro dropWhile_id) (auto simp: trimmed_def)
  moreover have "dropWhile is_whitespace (rev s) = rev s"
    using a by (intro dropWhile_id) (auto simp: trimmed_def hd_rev)
  ultimately show ?thesis by (simp add: trim_text_def)
qed

lemma trim_idem [simp]: "trim_text (trim_text s) = trim_text s"
  by (rule trim_trimmed [OF trimmed_trim])

lemma set_trim: "set (trim_text s) \<subseteq> set s"
  unfolding trim_text_def by (metis set_dropWhileD set_rev subsetI)

section \<open>Decimal numbers\<close>

definition digit_value :: "char \<Rightarrow> nat option" where
  "digit_value c = (if CHR ''0'' \<le> c \<and> c \<le> CHR ''9'' then Some (of_char c - 48) else None)"

fun parse_digits :: "nat \<Rightarrow> string \<Rightarrow> nat option" where
  "parse_digits acc [] = Some acc"
| "parse_digits acc (c # cs) =
    Option.bind (digit_value c) (\<lambda>d. parse_digits (acc * 10 + d) cs)"

text \<open>\<^verbatim>\<open>str::parse\<close> for an unsigned integer below the bound: at least one digit, an
  optional plus sign, nothing else.\<close>

definition parse_unsigned :: "nat \<Rightarrow> string \<Rightarrow> nat option" where
  "parse_unsigned bound s =
    (let digits = (case s of CHR ''+'' # rest \<Rightarrow> rest | _ \<Rightarrow> s)
     in if digits = [] then None
        else Option.bind (parse_digits 0 digits) (\<lambda>n. if n < bound then Some n else None))"

definition digit_char :: "nat \<Rightarrow> char" where
  "digit_char d = char_of (48 + d)"

fun print_decimal :: "nat \<Rightarrow> string" where
  "print_decimal n = (if n < 10 then [digit_char n]
    else print_decimal (n div 10) @ [digit_char (n mod 10)])"

declare print_decimal.simps [simp del]

lemma of_char_digit: "d < 10 \<Longrightarrow> of_char (digit_char d) = (48 + d :: nat)"
  by (simp add: digit_char_def)

lemma digit_value_char: "d < 10 \<Longrightarrow> digit_value (digit_char d) = Some d"
  by (simp add: digit_value_def less_eq_char_def of_char_digit)

lemma parse_digits_append:
  "parse_digits acc (s @ t) = Option.bind (parse_digits acc s) (\<lambda>n. parse_digits n t)"
proof (induction s arbitrary: acc)
  case (Cons c s)
  then show ?case by (cases "digit_value c") auto
qed simp

lemma parse_print_digits: "parse_digits 0 (print_decimal n) = Some n"
proof (induction n rule: print_decimal.induct)
  case (1 n)
  show ?case
  proof (cases "n < 10")
    case True
    then show ?thesis by (simp add: print_decimal.simps [of n] digit_value_char)
  next
    case False
    then have "parse_digits 0 (print_decimal n)
        = parse_digits (n div 10) [digit_char (n mod 10)]"
      using 1 by (simp add: print_decimal.simps [of n] parse_digits_append)
    also have "\<dots> = Some n" by (simp add: digit_value_char mult.commute)
    finally show ?thesis .
  qed
qed

lemma print_decimal_nonempty [simp]: "print_decimal n \<noteq> []"
  by (subst print_decimal.simps) simp

lemma print_decimal_digits: "c \<in> set (print_decimal n) \<Longrightarrow> digit_value c \<noteq> None"
proof (induction n rule: print_decimal.induct)
  case (1 n)
  then show ?case
    by (subst (asm) (2) print_decimal.simps) (auto simp: digit_value_char split: if_splits)
qed

lemma digit_value_plus: "digit_value CHR ''+'' = None"
  by (simp add: digit_value_def less_eq_char_def)

lemma parse_print_decimal: "n < bound \<Longrightarrow> parse_unsigned bound (print_decimal n) = Some n"
proof -
  obtain c cs where s: "print_decimal n = c # cs" by (cases "print_decimal n") auto
  have "c \<noteq> CHR ''+''" using print_decimal_digits [of c n] s digit_value_plus by auto
  then have "(case c # cs of CHR ''+'' # rest \<Rightarrow> rest | _ \<Rightarrow> c # cs) = c # cs"
    by (auto split: char.splits bool.splits)
  then show "n < bound \<Longrightarrow> ?thesis"
    using parse_print_digits [of n] by (simp add: parse_unsigned_def s Let_def)
qed

section \<open>Splitting byte strings\<close>

definition strip_prefix :: "'a list \<Rightarrow> 'a list \<Rightarrow> 'a list option" where
  "strip_prefix p s = (if take (length p) s = p then Some (drop (length p) s) else None)"

lemma strip_prefix_append [simp]: "strip_prefix p (p @ s) = Some s"
  by (simp add: strip_prefix_def)

lemma strip_prefix_Some: "strip_prefix p s = Some t \<longleftrightarrow> s = p @ t"
proof
  assume a: "strip_prefix p s = Some t"
  then have "take (length p) s = p" "drop (length p) s = t"
    by (auto simp: strip_prefix_def split: if_splits)
  then show "s = p @ t" by (metis append_take_drop_id)
qed simp

text \<open>\<^verbatim>\<open>slice::split\<close>: the pieces between the separators, one more than there are
  separators; \<^verbatim>\<open>splitn\<close> stops after the given number of pieces.\<close>

fun split_on :: "'a \<Rightarrow> 'a list \<Rightarrow> 'a list list" where
  "split_on sep [] = [[]]"
| "split_on sep (x # xs) = (if x = sep then [] # split_on sep xs
    else case split_on sep xs of [] \<Rightarrow> [[x]] | p # ps \<Rightarrow> (x # p) # ps)"

fun splitn_on :: "nat \<Rightarrow> 'a \<Rightarrow> 'a list \<Rightarrow> 'a list list" where
  "splitn_on 0 sep xs = []"
| "splitn_on (Suc 0) sep xs = [xs]"
| "splitn_on (Suc (Suc n)) sep xs =
    (case dropWhile (\<lambda>x. x \<noteq> sep) xs of
      [] \<Rightarrow> [xs]
    | _ # rest \<Rightarrow> takeWhile (\<lambda>x. x \<noteq> sep) xs # splitn_on (Suc n) sep rest)"

lemma split_on_not_empty [simp]: "split_on sep xs \<noteq> []"
  by (cases xs) (auto split: list.splits)

lemma split_on_none: "sep \<notin> set xs \<Longrightarrow> split_on sep xs = [xs]"
  by (induction xs) auto

lemma split_on_append: "sep \<notin> set p \<Longrightarrow> split_on sep (p @ sep # xs) = p # split_on sep xs"
  by (induction p) auto

lemma splitn_on_append:
  assumes "sep \<notin> set p"
  shows "splitn_on (Suc (Suc n)) sep (p @ sep # xs) = p # splitn_on (Suc n) sep xs"
proof -
  have "\<And>x. x \<in> set p \<Longrightarrow> x \<noteq> sep" using assms by auto
  then show ?thesis by (simp add: dropWhile_append2 takeWhile_append2)
qed

section \<open>Paths\<close>

datatype component = RootDir | CurDir | ParentDir | Normal string

type_synonym path = "component list"

definition path_is_absolute :: "path \<Rightarrow> bool" where
  "path_is_absolute p \<longleftrightarrow> p \<noteq> [] \<and> hd p = RootDir"

fun component_of :: "string \<Rightarrow> component" where
  "component_of s = (if s = ''.'' then CurDir else if s = ''..'' then ParentDir else Normal s)"

text \<open>\<^verbatim>\<open>Path::components\<close>: repeated separators and interior dots are skipped.\<close>

definition parse_path :: "string \<Rightarrow> path" where
  "parse_path s =
    (let pieces = map component_of (filter (\<lambda>x. x \<noteq> []) (split_on CHR ''/'' s))
     in if s \<noteq> [] \<and> hd s = CHR ''/'' then RootDir # filter (\<lambda>c. c \<noteq> CurDir) pieces
        else case pieces of [] \<Rightarrow> []
          | c # cs \<Rightarrow> c # filter (\<lambda>c. c \<noteq> CurDir) cs)"

definition path_join :: "path \<Rightarrow> path \<Rightarrow> path" where
  "path_join p q = (if path_is_absolute q then q else if p = [] then q
    else p @ filter (\<lambda>c. c \<noteq> CurDir) q)"

definition path_parent :: "path \<Rightarrow> path option" where
  "path_parent p = (if p = [] \<or> last p = RootDir then None else Some (butlast p))"

definition path_file_name :: "path \<Rightarrow> string option" where
  "path_file_name p = (if p = [] then None
    else case last p of Normal s \<Rightarrow> Some s | _ \<Rightarrow> None)"

definition path_starts_with :: "path \<Rightarrow> path \<Rightarrow> bool" where
  "path_starts_with p root \<longleftrightarrow> take (length root) p = root"

fun component_bytes :: "component \<Rightarrow> string" where
  "component_bytes RootDir = ''''"
| "component_bytes CurDir = ''.''"
| "component_bytes ParentDir = ''..''"
| "component_bytes (Normal s) = s"

fun join_bytes :: "string list \<Rightarrow> string" where
  "join_bytes [] = []"
| "join_bytes [s] = s"
| "join_bytes (s # t # ss) = s @ CHR ''/'' # join_bytes (t # ss)"

text \<open>The bytes of a path in normal form (no repeated separators or interior dots),
  as \<^verbatim>\<open>canonicalize\<close> and joins of such paths produce them.\<close>

definition path_bytes :: "path \<Rightarrow> string" where
  "path_bytes p = (if p = [RootDir] then ''/'' else join_bytes (map component_bytes p))"

lemma path_starts_with_refl [simp]: "path_starts_with p p"
  by (simp add: path_starts_with_def)

lemma path_starts_with_append [simp]: "path_starts_with (p @ q) p"
  by (simp add: path_starts_with_def)

lemma path_starts_withE:
  assumes "path_starts_with p root" obtains q where "p = root @ q"
  using assms unfolding path_starts_with_def by (metis append_take_drop_id)

lemma path_starts_with_trans:
  "path_starts_with p q \<Longrightarrow> path_starts_with q r \<Longrightarrow> path_starts_with p r"
  by (metis append.assoc path_starts_withE path_starts_with_append)

lemma path_starts_with_join:
  "path_starts_with p root \<Longrightarrow> root \<noteq> [] \<Longrightarrow> path_starts_with (path_join p [Normal name]) root"
  by (elim path_starts_withE) (simp add: path_join_def path_is_absolute_def)

end
