(* ===== verification/Terminal_Manager.thy ===== *)
theory Terminal_Manager
  imports Text_Support Ordered_Map Resources
begin

text \<open>
  The terminal registry (\<^verbatim>\<open>TerminalManager\<close> of \<^verbatim>\<open>src/terminal.rs\<close>): what a spawn request
  is checked for, the environment and the command the child is started with, the
  quota it holds, the display numbers, and lookup and listing. The welcome banner,
  the cleaning of program titles and the two monitor tasks are modelled with it.

  The operating system is a \<^verbatim>\<open>host\<close> record of arguments: the server's environment,
  the locales \<^verbatim>\<open>newlocale\<close> accepts, \<^verbatim>\<open>canonicalize\<close>, the outcome of every call on the
  pseudo terminal, the process number of the child, and the text of the release
  files. \<^verbatim>\<open>HashMap\<close> iterates in an unspecified order; the model iterates in the order
  of the keys, and \<^verbatim>\<open>registry_order_irrelevant\<close> shows that no result depends on it.
\<close>

section \<open>Records of the protocol\<close>

record TerminalInfo =
  ti_id :: string
  ti_name :: utext
  ti_argv :: "string list"
  ti_cwd :: path
  ti_status :: string
  ti_exit_code :: "i32 option"
  ti_rows :: u32
  ti_cols :: u32
  ti_display_id :: u64
  ti_custom_name :: "utext option"
  ti_interactive :: "bool option"
  ti_workspace_id :: string
  ti_lifecycle :: i32

datatype TerminalLifecycle = LUnspecified | LCreating | LRunning | LExited | LArchived

primrec lifecycle_i32 :: "TerminalLifecycle \<Rightarrow> i32" where
  "lifecycle_i32 LUnspecified = 0"
| "lifecycle_i32 LCreating = 1"
| "lifecycle_i32 LRunning = 2"
| "lifecycle_i32 LExited = 3"
| "lifecycle_i32 LArchived = 4"

record EnvironmentVariable =
  ev_name :: string
  ev_value :: string

record SpawnRequest =
  sr_name :: utext
  sr_argv :: "string list"
  sr_cwd :: string
  sr_rows :: u32
  sr_cols :: u32
  sr_term :: string
  sr_environment :: "EnvironmentVariable list"
  sr_workspace_id :: string

definition LOCALE_ENVIRONMENT_VARIABLES :: "string list" where
  "LOCALE_ENVIRONMENT_VARIABLES = [''LANG'', ''LANGUAGE'', ''LC_CTYPE'', ''LC_NUMERIC'', ''LC_TIME'',
    ''LC_COLLATE'', ''LC_MONETARY'', ''LC_MESSAGES'', ''LC_PAPER'', ''LC_NAME'', ''LC_ADDRESS'',
    ''LC_TELEPHONE'', ''LC_MEASUREMENT'', ''LC_IDENTIFICATION'', ''LC_ALL'']"

definition MAX_TERM_LENGTH :: usize where
  "MAX_TERM_LENGTH = 64"

definition MAX_LOCALE_VALUE_LENGTH :: usize where
  "MAX_LOCALE_VALUE_LENGTH = 256"

definition MAX_PROGRAM_TITLE_LENGTH :: usize where
  "MAX_PROGRAM_TITLE_LENGTH = 512"

definition MAX_CLIPBOARD_WRITE_BYTES :: usize where
  "MAX_CLIPBOARD_WRITE_BYTES = 256 * 1024"

definition SAFE_BASE_ENVIRONMENT :: "string list" where
  "SAFE_BASE_ENVIRONMENT = [''HOME'', ''USER'', ''LOGNAME'', ''SHELL'', ''PATH'']"

definition UTF8_LOCALE_FALLBACKS :: "string list" where
  "UTF8_LOCALE_FALLBACKS = [''C.UTF-8'', ''C.utf8'', ''UTF-8'', ''en_US.UTF-8'']"

section \<open>Titles and the welcome banner\<close>

text \<open>The engine's title is a \<^verbatim>\<open>str\<close>, on which \<^verbatim>\<open>from_utf8_lossy\<close> is the identity.\<close>

definition clean_program_title :: "utext \<Rightarrow> utext option" where
  "clean_program_title title =
    (let cleaned = take MAX_PROGRAM_TITLE_LENGTH (filter (\<lambda>c. \<not> is_control c) (trim_text title))
     in if cleaned \<noteq> [] then Some cleaned else None)"

definition safe_banner_field :: "utext \<Rightarrow> utext option" where
  "safe_banner_field v =
    (let v = trim_text v
     in if v = [] \<or> 256 < utf8_length v \<or> list_ex is_control v then None else Some v)"

fun strip_cr :: "utext \<Rightarrow> utext" where
  "strip_cr l = (if l \<noteq> [] \<and> last l = 13 then butlast l else l)"

definition text_lines :: "utext \<Rightarrow> utext list" where
  "text_lines s =
    (let pieces = split_on 10 s
     in map strip_cr (butlast pieces) @ (if last pieces = [] then [] else [last pieces]))"

definition split_once :: "nat \<Rightarrow> utext \<Rightarrow> (utext \<times> utext) option" where
  "split_once sep s = (case dropWhile (\<lambda>c. c \<noteq> sep) s of [] \<Rightarrow> None
    | _ # rest \<Rightarrow> Some (takeWhile (\<lambda>c. c \<noteq> sep) s, rest))"

fun find_map :: "('a \<Rightarrow> 'b option) \<Rightarrow> 'a list \<Rightarrow> 'b option" where
  "find_map f [] = None"
| "find_map f (x # xs) = (case f x of Some y \<Rightarrow> Some y | None \<Rightarrow> find_map f xs)"

fun unescape :: "bool \<Rightarrow> utext \<Rightarrow> utext option" where
  "unescape escaped [] = (if escaped then None else Some [])"
| "unescape escaped (c # cs) =
    (if escaped then map_option ((#) c) (unescape False cs)
     else if c = 92 then unescape True cs
     else map_option ((#) c) (unescape False cs))"

definition quoted_by :: "nat \<Rightarrow> utext \<Rightarrow> bool" where
  "quoted_by q s \<longleftrightarrow> 2 \<le> utf8_length s \<and> s \<noteq> [] \<and> hd s = q \<and> last s = q"

definition os_release_value :: "utext \<Rightarrow> utext \<Rightarrow> utext option" where
  "os_release_value contents key =
    Option.bind (find_map (\<lambda>line. Option.bind (split_once 61 line) (\<lambda>(name, v).
        if name = key then Some (trim_text v) else None)) (text_lines contents)) (\<lambda>encoded.
      if (encoded \<noteq> [] \<and> hd encoded = 34) \<noteq> (encoded \<noteq> [] \<and> last encoded = 34)
        \<or> (encoded \<noteq> [] \<and> hd encoded = 39) \<noteq> (encoded \<noteq> [] \<and> last encoded = 39) then None
      else Option.bind
        (if quoted_by 34 encoded then unescape False (butlast (tl encoded))
         else if quoted_by 39 encoded then Some (butlast (tl encoded))
         else Some encoded) safe_banner_field)"

definition build_welcome_banner :: "utext \<Rightarrow> utext \<Rightarrow> utext \<Rightarrow> utext option" where
  "build_welcome_banner os_release kernel_release architecture =
    Option.bind (os_release_value os_release (text_of ''PRETTY_NAME'')) (\<lambda>pretty_name.
    Option.bind (safe_banner_field kernel_release) (\<lambda>kernel_release.
    Option.bind (safe_banner_field architecture) (\<lambda>architecture.
      Some (text_of ''Welcome to '' @ pretty_name @ text_of '' (GNU/Linux '' @ kernel_release
        @ text_of '' '' @ architecture @ text_of '')'' @ [13, 10, 13, 10]))))"

section \<open>The terminal environment\<close>

record PreparedTerminalEnvironment =
  pe_term :: string
  pe_locale :: "EnvironmentVariable list"
  pe_used_locale_fallback :: bool

definition is_ascii_alphanumeric :: "char \<Rightarrow> bool" where
  "is_ascii_alphanumeric c \<longleftrightarrow> CHR ''0'' \<le> c \<and> c \<le> CHR ''9'' \<or> CHR ''A'' \<le> c \<and> c \<le> CHR ''Z''
    \<or> CHR ''a'' \<le> c \<and> c \<le> CHR ''z''"

definition to_ascii_lowercase :: "char \<Rightarrow> char" where
  "to_ascii_lowercase c =
    (if CHR ''A'' \<le> c \<and> c \<le> CHR ''Z'' then char_of (of_char c + 32 :: nat) else c)"

definition locale_name_is_utf8 :: "string \<Rightarrow> bool" where
  "locale_name_is_utf8 v =
    (let s = map to_ascii_lowercase (filter is_ascii_alphanumeric v)
     in list_ex (\<lambda>i. take 4 (drop i s) = ''utf8'') [0..<length s])"

definition valid_term :: "string \<Rightarrow> bool" where
  "valid_term term \<longleftrightarrow> length term \<le> MAX_TERM_LENGTH
    \<and> list_all (\<lambda>b. is_ascii_alphanumeric b \<or> b \<in> set ''-_.+'') term"

definition valid_locale_value :: "string \<Rightarrow> bool" where
  "valid_locale_value v \<longleftrightarrow> v \<noteq> [] \<and> length v \<le> MAX_LOCALE_VALUE_LENGTH
    \<and> list_all (\<lambda>b. is_ascii_alphanumeric b \<or> b \<in> set ''-_.@:'') v"

fun collect_locale ::
  "EnvironmentVariable list \<Rightarrow> (string, string) btree \<Rightarrow> (string, string) btree result" where
  "collect_locale [] m = Inr m"
| "collect_locale (v # vs) m =
    (if \<not> ev_name v \<in> set LOCALE_ENVIRONMENT_VARIABLES then
       bail ''environment variable {} is not allowed''
     else if \<not> valid_locale_value (ev_value v) then
       bail ''invalid value for locale variable {}''
     else if bt_get m (ev_name v) \<noteq> None then bail ''duplicate locale variable {}''
     else collect_locale vs (bt_insert (ev_name v) (ev_value v) m))"

definition effective_ctype :: "(string, string) btree \<Rightarrow> string option" where
  "effective_ctype m = (case bt_get m ''LC_ALL'' of Some v \<Rightarrow> Some v
    | None \<Rightarrow> (case bt_get m ''LC_CTYPE'' of Some v \<Rightarrow> Some v
      | None \<Rightarrow> bt_get m ''LANG''))"

definition locale_is_usable :: "(string \<Rightarrow> bool) \<Rightarrow> (string, string) btree \<Rightarrow> bool" where
  "locale_is_usable locale_is_available m \<longleftrightarrow>
    (case effective_ctype m of None \<Rightarrow> False | Some v \<Rightarrow> locale_name_is_utf8 v)
    \<and> list_all (\<lambda>(name, v). locale_is_available v) (filter (\<lambda>(name, v). name \<noteq> ''LANGUAGE'') m)"

definition prepare_terminal_environment ::
  "(string \<Rightarrow> bool) \<Rightarrow> string \<Rightarrow> EnvironmentVariable list \<Rightarrow> PreparedTerminalEnvironment result" where
  "prepare_terminal_environment locale_is_available requested_term requested_locale =
    (let term = (if requested_term = [] then ''xterm-256color'' else requested_term)
     in if \<not> valid_term term then bail ''invalid TERM value''
        else if length LOCALE_ENVIRONMENT_VARIABLES < length requested_locale then
          bail ''too many locale environment variables''
        else and_then (collect_locale requested_locale []) (\<lambda>m.
          if locale_is_usable locale_is_available m then
            Inr \<lparr> pe_term = term,
              pe_locale = map (\<lambda>(name, v). \<lparr> ev_name = name, ev_value = v \<rparr>) m,
              pe_used_locale_fallback = False \<rparr>
          else and_then (ok_or ''server has no supported UTF-8 locale''
              (find locale_is_available UTF8_LOCALE_FALLBACKS)) (\<lambda>fallback.
            Inr \<lparr> pe_term = term,
              pe_locale = [\<lparr> ev_name = ''LANG'', ev_value = fallback \<rparr>,
                \<lparr> ev_name = ''LC_CTYPE'', ev_value = fallback \<rparr>],
              pe_used_locale_fallback = True \<rparr>)))"

section \<open>The registry\<close>

datatype PtyEvent = PtyOutput bytes | PtyExited i32 | PtyError string | PtyInteractive bool
  | ClipboardWrite bool "bytes option"

text \<open>The fields of a \<^verbatim>\<open>Terminal\<close> the registry owns; the first argument of
  \<^const>\<open>ClipboardWrite\<close> says whether the primary selection is written. The engine's
  title and the banner it was fed stand for the engine.\<close>

record TerminalEntry =
  te_resources :: "PoolReservation list"
  te_info :: TerminalInfo
  te_shell_pid :: "i32 option"
  te_program_title :: "utext option"
  te_banner :: "utext option"
  te_events :: "PtyEvent list"

record TerminalManager =
  tm_terminals :: "(string, TerminalEntry) btree"
  tm_next_display_id :: u64
  tm_session_root :: path
  tm_resources :: ResourceAccount
  tm_resource_policy :: ResourcePolicy

text \<open>The command handed to the operating system; a later \<^verbatim>\<open>env\<close> call replaces an
  earlier one for the same name.\<close>

record CommandBuilder =
  cb_argv :: "string list"
  cb_cwd :: path
  cb_env :: "(string, string) btree"

record host =
  host_env :: "string \<Rightarrow> string option"
  host_shell :: "string option"
  host_locale_available :: "string \<Rightarrow> bool"
  host_canonicalize :: "path \<Rightarrow> path result"
  host_call :: "string \<Rightarrow> unit result"
  host_child_pid :: "u32 option"
  host_release_files :: "(utext \<times> utext) option"
  host_arch :: utext

definition TerminalManager_with_resources ::
  "host \<Rightarrow> path \<Rightarrow> ResourceAccount \<Rightarrow> ResourcePolicy \<Rightarrow> TerminalManager result" where
  "TerminalManager_with_resources h session_root resources policy =
    and_then (ResourcePolicy_validate policy) (\<lambda>_.
    and_then (with_context ''invalid session root {}'' (host_canonicalize h session_root)) (\<lambda>root.
      Inr \<lparr> tm_terminals = [], tm_next_display_id = 1, tm_session_root = root,
        tm_resources = resources, tm_resource_policy = policy \<rparr>))"

definition Terminal_info :: "TerminalEntry \<Rightarrow> TerminalInfo" where
  "Terminal_info t =
    (case Option.bind (te_program_title t) clean_program_title of
      Some title \<Rightarrow> (te_info t) \<lparr> ti_name := title \<rparr>
    | None \<Rightarrow> te_info t)"

definition Terminal_rename :: "utext \<Rightarrow> TerminalEntry \<Rightarrow> TerminalEntry" where
  "Terminal_rename name t =
    (let cleaned = trim_text name
     in t \<lparr> te_info := (te_info t) \<lparr> ti_custom_name :=
          (if cleaned \<noteq> [] then Some cleaned else None) \<rparr> \<rparr>)"

definition registry_infos :: "TerminalManager \<Rightarrow> TerminalInfo list" where
  "registry_infos tm = map (\<lambda>(_, t). Terminal_info t) (tm_terminals tm)"

definition TerminalManager_list :: "TerminalManager \<Rightarrow> TerminalInfo list" where
  "TerminalManager_list tm =
    sort_key ti_display_id (filter (\<lambda>i. ti_status i = ''running'') (registry_infos tm))"

definition in_workspace :: "string \<Rightarrow> bool \<Rightarrow> TerminalInfo \<Rightarrow> bool" where
  "in_workspace workspace_id include_exited i \<longleftrightarrow> ti_workspace_id i = workspace_id
    \<and> (include_exited \<or> ti_lifecycle i = lifecycle_i32 LRunning)"

definition list_in_workspace :: "TerminalManager \<Rightarrow> string \<Rightarrow> bool \<Rightarrow> TerminalInfo list" where
  "list_in_workspace tm workspace_id include_exited =
    sort_key ti_display_id (filter (in_workspace workspace_id include_exited) (registry_infos tm))"

definition has_active_terminals :: "TerminalManager \<Rightarrow> bool" where
  "has_active_terminals tm = list_ex (\<lambda>i. ti_status i = ''running'') (registry_infos tm)"

definition parse_display_id :: "string \<Rightarrow> u64 option" where
  "parse_display_id selector =
    Option.bind (parse_unsigned (2 ^ 64) selector) (\<lambda>n.
      if (word_of_nat n :: u64) \<noteq> 0 then Some (word_of_nat n) else None)"

definition TerminalManager_get :: "TerminalManager \<Rightarrow> string \<Rightarrow> TerminalEntry option" where
  "TerminalManager_get tm selector =
    (case bt_get (tm_terminals tm) selector of
      Some t \<Rightarrow> Some t
    | None \<Rightarrow> Option.bind (parse_display_id selector) (\<lambda>display_id.
        find (\<lambda>t. ti_display_id (Terminal_info t) = display_id) (map snd (tm_terminals tm))))"

definition allocate_display_id :: "TerminalManager \<Rightarrow> TerminalManager \<times> u64 result" where
  "allocate_display_id tm =
    (let display_id = tm_next_display_id tm
     in case checked_add display_id 1 of
          None \<Rightarrow> (tm, bail ''terminal display ID space exhausted'')
        | Some n \<Rightarrow> (tm \<lparr> tm_next_display_id := n \<rparr>, Inr display_id))"

definition resolve_cwd :: "host \<Rightarrow> TerminalManager \<Rightarrow> string \<Rightarrow> path result" where
  "resolve_cwd h tm requested =
    (let candidate =
       (if requested = [] then tm_session_root tm
        else let path = parse_path requested
          in if path_is_absolute path then path else path_join (tm_session_root tm) path)
     in and_then (with_context ''invalid cwd {}'' (host_canonicalize h candidate)) (\<lambda>canonical.
          if \<not> path_starts_with canonical (tm_session_root tm) then
            bail ''cwd {} is outside configured session root {}''
          else Inr canonical))"

section \<open>Spawning\<close>

text \<open>The checks of \<^verbatim>\<open>spawn\<close> before anything is reserved.\<close>

record spawn_plan =
  sp_rows :: u32
  sp_cols :: u32
  sp_environment :: PreparedTerminalEnvironment
  sp_cwd :: path
  sp_argv :: "string list"
  sp_claim :: ResourceClaim

definition plan_spawn :: "host \<Rightarrow> TerminalManager \<Rightarrow> SpawnRequest \<Rightarrow> spawn_plan result" where
  "plan_spawn h tm request =
    (let rows = (if sr_rows request = 0 then 24 else sr_rows request);
         cols = (if sr_cols request = 0 then 80 else sr_cols request)
     in if \<not> (1 \<le> rows \<and> rows \<le> 1000) \<or> \<not> (1 \<le> cols \<and> cols \<le> 1000) then
          bail ''terminal dimensions must be between 1 and 1000''
        else
          and_then (prepare_terminal_environment (host_locale_available h) (sr_term request)
            (sr_environment request)) (\<lambda>environment.
          and_then (resolve_cwd h tm (sr_cwd request)) (\<lambda>cwd.
          let argv = (if sr_argv request = []
            then [case host_shell h of Some s \<Rightarrow> s | None \<Rightarrow> ''/bin/sh''] else sr_argv request)
          in if hd argv = [] then bail ''argv[0] cannot be empty''
             else and_then (ResourceClaim_terminal rows cols (tm_resource_policy tm)) (\<lambda>claim.
               Inr \<lparr> sp_rows = rows, sp_cols = cols, sp_environment = environment,
                 sp_cwd = cwd, sp_argv = argv, sp_claim = claim \<rparr>))))"

definition base_environment :: "host \<Rightarrow> (string, string) btree" where
  "base_environment h =
    (let env = fold (\<lambda>name env. case host_env h name of Some v \<Rightarrow> bt_insert name v env
                | None \<Rightarrow> env) SAFE_BASE_ENVIRONMENT []
     in if bt_get env ''PATH'' = None
        then bt_insert ''PATH'' ''/usr/local/bin:/usr/bin:/bin'' env else env)"

definition spawn_command :: "host \<Rightarrow> spawn_plan \<Rightarrow> string \<Rightarrow> CommandBuilder" where
  "spawn_command h plan tid =
    \<lparr> cb_argv = sp_argv plan, cb_cwd = sp_cwd plan,
      cb_env = bt_insert ''ASTRA_TERMINAL_ID'' tid
        (fold (\<lambda>v. bt_insert (ev_name v) (ev_value v)) (pe_locale (sp_environment plan))
          (bt_insert ''TERM'' (pe_term (sp_environment plan)) (base_environment h))) \<rparr>"

text \<open>The calls that create the pseudo terminal, start the child and build the engine,
  in order; each may fail.\<close>

definition launch :: "host \<Rightarrow> unit result" where
  "launch h =
    and_then (with_context ''failed to allocate PTY'' (host_call h ''openpty'')) (\<lambda>_.
    and_then (host_call h ''enable_iutf8'') (\<lambda>_.
    and_then (with_context ''failed to spawn {}'' (host_call h ''spawn_command'')) (\<lambda>_.
    and_then (host_call h ''try_clone_reader'') (\<lambda>_.
    and_then (host_call h ''take_writer'') (\<lambda>_.
      host_call h ''TerminalEngine::with_history_limits'')))))"

definition system_welcome_banner :: "host \<Rightarrow> utext option" where
  "system_welcome_banner h =
    Option.bind (host_release_files h) (\<lambda>(os_release, kernel_release).
      build_welcome_banner os_release kernel_release (host_arch h))"

definition new_terminal ::
  "host \<Rightarrow> spawn_plan \<Rightarrow> SpawnRequest \<Rightarrow> string \<Rightarrow> u64 \<Rightarrow> PoolReservation list \<Rightarrow> TerminalEntry" where
  "new_terminal h plan request tid display_id resources =
    \<lparr> te_resources = resources,
      te_info = \<lparr> ti_id = tid,
        ti_name = (if sr_name request = []
          then text_of (''terminal-'' @ print_decimal (unat display_id)) else sr_name request),
        ti_argv = sp_argv plan, ti_cwd = sp_cwd plan, ti_status = ''running'',
        ti_exit_code = None, ti_rows = sp_rows plan, ti_cols = sp_cols plan,
        ti_display_id = display_id, ti_custom_name = None, ti_interactive = Some True,
        ti_workspace_id = sr_workspace_id request, ti_lifecycle = lifecycle_i32 LRunning \<rparr>,
      te_shell_pid = host_child_pid h,
      te_program_title = None,
      te_banner = (if sr_argv request = [] then system_welcome_banner h else None),
      te_events = [] \<rparr>"

text \<open>\<^verbatim>\<open>spawn\<close> with the identifier \<^verbatim>\<open>Uuid::new_v4\<close> returns as an argument. An error
  after the reservation drops it; \<^const>\<open>None\<close> stands for a panic of its destructor.\<close>

definition TerminalManager_spawn ::
  "host \<Rightarrow> string \<Rightarrow> pool_store \<Rightarrow> TerminalManager \<Rightarrow> SpawnRequest
    \<Rightarrow> (pool_store \<times> TerminalManager \<times> (TerminalEntry \<times> CommandBuilder) result) option" where
  "TerminalManager_spawn h tid store tm request =
    (case plan_spawn h tm request of
      Inl e \<Rightarrow> Some (store, tm, Inl e)
    | Inr plan \<Rightarrow>
        (case ResourceAccount_reserve store (tm_resources tm) (sp_claim plan) of
          None \<Rightarrow> None
        | Some (store', Inl quota) \<Rightarrow>
            Some (store', tm, bail ''{scope} {resource} quota exceeded'')
        | Some (store', Inr resources) \<Rightarrow>
            (case allocate_display_id tm of
              (tm', Inl e) \<Rightarrow>
                map_option (\<lambda>s. (s, tm', Inl e)) (drop_reservations store' resources)
            | (tm', Inr display_id) \<Rightarrow>
                (case launch h of
                  Inl e \<Rightarrow>
                    map_option (\<lambda>s. (s, tm', Inl e)) (drop_reservations store' resources)
                | Inr _ \<Rightarrow>
                    let t = new_terminal h plan request tid display_id resources
                    in Some (store', tm' \<lparr> tm_terminals := bt_insert tid t (tm_terminals tm') \<rparr>,
                         Inr (t, spawn_command h plan tid))))))"

section \<open>Monitors, the clipboard and the end of a terminal\<close>

text \<open>What the child monitor records: the exit code, or that waiting failed.\<close>

definition child_exited :: "i32 + string \<Rightarrow> TerminalEntry \<Rightarrow> TerminalEntry" where
  "child_exited outcome t =
    (case outcome of
      Inl code \<Rightarrow> t \<lparr> te_info := (te_info t) \<lparr> ti_status := ''exited'', ti_exit_code := Some code,
          ti_lifecycle := lifecycle_i32 LExited \<rparr>,
        te_events := te_events t @ [PtyExited code] \<rparr>
    | Inr message \<Rightarrow> t \<lparr> te_info := (te_info t) \<lparr> ti_status := ''lost'',
          ti_lifecycle := lifecycle_i32 LExited \<rparr>,
        te_events := te_events t @ [PtyError message] \<rparr>)"

text \<open>One round of the foreground monitor, given the leader of the foreground process
  group; without a shell process it never runs, and it stops once the terminal does
  not run.\<close>

definition foreground_round :: "i32 option \<Rightarrow> TerminalEntry \<Rightarrow> TerminalEntry option" where
  "foreground_round leader t =
    (case te_shell_pid t of
      None \<Rightarrow> None
    | Some shell_pid \<Rightarrow>
        if ti_status (Terminal_info t) \<noteq> ''running'' then None
        else
          let interactive = (leader = Some shell_pid);
              changed = (ti_interactive (te_info t) \<noteq> Some interactive);
              t' = t \<lparr> te_info := (te_info t) \<lparr> ti_interactive := Some interactive \<rparr> \<rparr>
          in Some (if changed
                   then t' \<lparr> te_events := te_events t' @ [PtyInteractive interactive] \<rparr> else t'))"

definition set_clipboard :: "bool \<Rightarrow> bytes option \<Rightarrow> TerminalEntry \<Rightarrow> TerminalEntry \<times> unit result" where
  "set_clipboard primary data t =
    (if (case data of None \<Rightarrow> False | Some c \<Rightarrow> MAX_CLIPBOARD_WRITE_BYTES < length c) then
       (t, bail ''OSC 52 clipboard write exceeds the 256 KiB host-effect limit'')
     else (t \<lparr> te_events := te_events t @ [ClipboardWrite primary data] \<rparr>, Inr ()))"

definition update_terminal ::
  "string \<Rightarrow> (TerminalEntry \<Rightarrow> TerminalEntry) \<Rightarrow> TerminalManager \<Rightarrow> TerminalManager" where
  "update_terminal tid f tm =
    (case bt_get (tm_terminals tm) tid of
      None \<Rightarrow> tm
    | Some t \<Rightarrow> tm \<lparr> tm_terminals := bt_insert tid (f t) (tm_terminals tm) \<rparr>)"

definition retire_terminal :: "string \<Rightarrow> TerminalManager \<Rightarrow> TerminalManager" where
  "retire_terminal tid tm = tm \<lparr> tm_terminals := bt_remove tid (tm_terminals tm) \<rparr>"


section \<open>Spawned terminals are confined\<close>

lemma clean_program_title_safe:
  assumes "clean_program_title title = Some t"
  shows "t \<noteq> []" "length t \<le> MAX_PROGRAM_TITLE_LENGTH" "\<forall>c \<in> set t. \<not> is_control c"
proof -
  have t: "t = take MAX_PROGRAM_TITLE_LENGTH (filter (\<lambda>c. \<not> is_control c) (trim_text title))"
    and ne: "t \<noteq> []"
    using assms by (auto simp: clean_program_title_def Let_def split: if_splits)
  show "t \<noteq> []" by (rule ne)
  show "length t \<le> MAX_PROGRAM_TITLE_LENGTH" by (simp add: t)
  show "\<forall>c \<in> set t. \<not> is_control c" unfolding t by (auto dest: in_set_takeD)
qed

definition pairs :: "EnvironmentVariable list \<Rightarrow> (string \<times> string) list" where
  "pairs vs = map (\<lambda>v. (ev_name v, ev_value v)) vs"

definition set_env :: "EnvironmentVariable list \<Rightarrow> (string, string) btree \<Rightarrow> (string, string) btree" where
  "set_env vs env = fold (\<lambda>v. bt_insert (ev_name v) (ev_value v)) vs env"

lemma set_env_facts:
  assumes "bt_ok env"
  shows "bt_ok (set_env vs env) \<and> bt_get (set_env vs env) = bt_get env ++ map_of (rev (pairs vs))"
  using assms unfolding set_env_def pairs_def
proof (induction vs arbitrary: env)
  case (Cons v vs)
  then have "bt_ok (bt_insert (ev_name v) (ev_value v) env)" by (simp add: btm.ok_ins)
  from Cons.IH [OF this] Cons.prems show ?case
    by (auto simp: btm.get_ins map_add_def fun_eq_iff split: option.split)
qed simp

lemma pairs_of_map: "pairs (map (\<lambda>(name, v). \<lparr> ev_name = name, ev_value = v \<rparr>) m) = m"
  unfolding pairs_def by (induction m) auto

lemma map_of_rev: "distinct (map fst m) \<Longrightarrow> map_of (rev m) = map_of m"
  by (subst map_of_inject_set) (simp_all flip: rev_map)

lemma bt_ok_distinct: "bt_ok m \<Longrightarrow> distinct (map fst m)"
  unfolding bt_ok_def by (simp add: strict_sorted_iff)

lemma collect_locale_facts:
  assumes "collect_locale vs m = Inr m'" "bt_ok m"
    and "set (bt_keys m) \<subseteq> set LOCALE_ENVIRONMENT_VARIABLES"
  shows "bt_ok m' \<and> set (bt_keys m') \<subseteq> set LOCALE_ENVIRONMENT_VARIABLES"
  using assms
proof (induction vs m rule: collect_locale.induct)
  case (2 v vs m)
  let ?m = "bt_insert (ev_name v) (ev_value v) m"
  have c: "ev_name v \<in> set LOCALE_ENVIRONMENT_VARIABLES" "valid_locale_value (ev_value v)"
    "bt_get m (ev_name v) = None" "collect_locale vs ?m = Inr m'"
    using "2.prems"(1) by (auto split: if_splits)
  have k: "set (bt_keys ?m) \<subseteq> set LOCALE_ENVIRONMENT_VARIABLES"
    using "2.prems"(3) c(1) bt_insert_keys [of "ev_name v" "ev_value v" m] by (simp add: bt_keys_def)
  show ?case
    by (rule "2.IH" [OF _ _ _ c(4)]) (simp_all add: c k btm.ok_ins "2.prems"(2))
qed simp

text \<open>What the prepared environment promises of the locale: the variables it sets are
  locale variables, and the one that decides the character type names a UTF-8 locale
  the host has.\<close>

definition utf8_locale :: "(string \<Rightarrow> bool) \<Rightarrow> (string \<Rightarrow> string option) \<Rightarrow> bool" where
  "utf8_locale locale_is_available env \<longleftrightarrow>
    (case (case env ''LC_ALL'' of Some v \<Rightarrow> Some v
        | None \<Rightarrow> (case env ''LC_CTYPE'' of Some v \<Rightarrow> Some v | None \<Rightarrow> env ''LANG'')) of
      None \<Rightarrow> False
    | Some v \<Rightarrow> locale_name_is_utf8 v \<and> locale_is_available v)"

lemma fallbacks_utf8: "v \<in> set UTF8_LOCALE_FALLBACKS \<Longrightarrow> locale_name_is_utf8 v"
proof -
  have "list_all locale_name_is_utf8 UTF8_LOCALE_FALLBACKS" by code_simp
  then show "v \<in> set UTF8_LOCALE_FALLBACKS \<Longrightarrow> ?thesis" by (simp add: list_all_iff)
qed

lemma usable_utf8:
  assumes "locale_is_usable available m"
  shows "utf8_locale available (bt_get m)"
proof -
  obtain v where v: "effective_ctype m = Some v" "locale_name_is_utf8 v"
    using assms by (auto simp: locale_is_usable_def split: option.splits)
  then obtain k where k: "bt_get m k = Some v" "k \<noteq> ''LANGUAGE''"
    by (auto simp: effective_ctype_def split: option.splits)
  then have "(k, v) \<in> set m" by (simp add: bt_get_def map_of_SomeD)
  with k(2) assms have "available v" by (auto simp: locale_is_usable_def list_all_iff)
  with v show ?thesis by (simp add: utf8_locale_def effective_ctype_def)
qed

lemma prepared_facts:
  assumes "prepare_terminal_environment available requested vs = Inr e"
  shows "valid_term (pe_term e)"
    and "set (map fst (pairs (pe_locale e))) \<subseteq> set LOCALE_ENVIRONMENT_VARIABLES"
    and "utf8_locale available (map_of (rev (pairs (pe_locale e))))"
proof -
  obtain m where m: "collect_locale vs [] = Inr m" and tv: "valid_term (pe_term e)"
    and cases: "locale_is_usable available m
        \<and> pe_locale e = map (\<lambda>(name, v). \<lparr> ev_name = name, ev_value = v \<rparr>) m
      \<or> (\<exists>f. find available UTF8_LOCALE_FALLBACKS = Some f \<and>
          pe_locale e = [\<lparr> ev_name = ''LANG'', ev_value = f \<rparr>, \<lparr> ev_name = ''LC_CTYPE'', ev_value = f \<rparr>])"
    using assms
    by (auto simp: prepare_terminal_environment_def Let_def result_simps split: if_splits)
  show "valid_term (pe_term e)" by (rule tv)
  have ok: "bt_ok m" "set (bt_keys m) \<subseteq> set LOCALE_ENVIRONMENT_VARIABLES"
    using collect_locale_facts [OF m] by (simp_all add: bt_keys_def)
  from cases show "set (map fst (pairs (pe_locale e))) \<subseteq> set LOCALE_ENVIRONMENT_VARIABLES"
  proof
    assume "\<exists>f. find available UTF8_LOCALE_FALLBACKS = Some f \<and>
      pe_locale e = [\<lparr> ev_name = ''LANG'', ev_value = f \<rparr>, \<lparr> ev_name = ''LC_CTYPE'', ev_value = f \<rparr>]"
    then show ?thesis by (auto simp: pairs_def LOCALE_ENVIRONMENT_VARIABLES_def)
  qed (use ok in \<open>simp add: pairs_of_map bt_keys_def\<close>)
  from cases show "utf8_locale available (map_of (rev (pairs (pe_locale e))))"
  proof
    assume a: "locale_is_usable available m
      \<and> pe_locale e = map (\<lambda>(name, v). \<lparr> ev_name = name, ev_value = v \<rparr>) m"
    then have "map_of (rev (pairs (pe_locale e))) = bt_get m"
      by (simp add: pairs_of_map map_of_rev bt_ok_distinct ok bt_get_def)
    with a show ?thesis by (simp add: usable_utf8)
  next
    assume "\<exists>f. find available UTF8_LOCALE_FALLBACKS = Some f \<and>
      pe_locale e = [\<lparr> ev_name = ''LANG'', ev_value = f \<rparr>, \<lparr> ev_name = ''LC_CTYPE'', ev_value = f \<rparr>]"
    then obtain f where f: "find available UTF8_LOCALE_FALLBACKS = Some f"
      "pe_locale e = [\<lparr> ev_name = ''LANG'', ev_value = f \<rparr>, \<lparr> ev_name = ''LC_CTYPE'', ev_value = f \<rparr>]"
      by blast
    from f(1) have "available f" "f \<in> set UTF8_LOCALE_FALLBACKS"
      by (auto simp: find_Some_iff)
    then show ?thesis using fallbacks_utf8 by (simp add: utf8_locale_def pairs_def f(2))
  qed
qed

lemma base_environment_facts:
  "bt_ok (base_environment h)" "set (bt_keys (base_environment h)) \<subseteq> set SAFE_BASE_ENVIRONMENT"
  "bt_get (base_environment h) ''PATH'' \<noteq> None"
proof -
  define step where "step = (\<lambda>name env. case host_env h name of Some v \<Rightarrow> bt_insert name v env
    | None \<Rightarrow> (env :: (string, string) btree))"
  have fold_facts: "bt_ok (fold step ns env) \<and>
      set (bt_keys (fold step ns env)) \<subseteq> set ns \<union> set (bt_keys env)"
    if "bt_ok env" for ns env
    using that
  proof (induction ns arbitrary: env)
    case (Cons n ns)
    have "bt_ok (step n env)" using Cons.prems by (auto simp: step_def btm.ok_ins split: option.split)
    moreover have "set (bt_keys (step n env)) \<subseteq> insert n (set (bt_keys env))"
      using bt_insert_keys [of n _ env] by (auto simp: step_def bt_keys_def split: option.split)
    ultimately show ?case using Cons.IH [of "step n env"] by auto
  qed simp
  define e where "e = fold step SAFE_BASE_ENVIRONMENT []"
  have e: "bt_ok e" "set (bt_keys e) \<subseteq> set SAFE_BASE_ENVIRONMENT"
    using fold_facts [of "[]" SAFE_BASE_ENVIRONMENT] by (simp_all add: e_def bt_keys_def)
  have b: "base_environment h = (if bt_get e ''PATH'' = None
      then bt_insert ''PATH'' ''/usr/local/bin:/usr/bin:/bin'' e else e)"
    by (simp add: base_environment_def e_def step_def Let_def)
  show "bt_ok (base_environment h)" using e by (simp add: b btm.ok_ins)
  have "''PATH'' \<in> set SAFE_BASE_ENVIRONMENT" by (simp add: SAFE_BASE_ENVIRONMENT_def)
  then show "set (bt_keys (base_environment h)) \<subseteq> set SAFE_BASE_ENVIRONMENT"
    using e bt_insert_keys [of "''PATH''" _ e] by (simp add: b bt_keys_def)
  show "bt_get (base_environment h) ''PATH'' \<noteq> None" using e by (simp add: b btm.get_ins)
qed

lemma plan_spawn_facts:
  assumes "plan_spawn h tm request = Inr plan"
  shows "prepare_terminal_environment (host_locale_available h) (sr_term request)
      (sr_environment request) = Inr (sp_environment plan)"
    and "path_starts_with (sp_cwd plan) (tm_session_root tm)"
    and "1 \<le> sp_rows plan \<and> sp_rows plan \<le> 1000 \<and> 1 \<le> sp_cols plan \<and> sp_cols plan \<le> 1000"
  using assms
  by (auto simp: plan_spawn_def resolve_cwd_def Let_def result_simps split: if_splits)

lemma spawn_command_env:
  "bt_ok (cb_env (spawn_command h plan tid))"
  "bt_get (cb_env (spawn_command h plan tid)) =
    ((bt_get (base_environment h))(''TERM'' \<mapsto> pe_term (sp_environment plan))
      ++ map_of (rev (pairs (pe_locale (sp_environment plan)))))(''ASTRA_TERMINAL_ID'' \<mapsto> tid)"
proof -
  let ?e = "bt_insert ''TERM'' (pe_term (sp_environment plan)) (base_environment h)"
  have e: "bt_ok ?e" by (simp add: btm.ok_ins base_environment_facts)
  note s = set_env_facts [OF e, of "pe_locale (sp_environment plan)"]
  have c: "cb_env (spawn_command h plan tid)
      = bt_insert ''ASTRA_TERMINAL_ID'' tid (set_env (pe_locale (sp_environment plan)) ?e)"
    by (simp add: spawn_command_def set_env_def)
  show "bt_ok (cb_env (spawn_command h plan tid))" using s by (simp add: c btm.ok_ins)
  show "bt_get (cb_env (spawn_command h plan tid)) =
    ((bt_get (base_environment h))(''TERM'' \<mapsto> pe_term (sp_environment plan))
      ++ map_of (rev (pairs (pe_locale (sp_environment plan)))))(''ASTRA_TERMINAL_ID'' \<mapsto> tid)"
    unfolding c using s base_environment_facts(1) [of h]
    by (metis btm.get_ins)
qed

definition allowed_environment :: "string set" where
  "allowed_environment = set SAFE_BASE_ENVIRONMENT \<union> set LOCALE_ENVIRONMENT_VARIABLES
    \<union> {''TERM'', ''ASTRA_TERMINAL_ID''}"

lemma locale_names_apart:
  "n \<in> set LOCALE_ENVIRONMENT_VARIABLES \<Longrightarrow>
    n \<notin> set SAFE_BASE_ENVIRONMENT \<and> n \<noteq> ''TERM'' \<and> n \<noteq> ''ASTRA_TERMINAL_ID''"
  by (auto simp: LOCALE_ENVIRONMENT_VARIABLES_def SAFE_BASE_ENVIRONMENT_def)

lemma spawn_command_confined:
  fixes tid :: string
  assumes "plan_spawn h tm request = Inr plan"
  defines "env \<equiv> cb_env (spawn_command h plan tid)"
  shows "set (bt_keys env) \<subseteq> allowed_environment"
    and "bt_get env ''ASTRA_TERMINAL_ID'' = Some tid"
    and "bt_get env ''TERM'' = Some (pe_term (sp_environment plan))"
    and "bt_get env ''PATH'' \<noteq> None"
    and "utf8_locale (host_locale_available h) (bt_get env)"
proof -
  define loc where "loc = map_of (rev (pairs (pe_locale (sp_environment plan))))"
  note p = prepared_facts [OF plan_spawn_facts(1) [OF assms(1)]]
  have dom_loc: "dom loc \<subseteq> set LOCALE_ENVIRONMENT_VARIABLES"
    using p(2) by (auto simp: loc_def dom_map_of_conv_image_fst)
  have env: "bt_get env = ((bt_get (base_environment h))(''TERM'' \<mapsto> pe_term (sp_environment plan))
      ++ loc)(''ASTRA_TERMINAL_ID'' \<mapsto> tid)"
    unfolding env_def loc_def by (rule spawn_command_env)
  have base: "dom (bt_get (base_environment h)) \<subseteq> set SAFE_BASE_ENVIRONMENT"
    using base_environment_facts(2) [of h] by (simp add: bt_keys_dom)
  show "set (bt_keys env) \<subseteq> allowed_environment"
    using dom_loc base by (auto simp: bt_keys_dom env allowed_environment_def)
  show "bt_get env ''ASTRA_TERMINAL_ID'' = Some tid" by (simp add: env)
  have none: "loc n = None" if "n \<notin> set LOCALE_ENVIRONMENT_VARIABLES" for n
    using dom_loc that by blast
  have "loc ''TERM'' = None" "loc ''PATH'' = None"
    by (rule none, simp add: LOCALE_ENVIRONMENT_VARIABLES_def)+
  then show "bt_get env ''TERM'' = Some (pe_term (sp_environment plan))"
    and "bt_get env ''PATH'' \<noteq> None"
    using base_environment_facts(3) [of h] by (simp_all add: env map_add_def)
  have same: "bt_get env n = loc n" if "n \<in> set LOCALE_ENVIRONMENT_VARIABLES" for n
  proof -
    have "n \<notin> dom (bt_get (base_environment h))" "n \<noteq> ''TERM''" "n \<noteq> ''ASTRA_TERMINAL_ID''"
      using locale_names_apart [OF that] base by auto
    then show ?thesis by (cases "loc n") (auto simp: env map_add_def)
  qed
  have "bt_get env ''LC_ALL'' = loc ''LC_ALL''" "bt_get env ''LC_CTYPE'' = loc ''LC_CTYPE''"
    "bt_get env ''LANG'' = loc ''LANG''"
    by (rule same, simp add: LOCALE_ENVIRONMENT_VARIABLES_def)+
  with p(3) show "utf8_locale (host_locale_available h) (bt_get env)"
    by (simp add: utf8_locale_def cong: option.case_cong flip: loc_def)
qed

lemma spawn_success:
  assumes "TerminalManager_spawn h tid store tm request = Some (store', tm', Inr (t, cmd))"
  obtains plan resources where
    "plan_spawn h tm request = Inr plan" "cmd = spawn_command h plan tid"
    "t = new_terminal h plan request tid (tm_next_display_id tm) resources"
    "checked_add (tm_next_display_id tm) 1 = Some (tm_next_display_id tm')"
    "tm' = tm \<lparr> tm_next_display_id := tm_next_display_id tm',
      tm_terminals := bt_insert tid t (tm_terminals tm) \<rparr>"
    "ResourceAccount_reserve store (tm_resources tm) (sp_claim plan) = Some (store', Inr resources)"
  using assms
  by (auto simp: TerminalManager_spawn_def allocate_display_id_def Let_def
    split: sum.splits option.splits prod.splits)

text \<open>C25. Whatever a client asks for, the child it gets is confined: its working
  directory is a canonical path under the session root; its environment holds only
  the five inherited base variables, the locale variables, the terminal type and the
  terminal's identifier, so nothing else of the server's environment reaches it; a
  search path is always set; the terminal type is a short name of harmless
  characters; the locale that decides the character type is a UTF-8 locale the host
  has; and the size is between 1 and 1000 in both directions.\<close>

theorem spawned_terminal_confined:
  assumes "TerminalManager_spawn h tid store tm request = Some (store', tm', Inr (t, cmd))"
  shows "path_starts_with (cb_cwd cmd) (tm_session_root tm)
    \<and> set (bt_keys (cb_env cmd)) \<subseteq> allowed_environment
    \<and> bt_get (cb_env cmd) ''ASTRA_TERMINAL_ID'' = Some (ti_id (te_info t))
    \<and> bt_get (cb_env cmd) ''PATH'' \<noteq> None
    \<and> (\<exists>term. bt_get (cb_env cmd) ''TERM'' = Some term \<and> valid_term term)
    \<and> utf8_locale (host_locale_available h) (bt_get (cb_env cmd))
    \<and> 1 \<le> ti_rows (te_info t) \<and> ti_rows (te_info t) \<le> 1000
    \<and> 1 \<le> ti_cols (te_info t) \<and> ti_cols (te_info t) \<le> 1000"
proof -
  obtain plan resources where s: "plan_spawn h tm request = Inr plan" "cmd = spawn_command h plan tid"
    "t = new_terminal h plan request tid (tm_next_display_id tm) resources"
    using spawn_success [OF assms] by metis
  note c = spawn_command_confined [OF s(1), of tid]
  note p = plan_spawn_facts [OF s(1)]
  have "cb_cwd cmd = sp_cwd plan" by (simp add: s(2) spawn_command_def)
  moreover have "ti_id (te_info t) = tid" "ti_rows (te_info t) = sp_rows plan"
    "ti_cols (te_info t) = sp_cols plan"
    by (simp_all add: s(3) new_terminal_def)
  moreover have "valid_term (pe_term (sp_environment plan))" by (rule prepared_facts [OF p(1)])
  ultimately show ?thesis using c p(2,3) unfolding s(2) by simp
qed

section \<open>Quota across a spawn\<close>

lemma account_reserve_cases:
  assumes "distinct account" "\<forall>a \<in> set account. a < length store"
  obtains (refused) e where "ResourceAccount_reserve store account claim = Some (store, Inl e)"
  | (granted) store' rs where "ResourceAccount_reserve store account claim = Some (store', Inr rs)"
      "drop_reservations store' rs = Some store"
proof -
  obtain store' res where r: "account_reserve_loop store account claim [] = Some (store', res)"
    "res = Inr ([] @ map (\<lambda>a. (a, claim)) account)
      \<and> drop_reservations store' ([] @ map (\<lambda>a. (a, claim)) account) = Some store
     \<or> (\<exists>e. res = Inl e \<and> store' = store)"
    by (rule account_reserve_loop_atomic [of "[]" account store store claim]) (use assms in auto)
  from r(2) show thesis
  proof
    assume a: "res = Inr ([] @ map (\<lambda>a. (a, claim)) account)
      \<and> drop_reservations store' ([] @ map (\<lambda>a. (a, claim)) account) = Some store"
    show thesis
      by (rule granted [of store' "map (\<lambda>a. (a, claim)) account"])
        (use a r(1) in \<open>simp_all add: ResourceAccount_reserve_def\<close>)
  next
    assume "\<exists>e. res = Inl e \<and> store' = store"
    then obtain e where "res = Inl e" "store' = store" by blast
    then show thesis using refused [of e] r(1) by (simp add: ResourceAccount_reserve_def)
  qed
qed

text \<open>C30. A spawn never leaks quota. On an account over distinct pools it always
  returns; when it fails, at whatever step, every pool and the registry are as
  before; when it succeeds, the new terminal is registered under its identifier and
  dropping it gives back exactly what it took.\<close>

theorem spawn_accounts_for_quota:
  assumes "distinct (tm_resources tm)" and "\<forall>a \<in> set (tm_resources tm). a < length store"
    and "bt_ok (tm_terminals tm)"
  shows "\<exists>store' tm' r. TerminalManager_spawn h tid store tm request = Some (store', tm', r)
    \<and> (case r of
        Inl e \<Rightarrow> store' = store \<and> tm_terminals tm' = tm_terminals tm
      | Inr (t, cmd) \<Rightarrow> bt_get (tm_terminals tm') tid = Some t
          \<and> drop_reservations store' (te_resources t) = Some store)"
proof (cases "plan_spawn h tm request")
  case (Inr plan)
  show ?thesis
    using assms(1,2)
  proof (cases rule: account_reserve_cases [where claim = "sp_claim plan"])
    case (granted store' rs)
    show ?thesis
      using Inr granted assms(3)
      by (cases "checked_add (tm_next_display_id tm) 1"; cases "launch h")
        (simp_all add: TerminalManager_spawn_def allocate_display_id_def bail_def Let_def
          new_terminal_def btm.get_ins)
  qed (simp add: TerminalManager_spawn_def Inr bail_def)
qed (simp add: TerminalManager_spawn_def)

section \<open>Selecting and listing terminals\<close>

text \<open>Everything that happens to a registered terminal: its monitors, its clipboard, a
  rename, and a title the engine has parsed.\<close>

datatype terminal_event = Renamed utext | Child "i32 + string" | Foreground "i32 option"
  | Clipboard bool "bytes option" | Titled "utext option"

primrec terminal_event_step :: "terminal_event \<Rightarrow> TerminalEntry \<Rightarrow> TerminalEntry" where
  "terminal_event_step (Renamed name) t = Terminal_rename name t"
| "terminal_event_step (Child outcome) t = child_exited outcome t"
| "terminal_event_step (Foreground leader) t =
    (case foreground_round leader t of Some t' \<Rightarrow> t' | None \<Rightarrow> t)"
| "terminal_event_step (Clipboard primary data) t = fst (set_clipboard primary data t)"
| "terminal_event_step (Titled title) t = t \<lparr> te_program_title := title \<rparr>"

inductive registry_reachable :: "TerminalManager \<Rightarrow> bool" where
  started: "TerminalManager_with_resources h root account policy = Inr tm \<Longrightarrow> registry_reachable tm"
| spawned: "registry_reachable tm \<Longrightarrow> bt_get (tm_terminals tm) tid = None \<Longrightarrow>
    parse_unsigned (2 ^ 64) tid = None \<Longrightarrow>
    TerminalManager_spawn h tid store tm request = Some (store', tm', r) \<Longrightarrow>
    registry_reachable tm'"
| changed: "registry_reachable tm \<Longrightarrow>
    registry_reachable (update_terminal tid (terminal_event_step ev) tm)"
| retired: "registry_reachable tm \<Longrightarrow> registry_reachable (retire_terminal tid tm)"

definition display_of :: "TerminalEntry \<Rightarrow> u64" where
  "display_of t = ti_display_id (te_info t)"

definition entry_ok :: "u64 \<Rightarrow> string \<Rightarrow> TerminalEntry \<Rightarrow> bool" where
  "entry_ok next_id tid t \<longleftrightarrow> ti_id (te_info t) = tid \<and> parse_unsigned (2 ^ 64) tid = None
    \<and> 0 < display_of t \<and> display_of t < next_id"

definition registry_ok :: "TerminalManager \<Rightarrow> bool" where
  "registry_ok tm \<longleftrightarrow> bt_ok (tm_terminals tm) \<and> 0 < tm_next_display_id tm
    \<and> (\<forall>tid t. bt_get (tm_terminals tm) tid = Some t \<longrightarrow> entry_ok (tm_next_display_id tm) tid t)
    \<and> (\<forall>tid t tid' t'. bt_get (tm_terminals tm) tid = Some t \<longrightarrow>
        bt_get (tm_terminals tm) tid' = Some t' \<longrightarrow> display_of t = display_of t' \<longrightarrow> tid = tid')"

lemma registry_okI:
  assumes "bt_ok (tm_terminals tm)" "0 < tm_next_display_id tm"
    and "\<And>tid t. bt_get (tm_terminals tm) tid = Some t \<Longrightarrow> entry_ok (tm_next_display_id tm) tid t"
    and "\<And>tid t tid' t'. bt_get (tm_terminals tm) tid = Some t \<Longrightarrow>
        bt_get (tm_terminals tm) tid' = Some t' \<Longrightarrow> display_of t = display_of t' \<Longrightarrow> tid = tid'"
  shows "registry_ok tm"
  using assms unfolding registry_ok_def by blast

lemma registry_okD:
  assumes "registry_ok tm"
  shows "bt_ok (tm_terminals tm)" "0 < tm_next_display_id tm"
    and "bt_get (tm_terminals tm) tid = Some t \<Longrightarrow> entry_ok (tm_next_display_id tm) tid t"
    and "bt_get (tm_terminals tm) tid = Some t \<Longrightarrow> bt_get (tm_terminals tm) tid' = Some t' \<Longrightarrow>
        display_of t = display_of t' \<Longrightarrow> tid = tid'"
  using assms unfolding registry_ok_def by blast+

lemma Terminal_info_ids [simp]:
  "ti_id (Terminal_info t) = ti_id (te_info t)" "ti_display_id (Terminal_info t) = display_of t"
  "ti_workspace_id (Terminal_info t) = ti_workspace_id (te_info t)"
  "ti_lifecycle (Terminal_info t) = ti_lifecycle (te_info t)"
  "ti_status (Terminal_info t) = ti_status (te_info t)"
  by (auto simp: Terminal_info_def display_of_def split: option.split)

lemma event_keeps_ids:
  "ti_id (te_info (terminal_event_step ev t)) = ti_id (te_info t)
    \<and> display_of (terminal_event_step ev t) = display_of t
    \<and> ti_workspace_id (te_info (terminal_event_step ev t)) = ti_workspace_id (te_info t)"
proof (cases ev)
  case (Foreground leader)
  then show ?thesis
    by (auto simp: foreground_round_def display_of_def Let_def split: option.splits)
next
  case (Child outcome)
  then show ?thesis by (cases outcome) (simp_all add: child_exited_def display_of_def)
qed (simp_all add: Terminal_rename_def set_clipboard_def display_of_def Let_def)

lemma entry_ok_event: "entry_ok n tid t \<Longrightarrow> entry_ok n tid (terminal_event_step ev t)"
  using event_keeps_ids [of ev t] by (simp add: entry_ok_def)

lemma update_terminal_ok:
  assumes "registry_ok tm"
  shows "registry_ok (update_terminal tid (terminal_event_step ev) tm)"
proof (cases "bt_get (tm_terminals tm) tid")
  case (Some t)
  note ok = registry_okD [OF assms]
  let ?f = "terminal_event_step ev"
  have get: "bt_get (tm_terminals (update_terminal tid ?f tm)) = (bt_get (tm_terminals tm))(tid \<mapsto> ?f t)"
    using ok(1) Some by (simp add: update_terminal_def btm.get_ins)
  have nxt: "tm_next_display_id (update_terminal tid ?f tm) = tm_next_display_id tm"
    using Some by (simp add: update_terminal_def)
  have old: "\<exists>u'. bt_get (tm_terminals tm) k = Some u' \<and> display_of u' = display_of u
      \<and> (u = u' \<or> u = ?f u')"
    if "bt_get (tm_terminals (update_terminal tid ?f tm)) k = Some u" for k u
    using that Some event_keeps_ids [of ev t] unfolding get by (cases "k = tid") auto
  show ?thesis
  proof (rule registry_okI)
    show "bt_ok (tm_terminals (update_terminal tid ?f tm))"
      using ok(1) Some by (simp add: update_terminal_def btm.ok_ins)
    show "0 < tm_next_display_id (update_terminal tid ?f tm)" using ok(2) by (simp add: nxt)
    show "entry_ok (tm_next_display_id (update_terminal tid ?f tm)) k u"
      if "bt_get (tm_terminals (update_terminal tid ?f tm)) k = Some u" for k u
      using old [OF that] ok(3) entry_ok_event unfolding nxt by metis
    show "k = k'" if "bt_get (tm_terminals (update_terminal tid ?f tm)) k = Some u"
      "bt_get (tm_terminals (update_terminal tid ?f tm)) k' = Some u'"
      "display_of u = display_of u'" for k u k' u'
      using old [OF that(1)] old [OF that(2)] that(3) ok(4) by metis
  qed
qed (use assms in \<open>simp add: update_terminal_def\<close>)

lemma retire_terminal_ok:
  assumes "registry_ok tm"
  shows "registry_ok (retire_terminal tid tm)"
proof -
  note ok = registry_okD [OF assms]
  have get: "bt_get (tm_terminals (retire_terminal tid tm)) = (bt_get (tm_terminals tm))(tid := None)"
    using ok(1) by (simp add: retire_terminal_def btm.get_del)
  have old: "bt_get (tm_terminals tm) k = Some u"
    if "bt_get (tm_terminals (retire_terminal tid tm)) k = Some u" for k u
    using that unfolding get by (simp split: if_splits)
  show ?thesis
    by (rule registry_okI)
      (use ok old in \<open>auto simp: retire_terminal_def btm.ok_del\<close>)
qed

lemma checked_add_one_less:
  fixes a b :: u64
  assumes "checked_add a 1 = Some b"
  shows "a < b" "0 < b"
  using assms by (auto simp: checked_add_Some word_less_nat_alt)

lemma entry_ok_later: "entry_ok n tid t \<Longrightarrow> n \<le> n' \<Longrightarrow> entry_ok n' tid t"
  by (auto simp: entry_ok_def)

lemma spawn_registry_ok:
  assumes "registry_ok tm" "bt_get (tm_terminals tm) tid = None"
    and "parse_unsigned (2 ^ 64) tid = None"
    and "TerminalManager_spawn h tid store tm request = Some (store', tm', Inr (t, cmd))"
  shows "registry_ok tm'"
proof -
  note ok = registry_okD [OF assms(1)]
  obtain plan resources where
    t: "t = new_terminal h plan request tid (tm_next_display_id tm) resources"
    and n: "checked_add (tm_next_display_id tm) 1 = Some (tm_next_display_id tm')"
    and tm': "tm' = tm \<lparr> tm_next_display_id := tm_next_display_id tm',
      tm_terminals := bt_insert tid t (tm_terminals tm) \<rparr>"
    using spawn_success [OF assms(4)] by metis
  have less: "tm_next_display_id tm < tm_next_display_id tm'"
    by (rule checked_add_one_less [OF n])
  have ts: "tm_terminals tm' = bt_insert tid t (tm_terminals tm)" by (subst tm') simp
  have get: "bt_get (tm_terminals tm') = (bt_get (tm_terminals tm))(tid \<mapsto> t)"
    using ok(1) by (simp add: ts btm.get_ins)
  have d: "display_of t = tm_next_display_id tm" "ti_id (te_info t) = tid"
    by (simp_all add: t new_terminal_def display_of_def)
  have new: "display_of u \<noteq> display_of t" if "bt_get (tm_terminals tm) k = Some u" for k u
    using ok(3) [OF that] d by (auto simp: entry_ok_def)
  show ?thesis
  proof (rule registry_okI)
    show "bt_ok (tm_terminals tm')" using ok(1) by (simp add: ts btm.ok_ins)
    show "0 < tm_next_display_id tm'" by (rule checked_add_one_less [OF n])
    show "entry_ok (tm_next_display_id tm') k u" if "bt_get (tm_terminals tm') k = Some u" for k u
    proof (cases "k = tid")
      case True
      then have "u = t" using that by (simp add: get)
      then show ?thesis using True less ok(2) assms(3) by (simp add: entry_ok_def d)
    next
      case False
      then show ?thesis
        using that ok(3) [of k u] less by (auto simp: get intro: entry_ok_later)
    qed
    show "k = k'" if "bt_get (tm_terminals tm') k = Some u" "bt_get (tm_terminals tm') k' = Some u'"
      "display_of u = display_of u'" for k u k' u'
    proof (cases "k = tid"; cases "k' = tid")
      assume "k = tid" "k' \<noteq> tid"
      then show ?thesis using that new [of k' u'] by (simp add: get)
    next
      assume "k \<noteq> tid" "k' = tid"
      then show ?thesis using that new [of k u] by (simp add: get)
    next
      assume "k \<noteq> tid" "k' \<noteq> tid"
      then show ?thesis using that ok(4) [of k u k' u'] by (simp add: get)
    qed simp
  qed
qed

lemma failed_spawn_registry:
  assumes "TerminalManager_spawn h tid store tm request = Some (store', tm', Inl e)"
  shows "tm_terminals tm' = tm_terminals tm \<and> (tm_next_display_id tm' = tm_next_display_id tm
    \<or> checked_add (tm_next_display_id tm) 1 = Some (tm_next_display_id tm'))"
  using assms
  by (auto simp: TerminalManager_spawn_def allocate_display_id_def bail_def Let_def
    split: sum.splits option.splits)

lemma failed_spawn_registry_ok:
  assumes "registry_ok tm"
    and "TerminalManager_spawn h tid store tm request = Some (store', tm', Inl e)"
  shows "registry_ok tm'"
proof -
  note ok = registry_okD [OF assms(1)] and f = failed_spawn_registry [OF assms(2)]
  have le: "tm_next_display_id tm \<le> tm_next_display_id tm'"
    using f checked_add_one_less(1) by fastforce
  show ?thesis
  proof (rule registry_okI)
    show "bt_ok (tm_terminals tm')" "0 < tm_next_display_id tm'" using ok f le by auto
    show "entry_ok (tm_next_display_id tm') k u" if "bt_get (tm_terminals tm') k = Some u" for k u
      using that f le ok(3) by (auto intro: entry_ok_later)
    show "k = k'" if "bt_get (tm_terminals tm') k = Some u" "bt_get (tm_terminals tm') k' = Some u'"
      "display_of u = display_of u'" for k u k' u'
      using that f ok(4) [of k u k' u'] by simp
  qed
qed

lemma registry_reachable_ok: "registry_reachable tm \<Longrightarrow> registry_ok tm"
proof (induction rule: registry_reachable.induct)
  case (started h root account policy tm)
  then have "tm_terminals tm = []" "tm_next_display_id tm = 1"
    by (auto simp: TerminalManager_with_resources_def result_simps)
  then show ?case by (intro registry_okI) simp_all
next
  case (spawned tm tid h store request store' tm' r)
  show ?case
  proof (cases r)
    case (Inl e)
    then show ?thesis using failed_spawn_registry_ok spawned by blast
  next
    case (Inr p)
    then show ?thesis using spawn_registry_ok spawned by (cases p) blast
  qed
qed (simp_all add: update_terminal_ok retire_terminal_ok)

lemma find_unique:
  assumes "x \<in> set xs" "P x" "\<And>y. y \<in> set xs \<Longrightarrow> P y \<Longrightarrow> y = x"
  shows "find P xs = Some x"
proof (cases "find P xs")
  case None
  then show ?thesis using assms(1,2) by (auto simp: find_None_iff)
next
  case (Some y)
  then have "y \<in> set xs" "P y" by (auto simp: find_Some_iff)
  then show ?thesis using assms(3) Some by blast
qed

lemma bt_get_in_set: "bt_ok m \<Longrightarrow> (k, v) \<in> set m \<longleftrightarrow> bt_get m k = Some v"
  unfolding bt_get_def by (simp add: bt_ok_distinct)

lemma unat_u64_less: "unat (n :: u64) < 2 ^ 64"
  using unsigned_less [of n, where ?'a = nat] by simp

lemma parse_display_print:
  assumes "n \<noteq> 0"
  shows "parse_display_id (print_decimal (unat n)) = Some n"
proof -
  have "parse_unsigned (2 ^ 64) (print_decimal (unat n)) = Some (unat n)"
    by (rule parse_print_decimal [OF unat_u64_less])
  then show ?thesis unfolding parse_display_id_def using assms by simp
qed

lemma get_by_display_id:
  assumes ok: "registry_ok tm" and t: "bt_get (tm_terminals tm) tid = Some t"
  shows "TerminalManager_get tm (print_decimal (unat (display_of t))) = Some t"
proof -
  let ?s = "print_decimal (unat (display_of t))"
  note okD = registry_okD [OF ok]
  have e: "entry_ok (tm_next_display_id tm) tid t" by (rule okD(3) [OF t])
  have "parse_unsigned (2 ^ 64) ?s \<noteq> None"
    using parse_print_decimal [OF unat_u64_less [of "display_of t"]] by (simp only: option.simps simp_thms)
  then have "bt_get (tm_terminals tm) ?s = None"
    using okD(3) [of ?s] by (cases "bt_get (tm_terminals tm) ?s") (auto simp: entry_ok_def)
  moreover have "parse_display_id ?s = Some (display_of t)"
    using e by (intro parse_display_print) (auto simp: entry_ok_def)
  moreover have "find (\<lambda>u. ti_display_id (Terminal_info u) = display_of t)
      (map snd (tm_terminals tm)) = Some t"
  proof (rule find_unique)
    show "t \<in> set (map snd (tm_terminals tm))"
      using t okD(1) by (force simp flip: bt_get_in_set)
    show "u = t" if "u \<in> set (map snd (tm_terminals tm))"
      "ti_display_id (Terminal_info u) = display_of t" for u
    proof -
      from that(1) obtain k where k: "bt_get (tm_terminals tm) k = Some u"
        using okD(1) by (auto simp: bt_get_in_set)
      then have "k = tid" using okD(4) [OF k t] that(2) by simp
      then show ?thesis using k t by simp
    qed
  qed simp
  ultimately show ?thesis by (simp add: TerminalManager_get_def)
qed

lemma distinct_displays:
  assumes "registry_ok tm"
  shows "distinct (map ti_display_id (registry_infos tm))"
proof -
  note ok = registry_okD [OF assms]
  have "inj_on (\<lambda>(k, t). display_of t) (set (tm_terminals tm))"
  proof (rule inj_onI, clarify)
    fix k t k' t'
    assume a: "(k, t) \<in> set (tm_terminals tm)" "(k', t') \<in> set (tm_terminals tm)"
      "display_of t = display_of t'"
    then have g: "bt_get (tm_terminals tm) k = Some t" "bt_get (tm_terminals tm) k' = Some t'"
      using ok(1) by (simp_all add: bt_get_in_set)
    then have "k = k'" using a(3) ok(4) by blast
    then show "k = k' \<and> t = t'" using g by simp
  qed
  moreover have "distinct (tm_terminals tm)" using bt_ok_distinct [OF ok(1)] by (simp add: distinct_map)
  moreover have "map ti_display_id (registry_infos tm) = map (\<lambda>(k, t). display_of t) (tm_terminals tm)"
    by (simp add: registry_infos_def split_beta)
  ultimately show ?thesis by (simp add: distinct_map)
qed

lemma strict_listing:
  assumes "distinct (map f xs)"
  shows "sorted_wrt (<) (map f (sort_key f (filter P xs)))"
proof -
  have "distinct (map f (sort_key f (filter P xs)))"
  proof -
    have "distinct (map f (filter P xs))" by (rule distinct_map_filter [OF assms])
    moreover have "mset (map f (sort_key f (filter P xs))) = mset (map f (filter P xs))" by simp
    ultimately show ?thesis by (metis mset_eq_imp_distinct_iff)
  qed
  then show ?thesis by (simp add: strict_sorted_iff)
qed

text \<open>A listing does not depend on the order in which the hash map is iterated.\<close>

lemma registry_order_irrelevant:
  assumes "registry_ok tm" "mset infos = mset (registry_infos tm)"
  shows "sort_key ti_display_id (filter P infos)
    = sort_key ti_display_id (filter P (registry_infos tm))"
proof (rule map_sorted_distinct_set_unique)
  have s: "set infos = set (registry_infos tm)" using assms(2) by (metis set_mset_mset)
  have d: "distinct (map ti_display_id (registry_infos tm))" by (rule distinct_displays [OF assms(1)])
  moreover have "mset (map ti_display_id infos) = mset (map ti_display_id (registry_infos tm))"
    using assms(2) by simp
  ultimately have d': "distinct (map ti_display_id infos)" by (metis mset_eq_imp_distinct_iff)
  show "inj_on ti_display_id (set (sort_key ti_display_id (filter P infos)) \<union>
      set (sort_key ti_display_id (filter P (registry_infos tm))))"
    using d s by (auto simp: distinct_map inj_on_def)
  show "set (sort_key ti_display_id (filter P infos))
      = set (sort_key ti_display_id (filter P (registry_infos tm)))"
    using s by simp
  show "distinct (map ti_display_id (sort_key ti_display_id (filter P infos)))"
    using strict_listing [OF d', of P] by (simp add: strict_sorted_iff)
  show "distinct (map ti_display_id (sort_key ti_display_id (filter P (registry_infos tm))))"
    using strict_listing [OF d, of P] by (simp add: strict_sorted_iff)
qed simp_all

text \<open>C31. Selectors and listings are unambiguous. In every reachable registry a
  terminal is found by its identifier and by the decimal print of its display number,
  which is not zero and which no other terminal has; the listings are strictly
  ordered by display number, so they hold every terminal once, and they hold exactly
  the registered terminals the filter admits. The identifiers are assumed to be
  fresh and, as UUIDs contain hyphens, not to read as numbers.\<close>

theorem terminal_selectors:
  assumes "registry_reachable tm" and "bt_get (tm_terminals tm) tid = Some t"
  shows "TerminalManager_get tm tid = Some t
    \<and> TerminalManager_get tm (print_decimal (unat (ti_display_id (te_info t)))) = Some t
    \<and> ti_display_id (te_info t) \<noteq> 0
    \<and> sorted_wrt (<) (map ti_display_id (list_in_workspace tm w include_exited))
    \<and> (Terminal_info t \<in> set (list_in_workspace tm w include_exited)
        \<longleftrightarrow> in_workspace w include_exited (te_info t))"
proof -
  have ok: "registry_ok tm" by (rule registry_reachable_ok [OF assms(1)])
  have "(tid, t) \<in> set (tm_terminals tm)"
    using assms(2) registry_okD(1) [OF ok] by (simp add: bt_get_in_set)
  then have "Terminal_info t \<in> set (registry_infos tm)" by (force simp: registry_infos_def)
  then have "Terminal_info t \<in> set (list_in_workspace tm w include_exited)
      \<longleftrightarrow> in_workspace w include_exited (te_info t)"
    by (simp add: list_in_workspace_def in_workspace_def)
  moreover have "sorted_wrt (<) (map ti_display_id (list_in_workspace tm w include_exited))"
    unfolding list_in_workspace_def by (rule strict_listing [OF distinct_displays [OF ok]])
  moreover have "display_of t \<noteq> 0"
    using registry_okD(3) [OF ok assms(2)] by (auto simp: entry_ok_def)
  moreover have "TerminalManager_get tm tid = Some t"
    using assms(2) by (simp add: TerminalManager_get_def)
  ultimately show ?thesis
    using get_by_display_id [OF ok assms(2)] by (simp add: display_of_def)
qed

section \<open>A concrete host\<close>

definition demo_host :: host where
  "demo_host = \<lparr> host_env = (\<lambda>n. if n = ''HOME'' then Some ''/root'' else if n = ''SECRET''
      then Some ''token'' else None),
    host_shell = Some ''/bin/bash'', host_locale_available = (\<lambda>v. v = ''C.UTF-8''),
    host_canonicalize = Inr, host_call = (\<lambda>_. Inr ()), host_child_pid = Some 7,
    host_release_files = None, host_arch = text_of ''x86_64'' \<rparr>"

definition demo_manager :: TerminalManager where
  "demo_manager = \<lparr> tm_terminals = [], tm_next_display_id = 1,
    tm_session_root = [RootDir, Normal ''srv''], tm_resources = [0],
    tm_resource_policy = ResourcePolicy_default \<rparr>"

definition demo_spawn :: SpawnRequest where
  "demo_spawn = \<lparr> sr_name = [], sr_argv = [], sr_cwd = ''work'', sr_rows = 0, sr_cols = 0,
    sr_term = [], sr_environment = [\<lparr> ev_name = ''LANG'', ev_value = ''de_DE.UTF-8'' \<rparr>],
    sr_workspace_id = ''w'' \<rparr>"

definition demo_claim :: ResourceClaim where
  "demo_claim = ResourceClaim_default \<lparr> terminals := 1, terminal_memory_bytes := 4194304,
    history_bytes := 8388608 \<rparr>"

definition demo_plan :: spawn_plan where
  "demo_plan = \<lparr> sp_rows = 24, sp_cols = 80,
    sp_environment = \<lparr> pe_term = ''xterm-256color'',
      pe_locale = [\<lparr> ev_name = ''LANG'', ev_value = ''C.UTF-8'' \<rparr>,
        \<lparr> ev_name = ''LC_CTYPE'', ev_value = ''C.UTF-8'' \<rparr>], pe_used_locale_fallback = True \<rparr>,
    sp_cwd = [RootDir, Normal ''srv'', Normal ''work''], sp_argv = [''/bin/bash''],
    sp_claim = demo_claim \<rparr>"

lemma demo_manager_started:
  "TerminalManager_with_resources demo_host [RootDir, Normal ''srv''] [0] ResourcePolicy_default
    = Inr demo_manager"
  by (simp add: TerminalManager_with_resources_def ResourcePolicy_default_valid demo_host_def
      demo_manager_def)

lemma demo_environment:
  "prepare_terminal_environment (host_locale_available demo_host) (sr_term demo_spawn)
    (sr_environment demo_spawn) = Inr (sp_environment demo_plan)"
  by code_simp

lemma demo_cwd: "resolve_cwd demo_host demo_manager (sr_cwd demo_spawn) = Inr (sp_cwd demo_plan)"
  by (simp add: resolve_cwd_def demo_host_def demo_manager_def demo_spawn_def demo_plan_def
      parse_path_def path_is_absolute_def path_join_def path_starts_with_def)

lemma demo_terminal_claim:
  "ResourceClaim_terminal 24 80 ResourcePolicy_default = Inr demo_claim"
proof -
  have "checked_mul (24 :: u64) 80 = Some 1920" "checked_mul (1920 :: u64) 64 = Some 122880"
    by (simp_all add: checked_mul_def)
  then show ?thesis
    by (simp add: ResourceClaim_terminal_def ResourcePolicy_default_def demo_claim_def MIB_def)
qed

lemma demo_plan_spawn: "plan_spawn demo_host demo_manager demo_spawn = Inr demo_plan"
proof -
  have "(1 :: u32) \<le> 24" "(24 :: u32) \<le> 1000" "(1 :: u32) \<le> 80" "(80 :: u32) \<le> 1000"
    by simp_all
  moreover have "sr_rows demo_spawn = 0" "sr_cols demo_spawn = 0" "sr_argv demo_spawn = []"
    "host_shell demo_host = Some ''/bin/bash''"
    "tm_resource_policy demo_manager = ResourcePolicy_default"
    by (simp_all add: demo_spawn_def demo_host_def demo_manager_def)
  ultimately show ?thesis
    unfolding plan_spawn_def
    by (simp add: demo_environment demo_cwd demo_terminal_claim) (simp add: demo_plan_def)
qed

definition demo_pool_terminal :: ResourcePoolInner where
  "demo_pool_terminal = demo_pool \<lparr> pool_usage := demo_claim \<rparr>"

lemma demo_terminal_reserve:
  "ResourceAccount_reserve [demo_pool] [0] demo_claim
    = Some ([demo_pool_terminal], Inr [(0, demo_claim)])"
proof -
  have "ResourcePool_reserve demo_pool demo_claim = Inr demo_pool_terminal"
    unfolding ResourcePool_reserve_Inr
    by (intro exI [of _ demo_claim])
      (simp add: demo_pool_terminal_def ball_resource_names amount_def demo_pool_def pool_cap_def
        demo_claim_def ResourceClaim_default_def ResourceLimits_user_defaults_def as_claim_def
        MIB_def GIB_def)
  then show ?thesis by (simp add: ResourceAccount_reserve_def)
qed

definition demo_terminal :: TerminalEntry where
  "demo_terminal = new_terminal demo_host demo_plan demo_spawn ''t-1'' 1 [(0, demo_claim)]"

definition demo_manager_one :: TerminalManager where
  "demo_manager_one = demo_manager \<lparr> tm_next_display_id := 2,
    tm_terminals := [(''t-1'', demo_terminal)] \<rparr>"

lemma demo_spawned:
  "TerminalManager_spawn demo_host ''t-1'' [demo_pool] demo_manager demo_spawn
    = Some ([demo_pool_terminal], demo_manager_one, Inr (demo_terminal,
        spawn_command demo_host demo_plan ''t-1''))"
proof -
  have "tm_resources demo_manager = [0]" "sp_claim demo_plan = demo_claim"
    by (simp_all add: demo_manager_def demo_plan_def)
  moreover have "launch demo_host = Inr ()" by (simp add: launch_def demo_host_def)
  moreover have "allocate_display_id demo_manager = (demo_manager \<lparr> tm_next_display_id := 2 \<rparr>, Inr 1)"
    by (simp add: allocate_display_id_def demo_manager_def checked_add_def)
  ultimately show ?thesis
    by (simp add: TerminalManager_spawn_def demo_plan_spawn demo_terminal_reserve demo_terminal_def)
      (simp add: demo_manager_one_def demo_terminal_def demo_manager_def Let_def)
qed

theorem spawned_terminal_confined_witness:
  "path_starts_with (sp_cwd demo_plan) [RootDir, Normal ''srv'']
    \<and> bt_get (cb_env (spawn_command demo_host demo_plan ''t-1'')) ''SECRET'' = None"
  using spawned_terminal_confined [OF demo_spawned]
  by (auto simp: spawn_command_def demo_manager_def demo_host_def bt_keys_dom
      allowed_environment_def SAFE_BASE_ENVIRONMENT_def LOCALE_ENVIRONMENT_VARIABLES_def)

theorem spawn_accounts_for_quota_witness:
  "drop_reservations [demo_pool_terminal] (te_resources demo_terminal) = Some [demo_pool]"
  using spawn_accounts_for_quota [of demo_manager "[demo_pool]" demo_host "''t-1''" demo_spawn]
  by (simp add: demo_spawned) (simp add: demo_manager_def)

lemma digit_char_one: "digit_char (Suc 0) = CHR ''1''"
  by code_simp

theorem terminal_selectors_witness:
  "TerminalManager_get demo_manager_one ''1'' = Some demo_terminal"
proof -
  have started: "registry_reachable demo_manager"
    by (rule registry_reachable.started [OF demo_manager_started])
  have fresh: "bt_get (tm_terminals demo_manager) ''t-1'' = None"
    "parse_unsigned (2 ^ 64) ''t-1'' = None"
    by (simp_all add: demo_manager_def parse_unsigned_def digit_value_def less_eq_char_def)
  have r: "registry_reachable demo_manager_one"
    by (rule registry_reachable.spawned [OF started fresh demo_spawned])
  have t: "bt_get (tm_terminals demo_manager_one) ''t-1'' = Some demo_terminal"
    by (simp add: demo_manager_one_def bt_get_def)
  have "ti_display_id (te_info demo_terminal) = 1"
    by (simp add: demo_terminal_def new_terminal_def)
  then have "print_decimal (unat (ti_display_id (te_info demo_terminal))) = ''1''"
    using digit_char_one by (subst print_decimal.simps) simp
  then show ?thesis using terminal_selectors [OF r t] by simp
qed

end
