(* ===== verification/Session.thy ===== *)
theory Session
  imports Terminal_Manager
begin

text \<open>
  Workspaces and attachments (\<^verbatim>\<open>src/session.rs\<close>): the catalog of workspaces with its
  validation and its atomic persistence, the operations on workspaces, the terminals
  a session spawns into them, and the attachments of clients with their states.

  Arguments of the model: \<^verbatim>\<open>parse_uuid\<close>, the canonical print of what
  \<^verbatim>\<open>Uuid::parse_str\<close> accepts; the protobuf codec of the catalog; the identifiers
  \<^verbatim>\<open>Uuid::new_v4\<close> returns; the clock; and the outcome of every call on the
  filesystem. The file of the catalog and the temporary files beside it are the
  \<^verbatim>\<open>disk\<close> record.
\<close>

section \<open>Workspaces, attachments and their records\<close>

definition SESSION_CATALOG_SCHEMA_VERSION :: u32 where
  "SESSION_CATALOG_SCHEMA_VERSION = 1"

definition MAX_SESSION_CATALOG_BYTES :: usize where
  "MAX_SESSION_CATALOG_BYTES = 1024 * 1024"

definition MAX_WORKSPACE_NAME_BYTES :: usize where
  "MAX_WORKSPACE_NAME_BYTES = 128"

record WorkspaceInfo =
  ws_id :: string
  ws_name :: utext
  ws_revision :: u64
  ws_created_at_unix_ms :: u64
  ws_is_default :: bool

record SessionCatalog =
  sc_schema_version :: u32
  sc_default_workspace_id :: string
  sc_workspaces :: "WorkspaceInfo list"

datatype AttachmentRole = RoleUnspecified | Viewer | Controller

primrec AttachmentRole_i32 :: "AttachmentRole \<Rightarrow> i32" where
  "AttachmentRole_i32 RoleUnspecified = 0"
| "AttachmentRole_i32 Viewer = 1"
| "AttachmentRole_i32 Controller = 2"

datatype AttachmentState = StateUnspecified | Subscribing | Snapshotting | Live

primrec AttachmentState_i32 :: "AttachmentState \<Rightarrow> i32" where
  "AttachmentState_i32 StateUnspecified = 0"
| "AttachmentState_i32 Subscribing = 1"
| "AttachmentState_i32 Snapshotting = 2"
| "AttachmentState_i32 Live = 3"

definition AttachmentState_try_from :: "i32 \<Rightarrow> AttachmentState option" where
  "AttachmentState_try_from n =
    find (\<lambda>s. AttachmentState_i32 s = n) [StateUnspecified, Subscribing, Snapshotting, Live]"

record AttachmentInfo =
  ai_id :: string
  ai_connection_id :: string
  ai_workspace_id :: string
  ai_terminal_id :: string
  ai_role :: i32
  ai_state :: i32
  ai_created_at_unix_ms :: u64

record SessionManager =
  sm_terminals :: TerminalManager
  sm_catalog :: SessionCatalog
  sm_catalog_path :: path
  sm_attachments :: "(string, AttachmentInfo) btree"
  sm_resources :: ResourceAccount
  sm_resource_policy :: ResourcePolicy

record ActiveAttachment =
  aa_info :: AttachmentInfo
  aa_resources :: "PoolReservation list"

text \<open>The catalog's file, and the temporary files in its directory.\<close>

record disk =
  disk_catalog :: "bytes option"
  disk_temporaries :: "string list"

record catalog_codec =
  encode_catalog :: "SessionCatalog \<Rightarrow> bytes"
  decode_catalog :: "bytes \<Rightarrow> SessionCatalog option"

section \<open>Validation\<close>

definition validate_uuid :: "(string \<Rightarrow> string option) \<Rightarrow> string \<Rightarrow> unit result" where
  "validate_uuid parse_uuid v =
    and_then (with_context ''{label} is not a UUID'' (ok_or ''invalid UUID'' (parse_uuid v)))
      (\<lambda>parsed. if parsed = v then Inr () else bail ''{label} is not canonical'')"

definition validate_workspace_name :: "utext \<Rightarrow> utext result" where
  "validate_workspace_name name =
    (let name = trim_text name
     in if name = [] then bail ''workspace name cannot be empty''
        else if MAX_WORKSPACE_NAME_BYTES < utf8_length name then
          bail ''workspace name exceeds 128 bytes''
        else if list_ex is_control name then
          bail ''workspace name contains control characters''
        else Inr name)"

fun validate_workspaces ::
  "(string \<Rightarrow> string option) \<Rightarrow> string \<Rightarrow> WorkspaceInfo list \<Rightarrow> string list \<Rightarrow> utext list \<Rightarrow> nat
    \<Rightarrow> nat result" where
  "validate_workspaces parse_uuid default_id [] ids names default_count = Inr default_count"
| "validate_workspaces parse_uuid default_id (w # ws) ids names default_count =
    and_then (validate_uuid parse_uuid (ws_id w)) (\<lambda>_.
    if ws_id w \<in> set ids then bail ''duplicate workspace ID''
    else and_then (validate_workspace_name (ws_name w)) (\<lambda>name.
    if name \<noteq> ws_name w then bail ''workspace name is not canonical''
    else if name \<in> set names then bail ''duplicate workspace name''
    else if \<not> 0 < ws_revision w then bail ''workspace revision must be nonzero''
    else if ws_is_default w then
      (if ws_id w \<noteq> default_id then bail ''default workspace marker does not match catalog''
       else validate_workspaces parse_uuid default_id ws (ws_id w # ids) (name # names)
         (default_count + 1))
    else validate_workspaces parse_uuid default_id ws (ws_id w # ids) (name # names)
      default_count))"

definition validate_catalog :: "(string \<Rightarrow> string option) \<Rightarrow> SessionCatalog \<Rightarrow> unit result" where
  "validate_catalog parse_uuid c =
    (if sc_schema_version c \<noteq> SESSION_CATALOG_SCHEMA_VERSION then
       bail ''unsupported session catalog schema version''
     else and_then (validate_uuid parse_uuid (sc_default_workspace_id c)) (\<lambda>_.
       if sc_workspaces c = [] then bail ''session catalog has no workspace''
       else and_then (validate_workspaces parse_uuid (sc_default_workspace_id c) (sc_workspaces c)
           [] [] 0) (\<lambda>default_count.
         if default_count = 1 then Inr ()
         else bail ''session catalog must have one default workspace'')))"

section \<open>Persistence\<close>

text \<open>The file is written under a temporary name, synchronised, and renamed; then the
  directory is synchronised. Every call may fail; after a failure the temporary name is
  removed, ignoring errors.\<close>

definition write_and_rename ::
  "(string \<Rightarrow> unit result) \<Rightarrow> string \<Rightarrow> bytes \<Rightarrow> disk \<Rightarrow> disk \<times> unit result" where
  "write_and_rename io temporary encoded d =
    (case io ''open'' of
      Inl e \<Rightarrow> (d, Inl e)
    | Inr _ \<Rightarrow>
        let d1 = d \<lparr> disk_temporaries := temporary # disk_temporaries d \<rparr> in
        (case and_then (io ''write_all'') (\<lambda>_. and_then (io ''sync_all'') (\<lambda>_. io ''rename'')) of
          Inl e \<Rightarrow> (d1, Inl e)
        | Inr _ \<Rightarrow>
            (d1 \<lparr> disk_catalog := Some encoded,
               disk_temporaries := remove1 temporary (disk_temporaries d1) \<rparr>,
             io ''sync parent'')))"

definition remove_temporary :: "(string \<Rightarrow> unit result) \<Rightarrow> string \<Rightarrow> disk \<Rightarrow> disk" where
  "remove_temporary io temporary d =
    (case io ''remove_file'' of
      Inl e \<Rightarrow> d
    | Inr _ \<Rightarrow> d \<lparr> disk_temporaries := remove1 temporary (disk_temporaries d) \<rparr>)"

definition persist_catalog ::
  "(string \<Rightarrow> string option) \<Rightarrow> catalog_codec \<Rightarrow> (string \<Rightarrow> unit result) \<Rightarrow> string \<Rightarrow> path
    \<Rightarrow> SessionCatalog \<Rightarrow> disk \<Rightarrow> disk \<times> unit result" where
  "persist_catalog parse_uuid codec io temporary path c d =
    (case validate_catalog parse_uuid c of
      Inl e \<Rightarrow> (d, Inl e)
    | Inr _ \<Rightarrow>
        let encoded = encode_catalog codec c in
        if MAX_SESSION_CATALOG_BYTES < length encoded then
          (d, bail ''session catalog exceeds size limit'')
        else (case path_parent path of
          None \<Rightarrow> (d, bail ''session catalog has no parent'')
        | Some parent \<Rightarrow>
            (case io ''create_dir_all'' of
              Inl e \<Rightarrow> (d, Inl e)
            | Inr _ \<Rightarrow>
                let (d', r) = write_and_rename io temporary encoded d
                in (if is_ok r then d' else remove_temporary io temporary d',
                    with_context ''failed to persist session catalog {}'' r))))"

definition load_or_create_catalog ::
  "(string \<Rightarrow> string option) \<Rightarrow> catalog_codec \<Rightarrow> (string \<Rightarrow> unit result) \<Rightarrow> string \<Rightarrow> string
    \<Rightarrow> u64 result \<Rightarrow> path \<Rightarrow> disk \<Rightarrow> disk \<times> SessionCatalog result" where
  "load_or_create_catalog parse_uuid codec io temporary new_id now path d =
    (case io ''read'' of
      Inl e \<Rightarrow> (d, with_context ''failed to read session catalog {}'' (Inl e))
    | Inr _ \<Rightarrow>
        (case disk_catalog d of
          Some bs \<Rightarrow> (d,
            if MAX_SESSION_CATALOG_BYTES < length bs then bail ''session catalog exceeds size limit''
            else and_then (ok_or ''session catalog is not valid protobuf'' (decode_catalog codec bs))
              (\<lambda>c. and_then (validate_catalog parse_uuid c) (\<lambda>_. Inr c)))
        | None \<Rightarrow>
            (case now of
              Inl e \<Rightarrow> (d, Inl e)
            | Inr t \<Rightarrow>
                let c = \<lparr> sc_schema_version = SESSION_CATALOG_SCHEMA_VERSION,
                  sc_default_workspace_id = new_id,
                  sc_workspaces = [\<lparr> ws_id = new_id, ws_name = text_of ''Default'', ws_revision = 1,
                    ws_created_at_unix_ms = t, ws_is_default = True \<rparr>] \<rparr>;
                  (d', r) = persist_catalog parse_uuid codec io temporary path c d
                in (d', and_then r (\<lambda>_. Inr c)))))"

definition SessionManager_with_resources ::
  "(string \<Rightarrow> string option) \<Rightarrow> catalog_codec \<Rightarrow> (string \<Rightarrow> unit result) \<Rightarrow> host \<Rightarrow> string \<Rightarrow> string
    \<Rightarrow> u64 result \<Rightarrow> path \<Rightarrow> path \<Rightarrow> ResourceAccount \<Rightarrow> ResourcePolicy \<Rightarrow> disk
    \<Rightarrow> disk \<times> SessionManager result" where
  "SessionManager_with_resources parse_uuid codec io h temporary new_id now session_root catalog_path
      resources policy d =
    (case and_then (ResourcePolicy_validate policy) (\<lambda>_.
        TerminalManager_with_resources h session_root resources policy) of
      Inl e \<Rightarrow> (d, Inl e)
    | Inr tm \<Rightarrow>
        let (d', r) = load_or_create_catalog parse_uuid codec io temporary new_id now catalog_path d
        in (d', and_then r (\<lambda>c. Inr \<lparr> sm_terminals = tm, sm_catalog = c,
             sm_catalog_path = catalog_path, sm_attachments = [], sm_resources = resources,
             sm_resource_policy = policy \<rparr>)))"

section \<open>Operations on workspaces\<close>

text \<open>The arguments every update of the catalog takes: the UUID parser, the codec, the
  outcomes of the filesystem calls, and the name of the temporary file.\<close>

record catalog_env =
  ce_parse_uuid :: "string \<Rightarrow> string option"
  ce_codec :: catalog_codec
  ce_io :: "string \<Rightarrow> unit result"
  ce_temporary :: string

definition update_catalog ::
  "catalog_env \<Rightarrow> (SessionCatalog \<Rightarrow> (SessionCatalog \<times> 'a) result) \<Rightarrow> disk \<Rightarrow> SessionManager
    \<Rightarrow> disk \<times> SessionManager \<times> 'a result" where
  "update_catalog env update d sm =
    (case update (sm_catalog sm) of
      Inl e \<Rightarrow> (d, sm, Inl e)
    | Inr (candidate, x) \<Rightarrow>
        (case validate_catalog (ce_parse_uuid env) candidate of
          Inl e \<Rightarrow> (d, sm, Inl e)
        | Inr _ \<Rightarrow>
            let (d', r) = persist_catalog (ce_parse_uuid env) (ce_codec env) (ce_io env)
              (ce_temporary env) (sm_catalog_path sm) candidate d
            in (case r of
                 Inl e \<Rightarrow> (d', sm, Inl e)
               | Inr _ \<Rightarrow> (d', sm \<lparr> sm_catalog := candidate \<rparr>, Inr x))))"

definition default_workspace_id :: "SessionManager \<Rightarrow> string" where
  "default_workspace_id sm = sc_default_workspace_id (sm_catalog sm)"

definition list_workspaces :: "SessionManager \<Rightarrow> WorkspaceInfo list" where
  "list_workspaces sm =
    sort_key (\<lambda>w. (ws_created_at_unix_ms w, ws_id w)) (sc_workspaces (sm_catalog sm))"

definition push_workspace ::
  "WorkspaceInfo \<Rightarrow> SessionCatalog \<Rightarrow> (SessionCatalog \<times> WorkspaceInfo) result" where
  "push_workspace w c =
    (if list_ex (\<lambda>x. ws_name x = ws_name w) (sc_workspaces c) then
       bail ''workspace name already exists''
     else Inr (c \<lparr> sc_workspaces := sc_workspaces c @ [w] \<rparr>, w))"

definition create_workspace ::
  "catalog_env \<Rightarrow> string \<Rightarrow> u64 result \<Rightarrow> utext \<Rightarrow> disk \<Rightarrow> SessionManager
    \<Rightarrow> disk \<times> SessionManager \<times> WorkspaceInfo result" where
  "create_workspace env new_id now name d sm =
    (case validate_workspace_name name of
      Inl e \<Rightarrow> (d, sm, Inl e)
    | Inr name \<Rightarrow>
        (case now of
          Inl e \<Rightarrow> (d, sm, Inl e)
        | Inr t \<Rightarrow> update_catalog env (push_workspace \<lparr> ws_id = new_id, ws_name = name,
            ws_revision = 1, ws_created_at_unix_ms = t, ws_is_default = False \<rparr>) d sm))"

fun replace_first :: "('a \<Rightarrow> bool) \<Rightarrow> 'a \<Rightarrow> 'a list \<Rightarrow> 'a list" where
  "replace_first P y [] = []"
| "replace_first P y (x # xs) = (if P x then y # xs else x # replace_first P y xs)"

definition rename_in_catalog ::
  "string \<Rightarrow> utext \<Rightarrow> SessionCatalog \<Rightarrow> (SessionCatalog \<times> WorkspaceInfo) result" where
  "rename_in_catalog workspace_id name c =
    (if list_ex (\<lambda>w. ws_id w \<noteq> workspace_id \<and> ws_name w = name) (sc_workspaces c) then
       bail ''workspace name already exists''
     else and_then (ok_or ''workspace does not exist''
         (find (\<lambda>w. ws_id w = workspace_id) (sc_workspaces c))) (\<lambda>w.
       and_then (ok_or ''workspace revision exhausted'' (checked_add (ws_revision w) 1)) (\<lambda>revision.
         let w' = w \<lparr> ws_name := name, ws_revision := revision \<rparr>
         in Inr (c \<lparr> sc_workspaces := replace_first (\<lambda>w. ws_id w = workspace_id) w' (sc_workspaces c) \<rparr>,
              w'))))"

definition rename_workspace ::
  "catalog_env \<Rightarrow> string \<Rightarrow> utext \<Rightarrow> disk \<Rightarrow> SessionManager
    \<Rightarrow> disk \<times> SessionManager \<times> WorkspaceInfo result" where
  "rename_workspace env workspace_id name d sm =
    (case and_then (validate_uuid (ce_parse_uuid env) workspace_id)
        (\<lambda>_. validate_workspace_name name) of
      Inl e \<Rightarrow> (d, sm, Inl e)
    | Inr name \<Rightarrow> update_catalog env (rename_in_catalog workspace_id name) d sm)"

definition remove_from_catalog :: "string \<Rightarrow> SessionCatalog \<Rightarrow> (SessionCatalog \<times> unit) result" where
  "remove_from_catalog workspace_id c =
    (if sc_default_workspace_id c = workspace_id then bail ''cannot delete the default workspace''
     else
       let original = length (sc_workspaces c);
           kept = filter (\<lambda>w. ws_id w \<noteq> workspace_id) (sc_workspaces c)
       in if length kept + 1 \<noteq> original then bail ''workspace does not exist''
          else Inr (c \<lparr> sc_workspaces := kept \<rparr>, ()))"

definition delete_workspace ::
  "catalog_env \<Rightarrow> string \<Rightarrow> disk \<Rightarrow> SessionManager \<Rightarrow> disk \<times> SessionManager \<times> unit result" where
  "delete_workspace env workspace_id d sm =
    (case validate_uuid (ce_parse_uuid env) workspace_id of
      Inl e \<Rightarrow> (d, sm, Inl e)
    | Inr _ \<Rightarrow>
        if list_in_workspace (sm_terminals sm) workspace_id True \<noteq> [] then
          (d, sm, bail ''workspace is not empty'')
        else update_catalog env (remove_from_catalog workspace_id) d sm)"

definition find_workspace ::
  "(string \<Rightarrow> string option) \<Rightarrow> SessionManager \<Rightarrow> string \<Rightarrow> WorkspaceInfo result" where
  "find_workspace parse_uuid sm workspace_id =
    and_then (validate_uuid parse_uuid workspace_id) (\<lambda>_.
      ok_or ''workspace does not exist''
        (find (\<lambda>w. ws_id w = workspace_id) (sc_workspaces (sm_catalog sm))))"

section \<open>Terminals of a session\<close>

definition list_terminals ::
  "(string \<Rightarrow> string option) \<Rightarrow> SessionManager \<Rightarrow> string \<Rightarrow> bool \<Rightarrow> TerminalInfo list result" where
  "list_terminals parse_uuid sm workspace_id include_exited =
    and_then (find_workspace parse_uuid sm workspace_id) (\<lambda>_.
      Inr (list_in_workspace (sm_terminals sm) workspace_id include_exited))"

text \<open>The first half of \<^verbatim>\<open>spawn\<close>: the workspace the terminal goes to.\<close>

definition resolve_workspace ::
  "(string \<Rightarrow> string option) \<Rightarrow> SessionManager \<Rightarrow> SpawnRequest \<Rightarrow> bool \<Rightarrow> SpawnRequest result" where
  "resolve_workspace parse_uuid sm request formal =
    (if formal then
       and_then (find_workspace parse_uuid sm (sr_workspace_id request)) (\<lambda>_. Inr request)
     else if sr_workspace_id request = [] then
       Inr (request \<lparr> sr_workspace_id := default_workspace_id sm \<rparr>)
     else and_then (find_workspace parse_uuid sm (sr_workspace_id request)) (\<lambda>_. Inr request))"

definition SessionManager_spawn ::
  "(string \<Rightarrow> string option) \<Rightarrow> host \<Rightarrow> string \<Rightarrow> pool_store \<Rightarrow> SessionManager \<Rightarrow> SpawnRequest \<Rightarrow> bool
    \<Rightarrow> (pool_store \<times> SessionManager \<times> (TerminalEntry \<times> CommandBuilder) result) option" where
  "SessionManager_spawn parse_uuid h tid store sm request formal =
    (case resolve_workspace parse_uuid sm request formal of
      Inl e \<Rightarrow> Some (store, sm, Inl e)
    | Inr request \<Rightarrow>
        map_option (\<lambda>(store', tm', r). (store', sm \<lparr> sm_terminals := tm' \<rparr>, r))
          (TerminalManager_spawn h tid store (sm_terminals sm) request))"

definition get_terminal ::
  "(string \<Rightarrow> string option) \<Rightarrow> SessionManager \<Rightarrow> string \<Rightarrow> string \<Rightarrow> bool
    \<Rightarrow> TerminalEntry option result" where
  "get_terminal parse_uuid sm workspace_id selector formal =
    (let terminal = TerminalManager_get (sm_terminals sm) selector
     in if \<not> formal then Inr terminal
        else and_then (validate_uuid parse_uuid selector) (\<lambda>_.
          and_then (find_workspace parse_uuid sm workspace_id) (\<lambda>_.
            Inr (case terminal of
                None \<Rightarrow> None
              | Some t \<Rightarrow> if ti_workspace_id (Terminal_info t) = workspace_id then Some t else None))))"

section \<open>Attachments\<close>

definition register_attachment ::
  "(string \<Rightarrow> string option) \<Rightarrow> string \<Rightarrow> u64 result \<Rightarrow> pool_store \<Rightarrow> SessionManager \<Rightarrow> string
    \<Rightarrow> TerminalInfo \<Rightarrow> bool \<Rightarrow> (pool_store \<times> SessionManager \<times> ActiveAttachment result) option" where
  "register_attachment parse_uuid new_id now store sm connection_id terminal read_only =
    (case and_then (validate_uuid parse_uuid connection_id)
        (\<lambda>_. find_workspace parse_uuid sm (ti_workspace_id terminal)) of
      Inl e \<Rightarrow> Some (store, sm, Inl e)
    | Inr _ \<Rightarrow>
        (case ResourceAccount_reserve store (sm_resources sm) ResourceClaim_attachment of
          None \<Rightarrow> None
        | Some (store', Inl quota) \<Rightarrow>
            Some (store', sm, bail ''{scope} {resource} quota exceeded'')
        | Some (store', Inr resources) \<Rightarrow>
            (case now of
              Inl e \<Rightarrow> map_option (\<lambda>s. (s, sm, Inl e)) (drop_reservations store' resources)
            | Inr t \<Rightarrow>
                let info = \<lparr> ai_id = new_id, ai_connection_id = connection_id,
                  ai_workspace_id = ti_workspace_id terminal, ai_terminal_id = ti_id terminal,
                  ai_role = AttachmentRole_i32 (if read_only then Viewer else Controller),
                  ai_state = AttachmentState_i32 Subscribing, ai_created_at_unix_ms = t \<rparr>
                in Some (store',
                     sm \<lparr> sm_attachments := bt_insert new_id info (sm_attachments sm) \<rparr>,
                     Inr \<lparr> aa_info = info, aa_resources = resources \<rparr>))))"

definition list_attachments ::
  "(string \<Rightarrow> string option) \<Rightarrow> SessionManager \<Rightarrow> string \<Rightarrow> string \<Rightarrow> AttachmentInfo list result" where
  "list_attachments parse_uuid sm workspace_id terminal_id =
    and_then (find_workspace parse_uuid sm workspace_id) (\<lambda>_.
    and_then (if terminal_id = [] then Inr ()
      else and_then (validate_uuid parse_uuid terminal_id) (\<lambda>_.
        and_then (ok_or ''terminal does not exist''
            (TerminalManager_get (sm_terminals sm) terminal_id)) (\<lambda>t.
          if ti_workspace_id (Terminal_info t) = workspace_id then Inr ()
          else bail ''terminal does not belong to workspace''))) (\<lambda>_.
      Inr (sort_key (\<lambda>a. (ai_created_at_unix_ms a, ai_id a))
        (filter (\<lambda>a. ai_workspace_id a = workspace_id
            \<and> (terminal_id = [] \<or> ai_terminal_id a = terminal_id))
          (map snd (sm_attachments sm))))))"

definition attachment_transition :: "AttachmentState \<Rightarrow> AttachmentState \<Rightarrow> bool" where
  "attachment_transition current state \<longleftrightarrow>
    (current, state) \<in> {(Subscribing, Snapshotting), (Snapshotting, Live), (Live, Snapshotting)}"

definition set_attachment_state ::
  "SessionManager \<Rightarrow> string \<Rightarrow> AttachmentState \<Rightarrow> SessionManager result" where
  "set_attachment_state sm attachment_id state =
    and_then (ok_or ''attachment is no longer active'' (bt_get (sm_attachments sm) attachment_id)) (\<lambda>a.
    and_then (ok_or ''attachment has invalid state'' (AttachmentState_try_from (ai_state a))) (\<lambda>current.
      if attachment_transition current state then
        Inr (sm \<lparr> sm_attachments := bt_insert attachment_id
          (a \<lparr> ai_state := AttachmentState_i32 state \<rparr>) (sm_attachments sm) \<rparr>)
      else bail ''invalid attachment state transition''))"

definition set_attachment_role ::
  "SessionManager \<Rightarrow> string \<Rightarrow> AttachmentRole \<Rightarrow> SessionManager result" where
  "set_attachment_role sm attachment_id role =
    and_then (ok_or ''attachment is no longer active'' (bt_get (sm_attachments sm) attachment_id)) (\<lambda>a.
      Inr (sm \<lparr> sm_attachments := bt_insert attachment_id
        (a \<lparr> ai_role := AttachmentRole_i32 role \<rparr>) (sm_attachments sm) \<rparr>))"

definition ActiveAttachment_set_state ::
  "SessionManager \<Rightarrow> ActiveAttachment \<Rightarrow> AttachmentState \<Rightarrow> (SessionManager \<times> ActiveAttachment) result" where
  "ActiveAttachment_set_state sm a state =
    and_then (set_attachment_state sm (ai_id (aa_info a)) state) (\<lambda>sm'.
      Inr (sm', a \<lparr> aa_info := (aa_info a) \<lparr> ai_state := AttachmentState_i32 state \<rparr> \<rparr>))"

definition ActiveAttachment_set_role ::
  "SessionManager \<Rightarrow> ActiveAttachment \<Rightarrow> AttachmentRole \<Rightarrow> (SessionManager \<times> ActiveAttachment) result" where
  "ActiveAttachment_set_role sm a role =
    and_then (set_attachment_role sm (ai_id (aa_info a)) role) (\<lambda>sm'.
      Inr (sm', a \<lparr> aa_info := (aa_info a) \<lparr> ai_role := AttachmentRole_i32 role \<rparr> \<rparr>))"

text \<open>Dropping the handle: the entry goes, then the reservation is given back.\<close>

definition ActiveAttachment_drop ::
  "pool_store \<Rightarrow> SessionManager \<Rightarrow> ActiveAttachment \<Rightarrow> (pool_store \<times> SessionManager) option" where
  "ActiveAttachment_drop store sm a =
    map_option (\<lambda>store'. (store',
        sm \<lparr> sm_attachments := bt_remove (ai_id (aa_info a)) (sm_attachments sm) \<rparr>))
      (drop_reservations store (aa_resources a))"

section \<open>What a validated catalog is\<close>

definition name_ok :: "utext \<Rightarrow> bool" where
  "name_ok n \<longleftrightarrow> validate_workspace_name n = Inr n"

definition workspace_ok :: "(string \<Rightarrow> string option) \<Rightarrow> string \<Rightarrow> WorkspaceInfo \<Rightarrow> bool" where
  "workspace_ok parse_uuid default_id w \<longleftrightarrow> parse_uuid (ws_id w) = Some (ws_id w)
    \<and> name_ok (ws_name w) \<and> 0 < ws_revision w \<and> (ws_is_default w \<longrightarrow> ws_id w = default_id)"

definition catalog_ok :: "(string \<Rightarrow> string option) \<Rightarrow> SessionCatalog \<Rightarrow> bool" where
  "catalog_ok parse_uuid c \<longleftrightarrow> sc_schema_version c = SESSION_CATALOG_SCHEMA_VERSION
    \<and> parse_uuid (sc_default_workspace_id c) = Some (sc_default_workspace_id c)
    \<and> list_all (workspace_ok parse_uuid (sc_default_workspace_id c)) (sc_workspaces c)
    \<and> distinct (map ws_id (sc_workspaces c)) \<and> distinct (map ws_name (sc_workspaces c))
    \<and> length (filter ws_is_default (sc_workspaces c)) = 1"

lemma validate_uuid_Inr [result_simps]:
  "validate_uuid parse_uuid v = Inr u \<longleftrightarrow> parse_uuid v = Some v"
  by (auto simp: validate_uuid_def result_simps)

lemma validate_workspace_name_Inr:
  assumes "validate_workspace_name n = Inr m"
  shows "m = trim_text n" "name_ok m"
  using assms by (auto simp: validate_workspace_name_def name_ok_def Let_def split: if_splits)

lemma name_ok_validate: "name_ok n \<Longrightarrow> validate_workspace_name n = Inr n"
  by (simp add: name_ok_def)

lemma validate_workspaces_step:
  "validate_workspaces p did (w # ws) ids names n = Inr m \<longleftrightarrow>
    workspace_ok p did w \<and> ws_id w \<notin> set ids \<and> ws_name w \<notin> set names \<and>
    validate_workspaces p did ws (ws_id w # ids) (ws_name w # names)
      (n + (if ws_is_default w then 1 else 0)) = Inr m"
proof -
  have "validate_workspace_name (ws_name w) = Inr x \<and> x = ws_name w \<longleftrightarrow>
      name_ok (ws_name w) \<and> x = ws_name w" for x
    by (auto simp: name_ok_def)
  then show ?thesis
    by (auto simp: workspace_ok_def result_simps name_ok_def split: if_splits)
qed

lemma validate_workspaces_Inr:
  "validate_workspaces p did ws ids names n = Inr m \<longleftrightarrow>
    list_all (workspace_ok p did) ws \<and> distinct (map ws_id ws) \<and> distinct (map ws_name ws)
    \<and> ws_id ` set ws \<inter> set ids = {} \<and> ws_name ` set ws \<inter> set names = {}
    \<and> m = n + length (filter ws_is_default ws)"
proof (induction ws arbitrary: ids names n)
  case Nil
  show ?case by auto
next
  case (Cons w ws)
  show ?case unfolding validate_workspaces_step Cons.IH by auto
qed

lemma validate_catalog_Inr [result_simps]: "validate_catalog p c = Inr u \<longleftrightarrow> catalog_ok p c"
  unfolding validate_catalog_def catalog_ok_def
  by (auto simp: result_simps validate_workspaces_Inr split: if_splits)

section \<open>Workspaces as a directory\<close>

text \<open>What a client of the workspaces sees: which identifiers exist, with their name and
  revision. The abstract operations say when each of the three updates is possible and
  what it does.\<close>

type_synonym workspace_view = "string \<rightharpoonup> utext \<times> u64"

definition workspace_view :: "SessionCatalog \<Rightarrow> workspace_view" where
  "workspace_view c = map_of (map (\<lambda>w. (ws_id w, (ws_name w, ws_revision w))) (sc_workspaces c))"

definition name_taken :: "workspace_view \<Rightarrow> string \<Rightarrow> utext \<Rightarrow> bool" where
  "name_taken v except name \<longleftrightarrow> (\<exists>i r. i \<noteq> except \<and> v i = Some (name, r))"

datatype workspace_op =
    CreateWorkspace string "u64 result" utext
  | RenameWorkspace string utext
  | DeleteWorkspace string

fun workspace_spec ::
  "(string \<Rightarrow> string option) \<Rightarrow> string \<Rightarrow> (string \<Rightarrow> bool) \<Rightarrow> workspace_op \<Rightarrow> workspace_view
    \<Rightarrow> workspace_view option" where
  "workspace_spec p did busy (CreateWorkspace new_id now name) v =
    (case (validate_workspace_name name, now) of
      (Inr n, Inr t) \<Rightarrow> if name_taken v new_id n then None else Some (v(new_id \<mapsto> (n, 1)))
    | _ \<Rightarrow> None)"
| "workspace_spec p did busy (RenameWorkspace i name) v =
    (case (validate_workspace_name name, v i) of
      (Inr n, Some (old, r)) \<Rightarrow>
        if p i \<noteq> Some i \<or> name_taken v i n then None
        else map_option (\<lambda>r'. v(i \<mapsto> (n, r'))) (checked_add r 1)
    | _ \<Rightarrow> None)"
| "workspace_spec p did busy (DeleteWorkspace i) v =
    (if p i \<noteq> Some i \<or> busy i \<or> i = did \<or> v i = None then None else Some (v(i := None)))"

text \<open>The operation the session carries out, with its success as a boolean.\<close>

fun workspace_exec ::
  "catalog_env \<Rightarrow> workspace_op \<Rightarrow> disk \<Rightarrow> SessionManager \<Rightarrow> disk \<times> SessionManager \<times> bool" where
  "workspace_exec env (CreateWorkspace new_id now name) d sm =
    (let (d', sm', r) = create_workspace env new_id now name d sm in (d', sm', is_ok r))"
| "workspace_exec env (RenameWorkspace i name) d sm =
    (let (d', sm', r) = rename_workspace env i name d sm in (d', sm', is_ok r))"
| "workspace_exec env (DeleteWorkspace i) d sm =
    (let (d', sm', r) = delete_workspace env i d sm in (d', sm', is_ok r))"

definition fresh_for :: "(string \<Rightarrow> string option) \<Rightarrow> workspace_op \<Rightarrow> workspace_view \<Rightarrow> bool" where
  "fresh_for p op v \<longleftrightarrow>
    (case op of CreateWorkspace new_id _ _ \<Rightarrow> p new_id = Some new_id \<and> v new_id = None | _ \<Rightarrow> True)"

definition busy_workspace :: "SessionManager \<Rightarrow> string \<Rightarrow> bool" where
  "busy_workspace sm i \<longleftrightarrow> list_in_workspace (sm_terminals sm) i True \<noteq> []"

lemma view_Some:
  assumes "distinct (map ws_id (sc_workspaces c))"
  shows "workspace_view c i = Some (n, r) \<longleftrightarrow>
    (\<exists>w \<in> set (sc_workspaces c). ws_id w = i \<and> ws_name w = n \<and> ws_revision w = r)"
proof -
  have "distinct (map fst (map (\<lambda>w. (ws_id w, (ws_name w, ws_revision w))) (sc_workspaces c)))"
    using assms by (simp add: comp_def)
  then show ?thesis unfolding workspace_view_def by (subst map_of_eq_Some_iff) auto
qed

lemma view_None: "workspace_view c i = None \<longleftrightarrow> i \<notin> ws_id ` set (sc_workspaces c)"
  by (auto simp: workspace_view_def map_of_eq_None_iff image_image)

lemma list_ex_name:
  assumes "distinct (map ws_id (sc_workspaces c))"
  shows "list_ex (\<lambda>w. ws_id w \<noteq> i \<and> ws_name w = n) (sc_workspaces c)
    \<longleftrightarrow> name_taken (workspace_view c) i n"
  unfolding name_taken_def view_Some [OF assms] list_ex_iff by blast

text \<open>The storage accepts a catalog: it is small enough and every call succeeds.\<close>

definition persistable :: "catalog_env \<Rightarrow> path \<Rightarrow> SessionCatalog \<Rightarrow> bool" where
  "persistable env path c \<longleftrightarrow> length (encode_catalog (ce_codec env) c) \<le> MAX_SESSION_CATALOG_BYTES
    \<and> path_parent path \<noteq> None
    \<and> list_all (\<lambda>call. is_ok (ce_io env call))
        [''create_dir_all'', ''open'', ''write_all'', ''sync_all'', ''rename'', ''sync parent'']"

lemma write_and_rename_catalog:
  "disk_catalog (fst (write_and_rename io temporary encoded d)) \<in> {disk_catalog d, Some encoded}"
  by (auto simp: write_and_rename_def Let_def split: sum.split)

lemma write_and_rename_ok:
  "is_ok (snd (write_and_rename io temporary encoded d)) \<longleftrightarrow> list_all (\<lambda>call. is_ok (io call))
      [''open'', ''write_all'', ''sync_all'', ''rename'', ''sync parent'']"
  by (cases "io ''open''"; cases "io ''write_all''"; cases "io ''sync_all''"; cases "io ''rename''")
    (simp_all add: write_and_rename_def)

lemma write_and_rename_written:
  "is_ok (snd (write_and_rename io temporary encoded d)) \<Longrightarrow>
    disk_catalog (fst (write_and_rename io temporary encoded d)) = Some encoded"
  by (cases "io ''open''"; cases "io ''write_all''"; cases "io ''sync_all''"; cases "io ''rename''")
    (simp_all add: write_and_rename_def)

lemma is_ok_with_context [simp]: "is_ok (with_context m r) = is_ok r"
  by (cases r) auto

lemma disk_catalog_remove_temporary [simp]:
  "disk_catalog (remove_temporary io temporary d) = disk_catalog d"
  by (simp add: remove_temporary_def split: sum.split)

lemma persist_catalog_facts:
  assumes "persist_catalog (ce_parse_uuid env) (ce_codec env) (ce_io env) (ce_temporary env) path c d
      = (d', r)" and "catalog_ok (ce_parse_uuid env) c"
  shows "is_ok r \<longleftrightarrow> persistable env path c"
    and "is_ok r \<Longrightarrow> disk_catalog d' = Some (encode_catalog (ce_codec env) c)"
    and "disk_catalog d' = disk_catalog d \<or>
      disk_catalog d' = Some (encode_catalog (ce_codec env) c)
        \<and> length (encode_catalog (ce_codec env) c) \<le> MAX_SESSION_CATALOG_BYTES"
proof -
  let ?e = "encode_catalog (ce_codec env) c"
  obtain d1 r1 where w: "write_and_rename (ce_io env) (ce_temporary env) ?e d = (d1, r1)" by fastforce
  have v: "validate_catalog (ce_parse_uuid env) c = Inr ()" using assms(2) by (simp add: result_simps)
  note f = write_and_rename_catalog [of "ce_io env" "ce_temporary env" ?e d, unfolded w]
    write_and_rename_ok [of "ce_io env" "ce_temporary env" ?e d, unfolded w]
    write_and_rename_written [of "ce_io env" "ce_temporary env" ?e d, unfolded w]
  let ?P = "persist_catalog (ce_parse_uuid env) (ce_codec env) (ce_io env) (ce_temporary env) path c d"
  have out: "d' = fst ?P" "r = snd ?P" using assms(1) by simp_all
  note unf = persist_catalog_def v sum.case Let_def w prod.case
  show "is_ok r \<longleftrightarrow> persistable env path c"
    unfolding out unf persistable_def using f(2)
    by (auto simp: bail_def split: option.split sum.split)
  show "is_ok r \<Longrightarrow> disk_catalog d' = Some ?e"
    unfolding out unf using f(3)
    by (auto simp: bail_def split: option.splits sum.splits if_splits)
  show "disk_catalog d' = disk_catalog d \<or> disk_catalog d' = Some ?e
      \<and> length ?e \<le> MAX_SESSION_CATALOG_BYTES"
    unfolding out unf using f(1)
    by (auto split: option.split sum.split)
qed

text \<open>An update of the catalog that implements an abstract one. Whatever the update is,
  the session validates, persists and only then adopts its result.\<close>

definition refines_update ::
  "(string \<Rightarrow> string option) \<Rightarrow> (SessionCatalog \<Rightarrow> (SessionCatalog \<times> 'a) result) \<Rightarrow> SessionCatalog
    \<Rightarrow> workspace_view option \<Rightarrow> bool" where
  "refines_update p update c v \<longleftrightarrow>
    (case v of
      None \<Rightarrow> \<exists>e. update c = Inl e
    | Some v' \<Rightarrow> \<exists>c' x. update c = Inr (c', x) \<and> catalog_ok p c' \<and> workspace_view c' = v'
        \<and> sc_default_workspace_id c' = sc_default_workspace_id c)"

text \<open>What the directory as a whole promises for one operation.\<close>

definition refines_step ::
  "catalog_env \<Rightarrow> workspace_view option \<Rightarrow> disk \<Rightarrow> SessionManager \<Rightarrow> disk \<Rightarrow> SessionManager \<Rightarrow> bool \<Rightarrow> bool"
where
  "refines_step env v d sm d' sm' success \<longleftrightarrow>
    (case v of
      None \<Rightarrow> \<not> success \<and> sm' = sm \<and> d' = d
    | Some v' \<Rightarrow> \<exists>c'. workspace_view c' = v' \<and> catalog_ok (ce_parse_uuid env) c'
        \<and> sc_default_workspace_id c' = sc_default_workspace_id (sm_catalog sm)
        \<and> (if persistable env (sm_catalog_path sm) c'
           then success \<and> sm' = sm \<lparr> sm_catalog := c' \<rparr>
             \<and> disk_catalog d' = Some (encode_catalog (ce_codec env) c')
           else \<not> success \<and> sm' = sm
             \<and> (disk_catalog d' = disk_catalog d \<or>
                disk_catalog d' = Some (encode_catalog (ce_codec env) c')
                  \<and> length (encode_catalog (ce_codec env) c') \<le> MAX_SESSION_CATALOG_BYTES)))"

locale directory_update =
  fixes p :: "string \<Rightarrow> string option"
    and update :: "SessionCatalog \<Rightarrow> (SessionCatalog \<times> 'a) result"
    and spec :: "string \<Rightarrow> workspace_view \<Rightarrow> workspace_view option"
    and pre :: "workspace_view \<Rightarrow> bool"
  assumes update_refines: "catalog_ok p c \<Longrightarrow> pre (workspace_view c) \<Longrightarrow>
    refines_update p update c (spec (sc_default_workspace_id c) (workspace_view c))"
begin

lemma persisted_update:
  assumes "ce_parse_uuid env = p" "catalog_ok p (sm_catalog sm)" "pre (workspace_view (sm_catalog sm))"
    and "update_catalog env update d sm = (d', sm', r)"
  shows "refines_step env (spec (sc_default_workspace_id (sm_catalog sm))
    (workspace_view (sm_catalog sm))) d sm d' sm' (is_ok r)"
proof (cases "spec (sc_default_workspace_id (sm_catalog sm)) (workspace_view (sm_catalog sm))")
  case None
  then obtain e where "update (sm_catalog sm) = Inl e"
    using update_refines [OF assms(2,3)] by (auto simp: refines_update_def)
  then show ?thesis using assms(4) None by (auto simp: update_catalog_def refines_step_def)
next
  case (Some v')
  then obtain c' x where u: "update (sm_catalog sm) = Inr (c', x)" "catalog_ok p c'"
    "workspace_view c' = v'" "sc_default_workspace_id c' = sc_default_workspace_id (sm_catalog sm)"
    using update_refines [OF assms(2,3)] by (auto simp: refines_update_def)
  obtain d1 r1 where pc: "persist_catalog (ce_parse_uuid env) (ce_codec env) (ce_io env)
      (ce_temporary env) (sm_catalog_path sm) c' d = (d1, r1)" by fastforce
  have v: "validate_catalog (ce_parse_uuid env) c' = Inr ()" using u(2) assms(1) by (simp add: result_simps)
  have ok: "catalog_ok (ce_parse_uuid env) c'" using u(2) assms(1) by simp
  note f = persist_catalog_facts [OF pc ok]
  have out: "d' = d1" "is_ok r = is_ok r1" "sm' = (if is_ok r1 then sm \<lparr> sm_catalog := c' \<rparr> else sm)"
    using assms(4) by (cases r1; auto simp: update_catalog_def u(1) v pc)+
  have "if persistable env (sm_catalog_path sm) c'
      then is_ok r \<and> sm' = sm \<lparr> sm_catalog := c' \<rparr>
        \<and> disk_catalog d' = Some (encode_catalog (ce_codec env) c')
      else \<not> is_ok r \<and> sm' = sm \<and> (disk_catalog d' = disk_catalog d \<or>
        disk_catalog d' = Some (encode_catalog (ce_codec env) c')
          \<and> length (encode_catalog (ce_codec env) c') \<le> MAX_SESSION_CATALOG_BYTES)"
    using f unfolding out by (cases "is_ok r1") simp_all
  with u(3,4) ok show ?thesis unfolding refines_step_def Some option.case by blast
qed

end

subsection \<open>The three updates implement their specifications\<close>

definition create_spec :: "string \<Rightarrow> utext \<Rightarrow> workspace_view \<Rightarrow> workspace_view option" where
  "create_spec new_id n v = (if name_taken v new_id n then None else Some (v(new_id \<mapsto> (n, 1))))"

definition rename_spec :: "string \<Rightarrow> utext \<Rightarrow> workspace_view \<Rightarrow> workspace_view option" where
  "rename_spec i n v = (case v i of None \<Rightarrow> None
    | Some (old, r) \<Rightarrow> if name_taken v i n then None
        else map_option (\<lambda>r'. v(i \<mapsto> (n, r'))) (checked_add r 1))"

definition delete_spec :: "string \<Rightarrow> string \<Rightarrow> workspace_view \<Rightarrow> workspace_view option" where
  "delete_spec i did v = (if i = did \<or> v i = None then None else Some (v(i := None)))"

definition new_workspace :: "string \<Rightarrow> utext \<Rightarrow> u64 \<Rightarrow> WorkspaceInfo" where
  "new_workspace new_id n t = \<lparr> ws_id = new_id, ws_name = n, ws_revision = 1,
    ws_created_at_unix_ms = t, ws_is_default = False \<rparr>"

lemma catalog_okD:
  assumes "catalog_ok p c"
  shows "distinct (map ws_id (sc_workspaces c))" "distinct (map ws_name (sc_workspaces c))"
    and "w \<in> set (sc_workspaces c) \<Longrightarrow> workspace_ok p (sc_default_workspace_id c) w"
  using assms by (auto simp: catalog_ok_def list_all_iff)

lemma push_refines:
  assumes c: "catalog_ok p c" and new: "p new_id = Some new_id" "workspace_view c new_id = None"
    and n: "name_ok n"
  shows "refines_update p (push_workspace (new_workspace new_id n t)) c
    (create_spec new_id n (workspace_view c))"
proof -
  note d = catalog_okD [OF c]
  have new_id: "new_id \<notin> ws_id ` set (sc_workspaces c)" using new(2) by (simp add: view_None)
  have "list_ex (\<lambda>x. ws_name x = n) (sc_workspaces c)
      = list_ex (\<lambda>w. ws_id w \<noteq> new_id \<and> ws_name w = n) (sc_workspaces c)"
    using new_id by (auto simp: list_ex_iff)
  then have taken: "list_ex (\<lambda>x. ws_name x = n) (sc_workspaces c)
      \<longleftrightarrow> name_taken (workspace_view c) new_id n"
    by (simp add: list_ex_name [OF d(1)])
  show ?thesis
  proof (cases "name_taken (workspace_view c) new_id n")
    case True
    then show ?thesis
      by (simp add: refines_update_def push_workspace_def create_spec_def new_workspace_def taken bail_def)
  next
    case False
    let ?c = "c \<lparr> sc_workspaces := sc_workspaces c @ [new_workspace new_id n t] \<rparr>"
    have "n \<notin> ws_name ` set (sc_workspaces c)" using False taken by (auto simp: list_ex_iff)
    moreover have "workspace_ok p (sc_default_workspace_id c) (new_workspace new_id n t)"
      using new n by (simp add: workspace_ok_def new_workspace_def)
    ultimately have "catalog_ok p ?c"
      using c new_id by (simp add: catalog_ok_def new_workspace_def)
    moreover have "workspace_view ?c = (workspace_view c)(new_id \<mapsto> (n, 1))"
      using new(2) by (auto simp: workspace_view_def new_workspace_def map_add_def fun_eq_iff
          split: option.split)
    ultimately show ?thesis
      using False by (simp add: refines_update_def push_workspace_def create_spec_def taken new_workspace_def)
  qed
qed

lemma replace_first_map:
  assumes "distinct (map f xs)"
  shows "replace_first (\<lambda>x. f x = k) y xs = map (\<lambda>x. if f x = k then y else x) xs"
  using assms
proof (induction xs)
  case (Cons x xs)
  have "map (\<lambda>x. if f x = k then y else x) xs = xs" if "f x = k"
    using Cons.prems that by (intro map_idI) (auto simp: rev_image_eqI)
  then show ?case using Cons by auto
qed simp

lemma view_replaced:
  assumes "ws_id w' = i"
  shows "map_of (map (\<lambda>w. (ws_id w, (ws_name w, ws_revision w)))
      (map (\<lambda>w. if ws_id w = i then w' else w) ws))
    = (let m = map_of (map (\<lambda>w. (ws_id w, (ws_name w, ws_revision w))) ws)
       in if i \<in> ws_id ` set ws then m(i \<mapsto> (ws_name w', ws_revision w')) else m)"
  using assms by (induction ws) (auto simp: Let_def fun_eq_iff)

lemma distinct_replaced:
  assumes "distinct (map ws_name ws)" "distinct (map ws_id ws)" "ws_id w' = i"
    and "\<not> (\<exists>w \<in> set ws. ws_id w \<noteq> i \<and> ws_name w = ws_name w')"
  shows "distinct (map ws_name (map (\<lambda>w. if ws_id w = i then w' else w) ws))"
  using assms
proof (induction ws)
  case (Cons w ws)
  let ?r = "\<lambda>w. if ws_id w = i then w' else w"
  have IH: "distinct (map ws_name (map ?r ws))" using Cons by simp
  have "ws_name (?r w) \<notin> ws_name ` ?r ` set ws"
  proof
    assume "ws_name (?r w) \<in> ws_name ` ?r ` set ws"
    then obtain x where x: "x \<in> set ws" "ws_name (?r w) = ws_name (?r x)" by auto
    then have "ws_id w \<noteq> ws_id x" "ws_name w \<noteq> ws_name x" using Cons.prems(1,2) by auto
    then show False using x Cons.prems(3,4) by (auto split: if_splits)
  qed
  then have "ws_name (?r w) \<notin> set (map ws_name (map ?r ws))" by (simp only: list.set_map not_False_eq_True)
  then show ?case using IH by (simp only: list.map distinct.simps simp_thms)
qed simp

lemma rename_refines:
  assumes c: "catalog_ok p c" and n: "name_ok n"
  shows "refines_update p (rename_in_catalog i n) c (rename_spec i n (workspace_view c))"
proof -
  note d = catalog_okD [OF c]
  have taken: "list_ex (\<lambda>w. ws_id w \<noteq> i \<and> ws_name w = n) (sc_workspaces c)
      \<longleftrightarrow> name_taken (workspace_view c) i n" by (rule list_ex_name [OF d(1)])
  show ?thesis
  proof (cases "find (\<lambda>w. ws_id w = i) (sc_workspaces c)")
    case None
    then have "workspace_view c i = None" by (auto simp: view_None find_None_iff)
    then show ?thesis
      by (simp add: refines_update_def rename_spec_def rename_in_catalog_def None bail_def)
  next
    case (Some w)
    then have w: "w \<in> set (sc_workspaces c)" "ws_id w = i" by (auto simp: find_Some_iff)
    then have view: "workspace_view c i = Some (ws_name w, ws_revision w)"
      by (auto simp: view_Some [OF d(1)])
    show ?thesis
    proof (cases "name_taken (workspace_view c) i n \<or> checked_add (ws_revision w) 1 = None")
      case True
      then show ?thesis
        by (auto simp: refines_update_def rename_spec_def rename_in_catalog_def Some view taken bail_def)
    next
      case False
      then obtain r where r: "checked_add (ws_revision w) 1 = Some r" by auto
      define w' where "w' = w \<lparr> ws_name := n, ws_revision := r \<rparr>"
      define ws where "ws = map (\<lambda>x. if ws_id x = i then w' else x) (sc_workspaces c)"
      have w': "ws_id w' = i" "ws_name w' = n" "ws_revision w' = r" "ws_is_default w' = ws_is_default w"
        by (simp_all add: w'_def w(2))
      have up: "rename_in_catalog i n c = Inr (c \<lparr> sc_workspaces := ws \<rparr>, w')"
        using False taken r
        by (simp add: rename_in_catalog_def Some Let_def ws_def w'_def replace_first_map [OF d(1)])
      have uniq: "x = w" if "x \<in> set (sc_workspaces c)" "ws_id x = i" for x
        using that w d(1) by (auto simp: distinct_map inj_on_def)
      have "0 < r" using r by (auto simp: checked_add_Some word_less_nat_alt)
      then have "workspace_ok p (sc_default_workspace_id c) w'"
        using d(3) [OF w(1)] n by (simp add: workspace_ok_def w' w(2))
      then have all: "list_all (workspace_ok p (sc_default_workspace_id c)) ws"
        using d(3) by (auto simp: ws_def list_all_iff)
      have ids: "map ws_id ws = map ws_id (sc_workspaces c)" by (auto simp: ws_def w')
      have defaults: "map ws_is_default ws = map ws_is_default (sc_workspaces c)"
        by (auto simp: ws_def w' dest: uniq)
      have names: "distinct (map ws_name ws)"
        unfolding ws_def using False taken d(1,2)
        by (intro distinct_replaced) (auto simp: w' list_ex_iff)
      have len: "length (filter P xs) = length (filter (\<lambda>b. b) (map P xs))"
        for P :: "WorkspaceInfo \<Rightarrow> bool" and xs
        by (simp add: filter_map comp_def)
      have "length (filter ws_is_default ws) = length (filter ws_is_default (sc_workspaces c))"
        by (subst (1 2) len) (simp only: defaults)
      then have "catalog_ok p (c \<lparr> sc_workspaces := ws \<rparr>)"
        using c all ids names by (simp add: catalog_ok_def)
      moreover have "workspace_view (c \<lparr> sc_workspaces := ws \<rparr>) = (workspace_view c)(i \<mapsto> (n, r))"
        using w unfolding workspace_view_def ws_def
        by (simp add: view_replaced [OF w'(1), simplified] Let_def w' rev_image_eqI)
      ultimately show ?thesis
        using False r by (simp add: refines_update_def rename_spec_def view up)
    qed
  qed
qed

lemma filter_one_out:
  assumes "distinct (map f xs)" "x \<in> set xs"
  shows "length (filter (\<lambda>y. f y \<noteq> f x) xs) + 1 = length xs"
  using assms
proof (induction xs)
  case (Cons y ys)
  show ?case
  proof (cases "y = x")
    case True
    then have "filter (\<lambda>z. f z \<noteq> f x) ys = ys" using Cons.prems(1)
      by (intro filter_True) (auto simp: rev_image_eqI)
    then show ?thesis using True by simp
  next
    case False
    then have "f y \<noteq> f x" using Cons.prems by auto
    then show ?thesis using Cons False by simp
  qed
qed simp

lemma view_filtered:
  "map_of (map (\<lambda>w. (ws_id w, (ws_name w, ws_revision w))) (filter (\<lambda>w. ws_id w \<noteq> i) ws))
    = (map_of (map (\<lambda>w. (ws_id w, (ws_name w, ws_revision w))) ws))(i := None)"
  by (induction ws) (auto simp: fun_eq_iff)

lemma delete_refines:
  assumes c: "catalog_ok p c"
  shows "refines_update p (remove_from_catalog i) c
    (delete_spec i (sc_default_workspace_id c) (workspace_view c))"
proof -
  note d = catalog_okD [OF c]
  let ?kept = "filter (\<lambda>w. ws_id w \<noteq> i) (sc_workspaces c)"
  show ?thesis
  proof (cases "sc_default_workspace_id c = i \<or> workspace_view c i = None")
    case True
    have "length ?kept + 1 \<noteq> length (sc_workspaces c)" if "workspace_view c i = None"
    proof -
      have "?kept = sc_workspaces c" using that by (intro filter_True) (auto simp: view_None)
      then show ?thesis by simp
    qed
    with True have "\<exists>e. remove_from_catalog i c = Inl e"
      by (auto simp: remove_from_catalog_def bail_def Let_def)
    moreover have "delete_spec i (sc_default_workspace_id c) (workspace_view c) = None"
      using True by (auto simp: delete_spec_def)
    ultimately show ?thesis by (simp add: refines_update_def)
  next
    case False
    then obtain w where w: "w \<in> set (sc_workspaces c)" "ws_id w = i" by (auto simp: view_None)
    have len: "length ?kept + 1 = length (sc_workspaces c)"
      using filter_one_out [OF d(1) w(1)] by (simp add: w(2))
    have keep: "filter ws_is_default ?kept = filter ws_is_default (sc_workspaces c)"
      using False d(3) by (auto simp: workspace_ok_def intro: filter_cong)
    have "catalog_ok p (c \<lparr> sc_workspaces := ?kept \<rparr>)"
      using c keep
      by (auto simp: catalog_ok_def distinct_map_filter list_all_iff)
    moreover have "workspace_view (c \<lparr> sc_workspaces := ?kept \<rparr>) = (workspace_view c)(i := None)"
      by (simp add: workspace_view_def view_filtered)
    moreover have "remove_from_catalog i c = Inr (c \<lparr> sc_workspaces := ?kept \<rparr>, ())"
      using False len by (simp add: remove_from_catalog_def Let_def)
    ultimately show ?thesis using False by (auto simp: refines_update_def delete_spec_def)
  qed
qed

interpretation created: directory_update p "push_workspace (new_workspace new_id n t)"
  "\<lambda>_. create_spec new_id n" "\<lambda>v. p new_id = Some new_id \<and> v new_id = None \<and> name_ok n"
  for p new_id n t
  by unfold_locales (simp add: push_refines)

interpretation renamed: directory_update p "rename_in_catalog i n" "\<lambda>_. rename_spec i n"
  "\<lambda>_. name_ok n"
  for p i n
  by unfold_locales (simp add: rename_refines)

interpretation deleted: directory_update p "remove_from_catalog i" "delete_spec i" "\<lambda>_. True"
  for p i
  by unfold_locales (rule delete_refines)

lemma refines_step_refused: "refines_step env None d sm d sm False"
  by (simp add: refines_step_def)

lemma create_refines:
  assumes "catalog_ok (ce_parse_uuid env) (sm_catalog sm)"
    and "fresh_for (ce_parse_uuid env) (CreateWorkspace new_id now name) (workspace_view (sm_catalog sm))"
    and "workspace_exec env (CreateWorkspace new_id now name) d sm = (d', sm', success)"
  shows "refines_step env (workspace_spec (ce_parse_uuid env) (default_workspace_id sm)
    (busy_workspace sm) (CreateWorkspace new_id now name) (workspace_view (sm_catalog sm)))
    d sm d' sm' success"
proof (cases "validate_workspace_name name")
  case (Inl e)
  then show ?thesis using assms(3) by (simp add: create_workspace_def refines_step_refused)
next
  case (Inr n)
  note n = validate_workspace_name_Inr [OF Inr]
  show ?thesis
  proof (cases now)
    case (Inl e)
    then show ?thesis using assms(3) Inr by (simp add: create_workspace_def refines_step_refused)
  next
    case now: (Inr t)
    obtain d1 sm1 r1 where u: "update_catalog env (push_workspace (new_workspace new_id n t)) d sm
        = (d1, sm1, r1)" by (metis prod_cases3)
    then have "(d', sm', success) = (d1, sm1, is_ok r1)"
      using assms(3) by (simp add: create_workspace_def Inr now new_workspace_def)
    moreover have "refines_step env (create_spec new_id n (workspace_view (sm_catalog sm)))
        d sm d1 sm1 (is_ok r1)"
      by (rule created.persisted_update [OF refl assms(1) _ u])
        (use assms(2) n in \<open>simp add: fresh_for_def\<close>)
    ultimately show ?thesis by (simp add: Inr now create_spec_def)
  qed
qed

lemma rename_workspace_refines:
  assumes "catalog_ok (ce_parse_uuid env) (sm_catalog sm)"
    and "workspace_exec env (RenameWorkspace i name) d sm = (d', sm', success)"
  shows "refines_step env (workspace_spec (ce_parse_uuid env) (default_workspace_id sm)
    (busy_workspace sm) (RenameWorkspace i name) (workspace_view (sm_catalog sm)))
    d sm d' sm' success"
proof (cases "and_then (validate_uuid (ce_parse_uuid env) i) (\<lambda>_. validate_workspace_name name)")
  case (Inl e)
  then have "workspace_spec (ce_parse_uuid env) (default_workspace_id sm) (busy_workspace sm)
      (RenameWorkspace i name) (workspace_view (sm_catalog sm)) = None"
    by (cases "ce_parse_uuid env i = Some i")
      (auto simp: validate_uuid_def split: sum.splits option.splits)
  moreover have "d' = d" "sm' = sm" "success = False"
    using assms(2) Inl by (auto simp: rename_workspace_def)
  ultimately show ?thesis by (simp only: refines_step_refused)
next
  case (Inr n)
  then have i: "ce_parse_uuid env i = Some i" and n: "validate_workspace_name name = Inr n" "name_ok n"
    by (auto simp: result_simps dest: validate_workspace_name_Inr(2))
  obtain d1 sm1 r1 where u: "update_catalog env (rename_in_catalog i n) d sm = (d1, sm1, r1)"
    by (metis prod_cases3)
  then have "(d', sm', success) = (d1, sm1, is_ok r1)"
    using assms(2) by (simp add: rename_workspace_def Inr)
  moreover have "refines_step env (rename_spec i n (workspace_view (sm_catalog sm)))
      d sm d1 sm1 (is_ok r1)"
    by (rule renamed.persisted_update [OF refl assms(1) n(2) u])
  moreover have "workspace_spec (ce_parse_uuid env) (default_workspace_id sm) (busy_workspace sm)
      (RenameWorkspace i name) (workspace_view (sm_catalog sm))
    = rename_spec i n (workspace_view (sm_catalog sm))"
    using i n by (simp add: rename_spec_def split: option.split)
  ultimately show ?thesis by (simp only: prod.inject)
qed

lemma delete_workspace_refines:
  assumes "catalog_ok (ce_parse_uuid env) (sm_catalog sm)"
    and "workspace_exec env (DeleteWorkspace i) d sm = (d', sm', success)"
  shows "refines_step env (workspace_spec (ce_parse_uuid env) (default_workspace_id sm)
    (busy_workspace sm) (DeleteWorkspace i) (workspace_view (sm_catalog sm))) d sm d' sm' success"
proof (cases "validate_uuid (ce_parse_uuid env) i")
  case (Inl e)
  then have "ce_parse_uuid env i \<noteq> Some i" by (auto simp: validate_uuid_def)
  then show ?thesis using assms(2) Inl by (simp add: delete_workspace_def refines_step_refused)
next
  case (Inr u)
  then have i: "ce_parse_uuid env i = Some i" by (simp add: result_simps)
  show ?thesis
  proof (cases "busy_workspace sm i")
    case True
    then show ?thesis
      using assms(2) Inr by (simp add: delete_workspace_def refines_step_refused busy_workspace_def bail_def)
  next
    case False
    obtain d1 sm1 r1 where u: "update_catalog env (remove_from_catalog i) d sm = (d1, sm1, r1)"
      by (metis prod_cases3)
    then have "(d', sm', success) = (d1, sm1, is_ok r1)"
      using assms(2) False by (simp add: delete_workspace_def Inr busy_workspace_def)
    moreover have "refines_step env (delete_spec i (sc_default_workspace_id (sm_catalog sm))
        (workspace_view (sm_catalog sm))) d sm d1 sm1 (is_ok r1)"
      by (rule deleted.persisted_update [OF refl assms(1) TrueI u])
    ultimately show ?thesis
      using i False by (simp add: delete_spec_def default_workspace_id_def)
  qed
qed

lemma workspace_step_refines:
  assumes "catalog_ok (ce_parse_uuid env) (sm_catalog sm)"
    and "fresh_for (ce_parse_uuid env) op (workspace_view (sm_catalog sm))"
    and "workspace_exec env op d sm = (d', sm', success)"
  shows "refines_step env (workspace_spec (ce_parse_uuid env) (default_workspace_id sm)
    (busy_workspace sm) op (workspace_view (sm_catalog sm))) d sm d' sm' success"
proof (cases op)
  case (CreateWorkspace new_id now name)
  then show ?thesis using create_refines assms by blast
next
  case (RenameWorkspace i name)
  then show ?thesis using rename_workspace_refines assms by blast
next
  case (DeleteWorkspace i)
  then show ?thesis using delete_workspace_refines assms by blast
qed

text \<open>C27. The workspaces implement a directory. Seen as a map from identifiers to names
  and revisions, creating, renaming and deleting a workspace do what the abstract
  operation does: when it is not possible (a bad name, a name another workspace has, an
  unknown identifier, an exhausted revision, the default workspace, one that still holds
  terminals) nothing changes, in memory or on disk; when it is possible and the storage
  accepts the new catalog, memory and disk hold exactly that catalog, which is valid and
  has the same default workspace; when the storage fails, memory keeps the old catalog
  and the file holds the old or the new one, never anything else.\<close>

theorem workspaces_refine:
  assumes "catalog_ok (ce_parse_uuid env) (sm_catalog sm)"
    and "fresh_for (ce_parse_uuid env) op (workspace_view (sm_catalog sm))"
    and "workspace_exec env op d sm = (d', sm', success)"
  shows "case workspace_spec (ce_parse_uuid env) (default_workspace_id sm) (busy_workspace sm) op
      (workspace_view (sm_catalog sm)) of
      None \<Rightarrow> \<not> success \<and> sm' = sm \<and> d' = d
    | Some v \<Rightarrow> \<exists>c. workspace_view c = v \<and> catalog_ok (ce_parse_uuid env) c
        \<and> sc_default_workspace_id c = default_workspace_id sm
        \<and> (if persistable env (sm_catalog_path sm) c
           then success \<and> sm' = sm \<lparr> sm_catalog := c \<rparr>
             \<and> disk_catalog d' = Some (encode_catalog (ce_codec env) c)
           else \<not> success \<and> sm' = sm
             \<and> (disk_catalog d' = disk_catalog d \<or>
                disk_catalog d' = Some (encode_catalog (ce_codec env) c)
                  \<and> length (encode_catalog (ce_codec env) c) \<le> MAX_SESSION_CATALOG_BYTES))"
  using workspace_step_refines [OF assms] unfolding refines_step_def default_workspace_id_def .

section \<open>A session over time\<close>

text \<open>A running server: the disk, the quota pools, the manager, and the handles of the
  attachments that are alive. Every step is one operation, carried out as a whole; a
  restart boots a new manager on the disk a former one left.\<close>

record session_state =
  ss_disk :: disk
  ss_store :: pool_store
  ss_manager :: SessionManager
  ss_handles :: "(string, ActiveAttachment) btree"

inductive session_reachable ::
  "(string \<Rightarrow> string option) \<Rightarrow> catalog_codec \<Rightarrow> session_state \<Rightarrow> bool"
  for p :: "string \<Rightarrow> string option" and codec :: catalog_codec where
  boot: "SessionManager_with_resources p codec io h temporary new_id now root path account policy d
      = (d', Inr sm) \<Longrightarrow>
    session_reachable p codec \<lparr> ss_disk = d', ss_store = store, ss_manager = sm, ss_handles = [] \<rparr>"
| workspace: "session_reachable p codec s \<Longrightarrow> ce_parse_uuid env = p \<Longrightarrow> ce_codec env = codec \<Longrightarrow>
    fresh_for p op (workspace_view (sm_catalog (ss_manager s))) \<Longrightarrow>
    workspace_exec env op (ss_disk s) (ss_manager s) = (d', sm', success) \<Longrightarrow>
    session_reachable p codec (s \<lparr> ss_disk := d', ss_manager := sm' \<rparr>)"
| spawn: "session_reachable p codec s \<Longrightarrow>
    SessionManager_spawn p h tid (ss_store s) (ss_manager s) request formal = Some (store', sm', r) \<Longrightarrow>
    session_reachable p codec (s \<lparr> ss_store := store', ss_manager := sm' \<rparr>)"
| terminal: "session_reachable p codec s \<Longrightarrow>
    session_reachable p codec (s \<lparr> ss_manager := (ss_manager s) \<lparr> sm_terminals :=
      update_terminal tid (terminal_event_step ev) (sm_terminals (ss_manager s)) \<rparr> \<rparr>)"
| retire: "session_reachable p codec s \<Longrightarrow>
    session_reachable p codec (s \<lparr> ss_manager := (ss_manager s) \<lparr> sm_terminals :=
      retire_terminal tid (sm_terminals (ss_manager s)) \<rparr> \<rparr>)"
| attach: "session_reachable p codec s \<Longrightarrow> bt_get (sm_attachments (ss_manager s)) new_id = None \<Longrightarrow>
    register_attachment p new_id now (ss_store s) (ss_manager s) connection terminal read_only
      = Some (store', sm', Inr a) \<Longrightarrow>
    session_reachable p codec (s \<lparr> ss_store := store', ss_manager := sm',
      ss_handles := bt_insert new_id a (ss_handles s) \<rparr>)"
| set_state: "session_reachable p codec s \<Longrightarrow> bt_get (ss_handles s) i = Some a \<Longrightarrow>
    ActiveAttachment_set_state (ss_manager s) a state = Inr (sm', a') \<Longrightarrow>
    session_reachable p codec (s \<lparr> ss_manager := sm', ss_handles := bt_insert i a' (ss_handles s) \<rparr>)"
| set_role: "session_reachable p codec s \<Longrightarrow> bt_get (ss_handles s) i = Some a \<Longrightarrow>
    ActiveAttachment_set_role (ss_manager s) a role = Inr (sm', a') \<Longrightarrow>
    session_reachable p codec (s \<lparr> ss_manager := sm', ss_handles := bt_insert i a' (ss_handles s) \<rparr>)"
| detach: "session_reachable p codec s \<Longrightarrow> bt_get (ss_handles s) i = Some a \<Longrightarrow>
    ActiveAttachment_drop (ss_store s) (ss_manager s) a = Some (store', sm') \<Longrightarrow>
    session_reachable p codec (s \<lparr> ss_store := store', ss_manager := sm',
      ss_handles := bt_remove i (ss_handles s) \<rparr>)"

text \<open>The file holds a catalog a restart accepts.\<close>

definition disk_ok :: "(string \<Rightarrow> string option) \<Rightarrow> catalog_codec \<Rightarrow> string \<Rightarrow> disk \<Rightarrow> bool" where
  "disk_ok p codec default_id d \<longleftrightarrow> (\<exists>bs c. disk_catalog d = Some bs
    \<and> length bs \<le> MAX_SESSION_CATALOG_BYTES \<and> decode_catalog codec bs = Some c
    \<and> catalog_ok p c \<and> sc_default_workspace_id c = default_id)"

definition terminals_placed :: "SessionManager \<Rightarrow> bool" where
  "terminals_placed sm \<longleftrightarrow> bt_ok (tm_terminals (sm_terminals sm)) \<and>
    (\<forall>tid t. bt_get (tm_terminals (sm_terminals sm)) tid = Some t \<longrightarrow>
      ti_workspace_id (te_info t) \<in> ws_id ` set (sc_workspaces (sm_catalog sm)))"

text \<open>Handles and registry agree, and every state is one the protocol uses.\<close>

definition attachments_ok :: "session_state \<Rightarrow> bool" where
  "attachments_ok s \<longleftrightarrow> bt_ok (sm_attachments (ss_manager s)) \<and> bt_ok (ss_handles s)
    \<and> (\<forall>i. bt_get (sm_attachments (ss_manager s)) i = map_option aa_info (bt_get (ss_handles s) i))
    \<and> (\<forall>i a. bt_get (ss_handles s) i = Some a \<longrightarrow> ai_id (aa_info a) = i
        \<and> ai_state (aa_info a) \<in> AttachmentState_i32 ` {Subscribing, Snapshotting, Live})"

definition session_ok :: "(string \<Rightarrow> string option) \<Rightarrow> catalog_codec \<Rightarrow> session_state \<Rightarrow> bool" where
  "session_ok p codec s \<longleftrightarrow> catalog_ok p (sm_catalog (ss_manager s))
    \<and> disk_ok p codec (default_workspace_id (ss_manager s)) (ss_disk s)
    \<and> terminals_placed (ss_manager s) \<and> attachments_ok s"

definition codec_sound :: "catalog_codec \<Rightarrow> bool" where
  "codec_sound codec \<longleftrightarrow> (\<forall>c. decode_catalog codec (encode_catalog codec c) = Some c)"

lemma codec_soundD: "codec_sound codec \<Longrightarrow> decode_catalog codec (encode_catalog codec c) = Some c"
  by (simp add: codec_sound_def)

lemma default_present:
  assumes "catalog_ok p c"
  shows "sc_default_workspace_id c \<in> ws_id ` set (sc_workspaces c)"
proof -
  have "filter ws_is_default (sc_workspaces c) \<noteq> []" using assms by (auto simp: catalog_ok_def)
  then obtain w where "w \<in> set (sc_workspaces c)" "ws_is_default w" by (auto simp: filter_empty_conv)
  then show ?thesis using catalog_okD(3) [OF assms, of w]
    by (auto simp: workspace_ok_def intro: rev_image_eqI)
qed

lemma load_or_create_facts:
  assumes "load_or_create_catalog p codec io temporary new_id now path d = (d', Inr c)"
    and "codec_sound codec"
  shows "catalog_ok p c \<and> disk_ok p codec (sc_default_workspace_id c) d'"
proof (cases "disk_catalog d")
  case (Some bs)
  then show ?thesis
    using assms(1)
    by (auto simp: load_or_create_catalog_def disk_ok_def result_simps split: sum.splits if_splits)
next
  case None
  from assms(1) None obtain t where "now = Inr t"
    by (auto simp: load_or_create_catalog_def split: sum.splits)
  define c0 where "c0 = \<lparr> sc_schema_version = SESSION_CATALOG_SCHEMA_VERSION,
    sc_default_workspace_id = new_id, sc_workspaces = [\<lparr> ws_id = new_id,
      ws_name = text_of ''Default'', ws_revision = 1, ws_created_at_unix_ms = t,
      ws_is_default = True \<rparr>] \<rparr>"
  obtain d1 r1 where pc: "persist_catalog p codec io temporary path c0 d = (d1, r1)" by fastforce
  have "io ''read'' \<noteq> Inl e" for e using assms(1) by (auto simp: load_or_create_catalog_def)
  then obtain u where "io ''read'' = Inr u" by (cases "io ''read''") auto
  then have out: "d' = d1" "r1 = Inr ()" "c = c0"
    using assms(1) None \<open>now = Inr t\<close> pc
    by (auto simp: load_or_create_catalog_def Let_def result_simps simp flip: c0_def)
  have "validate_catalog p c0 = Inr ()"
    using pc out(2) by (auto simp: persist_catalog_def split: sum.splits)
  then have ok: "catalog_ok p c0" by (simp add: result_simps)
  define env where "env = \<lparr> ce_parse_uuid = p, ce_codec = codec, ce_io = io, ce_temporary = temporary \<rparr>"
  have pc': "persist_catalog (ce_parse_uuid env) (ce_codec env) (ce_io env) (ce_temporary env) path c0 d
      = (d1, r1)" and ok': "catalog_ok (ce_parse_uuid env) c0"
    using pc ok by (simp_all add: env_def)
  have "disk_catalog d1 = Some (encode_catalog codec c0)"
    "length (encode_catalog codec c0) \<le> MAX_SESSION_CATALOG_BYTES"
    using persist_catalog_facts(1,2) [OF pc' ok'] out(2) by (simp_all add: env_def persistable_def)
  then show ?thesis
    using ok out codec_soundD [OF assms(2), of c0] by (auto simp: disk_ok_def)
qed

lemma ids_view: "ws_id ` set (sc_workspaces c) = dom (workspace_view c)"
  by (simp add: workspace_view_def dom_map_of_conv_image_fst image_image)

lemma spec_keeps_busy:
  assumes "workspace_spec p did busy op v = Some v'" "j \<in> dom v" "busy j"
  shows "j \<in> dom v'"
  using assms
  by (cases op) (auto split: sum.splits option.splits if_splits)

lemma terminal_makes_busy:
  assumes "bt_ok (tm_terminals (sm_terminals sm))"
    and "bt_get (tm_terminals (sm_terminals sm)) tid = Some t"
  shows "busy_workspace sm (ti_workspace_id (te_info t))"
proof -
  have "(tid, t) \<in> set (tm_terminals (sm_terminals sm))" using assms by (simp add: bt_get_in_set)
  then have "Terminal_info t \<in> set (registry_infos (sm_terminals sm))"
    by (force simp: registry_infos_def)
  then have "Terminal_info t \<in> set (list_in_workspace (sm_terminals sm) (ti_workspace_id (te_info t)) True)"
    by (simp add: list_in_workspace_def in_workspace_def)
  then show ?thesis by (auto simp: busy_workspace_def)
qed

lemma workspace_step_ok:
  assumes ok: "session_ok p codec s" and codec: "codec_sound codec"
    and env: "ce_parse_uuid env = p" "ce_codec env = codec"
    and fresh: "fresh_for p op (workspace_view (sm_catalog (ss_manager s)))"
    and exec: "workspace_exec env op (ss_disk s) (ss_manager s) = (d', sm', success)"
  shows "session_ok p codec (s \<lparr> ss_disk := d', ss_manager := sm' \<rparr>)"
proof -
  let ?sm = "ss_manager s"
  let ?v = "workspace_view (sm_catalog ?sm)"
  let ?spec = "workspace_spec p (default_workspace_id ?sm) (busy_workspace ?sm) op ?v"
  have c: "catalog_ok p (sm_catalog ?sm)" and d: "disk_ok p codec (default_workspace_id ?sm) (ss_disk s)"
    and t: "terminals_placed ?sm" and a: "attachments_ok s"
    using ok by (simp_all add: session_ok_def)
  have step: "refines_step env ?spec (ss_disk s) ?sm d' sm' success"
    using workspace_step_refines [of env ?sm op "ss_disk s" d' sm' success] c fresh exec by (simp add: env)
  show ?thesis
  proof (cases ?spec)
    case None
    then have "sm' = ?sm" "d' = ss_disk s" using step by (simp_all add: refines_step_def)
    then show ?thesis using ok by simp
  next
    case (Some v')
    obtain c' where c': "workspace_view c' = v'" "catalog_ok p c'"
      "sc_default_workspace_id c' = default_workspace_id ?sm"
      and i: "if persistable env (sm_catalog_path ?sm) c'
        then success \<and> sm' = ?sm \<lparr> sm_catalog := c' \<rparr>
          \<and> disk_catalog d' = Some (encode_catalog codec c')
        else \<not> success \<and> sm' = ?sm \<and> (disk_catalog d' = disk_catalog (ss_disk s) \<or>
          disk_catalog d' = Some (encode_catalog codec c')
            \<and> length (encode_catalog codec c') \<le> MAX_SESSION_CATALOG_BYTES)"
      using step [unfolded Some refines_step_def option.case env]
      unfolding default_workspace_id_def by blast
    have sm: "sm' = ?sm \<or> sm' = ?sm \<lparr> sm_catalog := c' \<rparr>" using i by presburger
    have "persistable env (sm_catalog_path ?sm) c' \<Longrightarrow>
        length (encode_catalog codec c') \<le> MAX_SESSION_CATALOG_BYTES"
      by (simp add: persistable_def env)
    then have dd: "disk_catalog d' = disk_catalog (ss_disk s) \<or>
        disk_catalog d' = Some (encode_catalog codec c')
          \<and> length (encode_catalog codec c') \<le> MAX_SESSION_CATALOG_BYTES"
      using i by presburger
    have "disk_ok p codec (default_workspace_id ?sm) d'"
      using dd
    proof
      assume "disk_catalog d' = disk_catalog (ss_disk s)"
      then show ?thesis using d by (simp add: disk_ok_def)
    next
      assume "disk_catalog d' = Some (encode_catalog codec c')
          \<and> length (encode_catalog codec c') \<le> MAX_SESSION_CATALOG_BYTES"
      then show ?thesis using c' codec_soundD [OF codec, of c'] by (auto simp: disk_ok_def)
    qed
    moreover have "terminals_placed (?sm \<lparr> sm_catalog := c' \<rparr>)"
      unfolding terminals_placed_def
    proof (intro conjI allI impI)
      show "bt_ok (tm_terminals (sm_terminals (?sm \<lparr> sm_catalog := c' \<rparr>)))"
        using t by (simp add: terminals_placed_def)
      fix tid u
      assume "bt_get (tm_terminals (sm_terminals (?sm \<lparr> sm_catalog := c' \<rparr>))) tid = Some u"
      then have u: "bt_get (tm_terminals (sm_terminals ?sm)) tid = Some u" by simp
      then have "ti_workspace_id (te_info u) \<in> dom ?v" using t by (auto simp: terminals_placed_def ids_view)
      moreover have "busy_workspace ?sm (ti_workspace_id (te_info u))"
        using terminal_makes_busy u t by (auto simp: terminals_placed_def)
      ultimately have "ti_workspace_id (te_info u) \<in> dom v'" by (rule spec_keeps_busy [OF Some])
      then show "ti_workspace_id (te_info u) \<in> ws_id ` set (sc_workspaces (sm_catalog (?sm \<lparr> sm_catalog := c' \<rparr>)))"
        by (simp add: ids_view c'(1))
    qed
    moreover have "attachments_ok (s \<lparr> ss_disk := d', ss_manager := ?sm \<lparr> sm_catalog := c' \<rparr> \<rparr>)"
      "attachments_ok (s \<lparr> ss_disk := d', ss_manager := ?sm \<rparr>)"
      using a by (simp_all add: attachments_ok_def)
    moreover have "default_workspace_id (?sm \<lparr> sm_catalog := c' \<rparr>) = default_workspace_id ?sm"
      using c'(3) by (simp add: default_workspace_id_def)
    ultimately show ?thesis
      using sm c t c'(2) unfolding session_ok_def by (elim disjE) simp_all
  qed
qed

lemma find_workspace_Inr:
  "find_workspace p sm i = Inr w \<Longrightarrow> i \<in> ws_id ` set (sc_workspaces (sm_catalog sm))"
  by (auto simp: find_workspace_def result_simps find_Some_iff intro: rev_image_eqI)

lemma resolve_workspace_Inr:
  assumes "resolve_workspace p sm request formal = Inr request'" "catalog_ok p (sm_catalog sm)"
  shows "sr_workspace_id request' \<in> ws_id ` set (sc_workspaces (sm_catalog sm))"
  using assms default_present [OF assms(2)]
  by (auto simp: resolve_workspace_def result_simps default_workspace_id_def
      dest: find_workspace_Inr split: if_splits)

text \<open>A change of the registry that keeps every terminal in a workspace of the catalog.\<close>

lemma terminals_changed_ok:
  assumes "session_ok p codec s" "terminals_placed ((ss_manager s) \<lparr> sm_terminals := tm' \<rparr>)"
  shows "session_ok p codec (s \<lparr> ss_store := store', ss_manager := (ss_manager s) \<lparr> sm_terminals := tm' \<rparr> \<rparr>)"
  using assms by (simp add: session_ok_def attachments_ok_def default_workspace_id_def)

lemma spawn_step_ok:
  assumes ok: "session_ok p codec s"
    and spawn: "SessionManager_spawn p h tid (ss_store s) (ss_manager s) request formal
      = Some (store', sm', r)"
  shows "session_ok p codec (s \<lparr> ss_store := store', ss_manager := sm' \<rparr>)"
proof (cases "resolve_workspace p (ss_manager s) request formal")
  case (Inl e)
  then have "store' = ss_store s" "sm' = ss_manager s" using spawn by (auto simp: SessionManager_spawn_def)
  then show ?thesis using ok by simp
next
  case (Inr request')
  let ?sm = "ss_manager s"
  obtain tm' where sp: "TerminalManager_spawn h tid (ss_store s) (sm_terminals ?sm) request'
      = Some (store', tm', r)" and sm': "sm' = ?sm \<lparr> sm_terminals := tm' \<rparr>"
    using spawn Inr by (auto simp: SessionManager_spawn_def)
  have placed: "terminals_placed ?sm" and c: "catalog_ok p (sm_catalog ?sm)"
    using ok by (simp_all add: session_ok_def)
  have "terminals_placed (?sm \<lparr> sm_terminals := tm' \<rparr>)"
  proof (cases r)
    case (Inl e)
    then show ?thesis
      using failed_spawn_registry sp placed by (auto simp: terminals_placed_def)
  next
    case r: (Inr tc)
    obtain t cmd where tc: "tc = (t, cmd)" by fastforce
    obtain plan resources where
      t: "t = new_terminal h plan request' tid (tm_next_display_id (sm_terminals ?sm)) resources"
      and tm': "tm' = (sm_terminals ?sm) \<lparr> tm_next_display_id := tm_next_display_id tm',
        tm_terminals := bt_insert tid t (tm_terminals (sm_terminals ?sm)) \<rparr>"
      using spawn_success [OF sp [unfolded r tc]] by metis
    have ts: "tm_terminals tm' = bt_insert tid t (tm_terminals (sm_terminals ?sm))" by (subst tm') simp
    have "ti_workspace_id (te_info t) = sr_workspace_id request'" by (simp add: t new_terminal_def)
    then show ?thesis
      using placed resolve_workspace_Inr [OF Inr c]
      by (auto simp: terminals_placed_def ts btm.ok_ins btm.get_ins split: if_splits)
  qed
  then show ?thesis unfolding sm' by (rule terminals_changed_ok [OF ok])
qed

lemma terminal_step_ok:
  assumes ok: "session_ok p codec s"
  shows "session_ok p codec (s \<lparr> ss_manager := (ss_manager s) \<lparr> sm_terminals :=
      update_terminal tid (terminal_event_step ev) (sm_terminals (ss_manager s)) \<rparr> \<rparr>)"
proof -
  let ?tm = "sm_terminals (ss_manager s)"
  have placed: "terminals_placed (ss_manager s)" using ok by (simp add: session_ok_def)
  have "terminals_placed ((ss_manager s) \<lparr> sm_terminals := update_terminal tid (terminal_event_step ev) ?tm \<rparr>)"
    using placed event_keeps_ids
    by (auto simp: terminals_placed_def update_terminal_def btm.ok_ins btm.get_ins
        split: option.splits if_splits)
  from terminals_changed_ok [OF ok this, of "ss_store s"] show ?thesis by simp
qed

lemma retire_step_ok:
  assumes ok: "session_ok p codec s"
  shows "session_ok p codec (s \<lparr> ss_manager := (ss_manager s) \<lparr> sm_terminals :=
      retire_terminal tid (sm_terminals (ss_manager s)) \<rparr> \<rparr>)"
proof -
  have "terminals_placed ((ss_manager s) \<lparr> sm_terminals := retire_terminal tid (sm_terminals (ss_manager s)) \<rparr>)"
    using ok by (auto simp: session_ok_def terminals_placed_def retire_terminal_def btm.ok_del btm.get_del
        split: if_splits)
  from terminals_changed_ok [OF ok this, of "ss_store s"] show ?thesis by simp
qed

subsection \<open>Attachments\<close>

lemma try_from_i32 [simp]: "AttachmentState_try_from (AttachmentState_i32 st) = Some st"
  by (cases st) (simp_all add: AttachmentState_try_from_def)

lemma attachments_okD:
  assumes "attachments_ok s"
  shows "bt_ok (sm_attachments (ss_manager s))" "bt_ok (ss_handles s)"
    and "bt_get (sm_attachments (ss_manager s)) i = map_option aa_info (bt_get (ss_handles s) i)"
    and "bt_get (ss_handles s) i = Some a \<Longrightarrow> ai_id (aa_info a) = i
      \<and> ai_state (aa_info a) \<in> AttachmentState_i32 ` {Subscribing, Snapshotting, Live}"
  using assms unfolding attachments_ok_def by blast+

lemma attachments_ok_insert:
  assumes "attachments_ok s" "ai_id (aa_info a) = i"
    and "ai_state (aa_info a) \<in> AttachmentState_i32 ` {Subscribing, Snapshotting, Live}"
    and "sm_attachments sm' = bt_insert i (aa_info a) (sm_attachments (ss_manager s))"
  shows "attachments_ok (s \<lparr> ss_store := store', ss_manager := sm',
    ss_handles := bt_insert i a (ss_handles s) \<rparr>)"
  using attachments_okD [OF assms(1)] assms(2-)
  by (auto simp: attachments_ok_def btm.ok_ins btm.get_ins)

lemma attachments_ok_remove:
  assumes "attachments_ok s" "sm_attachments sm' = bt_remove i (sm_attachments (ss_manager s))"
  shows "attachments_ok (s \<lparr> ss_store := store', ss_manager := sm', ss_handles := bt_remove i (ss_handles s) \<rparr>)"
  using attachments_okD [OF assms(1)] assms(2)
  by (auto simp: attachments_ok_def btm.ok_del btm.get_del split: if_splits)

text \<open>An operation that only touches the attachments.\<close>

lemma attachment_change_ok:
  assumes "session_ok p codec s" "sm_catalog sm' = sm_catalog (ss_manager s)"
    "sm_terminals sm' = sm_terminals (ss_manager s)"
    and "attachments_ok (s \<lparr> ss_store := store', ss_manager := sm', ss_handles := hs \<rparr>)"
  shows "session_ok p codec (s \<lparr> ss_store := store', ss_manager := sm', ss_handles := hs \<rparr>)"
  using assms by (simp add: session_ok_def terminals_placed_def default_workspace_id_def)

lemma register_attachment_Inr:
  assumes "register_attachment p new_id now store sm connection terminal read_only
    = Some (store', sm', Inr a)"
  shows "sm' = sm \<lparr> sm_attachments := bt_insert new_id (aa_info a) (sm_attachments sm) \<rparr>
    \<and> ai_id (aa_info a) = new_id \<and> ai_state (aa_info a) = AttachmentState_i32 Subscribing"
  using assms
  by (auto simp: register_attachment_def Let_def bail_def split: sum.splits option.splits)

lemma set_attachment_state_Inr:
  assumes "set_attachment_state sm i st = Inr sm'"
  obtains a current where "bt_get (sm_attachments sm) i = Some a"
    "AttachmentState_try_from (ai_state a) = Some current" "attachment_transition current st"
    "sm' = sm \<lparr> sm_attachments := bt_insert i (a \<lparr> ai_state := AttachmentState_i32 st \<rparr>)
      (sm_attachments sm) \<rparr>"
  using assms by (auto simp: set_attachment_state_def result_simps split: if_splits)

lemma transition_target: "attachment_transition current st \<Longrightarrow> st \<in> {Snapshotting, Live}"
  by (auto simp: attachment_transition_def)

lemma set_state_ok:
  assumes ok: "session_ok p codec s" and h: "bt_get (ss_handles s) i = Some a"
    and set: "ActiveAttachment_set_state (ss_manager s) a st = Inr (sm', a')"
  shows "session_ok p codec (s \<lparr> ss_manager := sm', ss_handles := bt_insert i a' (ss_handles s) \<rparr>)"
proof -
  have att: "attachments_ok s" using ok by (simp add: session_ok_def)
  note d = attachments_okD [OF att]
  have i: "ai_id (aa_info a) = i" using d(4) [OF h] by simp
  have a': "a' = a \<lparr> aa_info := (aa_info a) \<lparr> ai_state := AttachmentState_i32 st \<rparr> \<rparr>"
    and set': "set_attachment_state (ss_manager s) i st = Inr sm'"
    using set i by (auto simp: ActiveAttachment_set_state_def result_simps)
  obtain b current where b: "bt_get (sm_attachments (ss_manager s)) i = Some b"
    and tr: "attachment_transition current st"
    and sm': "sm' = (ss_manager s) \<lparr> sm_attachments := bt_insert i
      (b \<lparr> ai_state := AttachmentState_i32 st \<rparr>) (sm_attachments (ss_manager s)) \<rparr>"
    by (rule set_attachment_state_Inr [OF set']) blast
  have "b = aa_info a" using d(3) [of i] b h by simp
  then have "attachments_ok (s \<lparr> ss_store := ss_store s, ss_manager := sm', ss_handles := bt_insert i a' (ss_handles s) \<rparr>)"
    using transition_target [OF tr] i
    by (intro attachments_ok_insert [OF att]) (auto simp: a' sm')
  from attachment_change_ok [OF ok _ _ this] show ?thesis by (simp add: sm')
qed

lemma set_role_ok:
  assumes ok: "session_ok p codec s" and h: "bt_get (ss_handles s) i = Some a"
    and set: "ActiveAttachment_set_role (ss_manager s) a role = Inr (sm', a')"
  shows "session_ok p codec (s \<lparr> ss_manager := sm', ss_handles := bt_insert i a' (ss_handles s) \<rparr>)"
proof -
  have att: "attachments_ok s" using ok by (simp add: session_ok_def)
  note d = attachments_okD [OF att]
  have i: "ai_id (aa_info a) = i" and st: "ai_state (aa_info a) \<in> AttachmentState_i32 ` {Subscribing, Snapshotting, Live}"
    using d(4) [OF h] by simp_all
  have "bt_get (sm_attachments (ss_manager s)) i = Some (aa_info a)" using d(3) [of i] h by simp
  then have a': "a' = a \<lparr> aa_info := (aa_info a) \<lparr> ai_role := AttachmentRole_i32 role \<rparr> \<rparr>"
    and sm': "sm' = (ss_manager s) \<lparr> sm_attachments := bt_insert i
      ((aa_info a) \<lparr> ai_role := AttachmentRole_i32 role \<rparr>) (sm_attachments (ss_manager s)) \<rparr>"
    using set i by (auto simp: ActiveAttachment_set_role_def set_attachment_role_def result_simps)
  have "attachments_ok (s \<lparr> ss_store := ss_store s, ss_manager := sm', ss_handles := bt_insert i a' (ss_handles s) \<rparr>)"
    using i st by (intro attachments_ok_insert [OF att]) (auto simp: a' sm')
  from attachment_change_ok [OF ok _ _ this] show ?thesis by (simp add: sm')
qed

lemma session_reachable_ok:
  assumes "session_reachable p codec s" and codec: "codec_sound codec"
  shows "session_ok p codec s"
  using assms(1)
proof (induction rule: session_reachable.induct)
  case (boot io h temporary new_id now root path account policy d d' sm store)
  then obtain tm c where tm: "TerminalManager_with_resources h root account policy = Inr tm"
    and l: "load_or_create_catalog p codec io temporary new_id now path d = (d', Inr c)"
    and sm: "sm = \<lparr> sm_terminals = tm, sm_catalog = c, sm_catalog_path = path, sm_attachments = [],
      sm_resources = account, sm_resource_policy = policy \<rparr>"
    by (auto simp: SessionManager_with_resources_def result_simps split: sum.splits prod.splits)
  from tm have "tm_terminals tm = []" by (auto simp: TerminalManager_with_resources_def result_simps)
  then show ?case
    using load_or_create_facts [OF l codec]
    by (simp add: session_ok_def sm terminals_placed_def attachments_ok_def default_workspace_id_def)
next
  case (workspace s env op d' sm' success)
  then show ?case using workspace_step_ok codec by blast
next
  case (spawn s h tid request formal store' sm' r)
  then show ?case using spawn_step_ok by blast
next
  case (terminal s tid ev)
  then show ?case using terminal_step_ok by blast
next
  case (retire s tid)
  then show ?case using retire_step_ok by blast
next
  case (attach s new_id now connection terminal read_only store' sm' a)
  have att: "attachments_ok s" using attach.IH by (simp add: session_ok_def)
  note r = register_attachment_Inr [OF attach.hyps(3)]
  have "attachments_ok (s \<lparr> ss_store := store', ss_manager := sm', ss_handles := bt_insert new_id a (ss_handles s) \<rparr>)"
    using r by (intro attachments_ok_insert [OF att]) auto
  from attachment_change_ok [OF attach.IH _ _ this] show ?case using r by simp
next
  case (set_state s i a state sm' a')
  then show ?case using set_state_ok by blast
next
  case (set_role s i a role sm' a')
  then show ?case using set_role_ok by blast
next
  case (detach s i a store' sm')
  have att: "attachments_ok s" using detach.IH by (simp add: session_ok_def)
  have "ai_id (aa_info a) = i" using attachments_okD(4) [OF att detach.hyps(2)] by simp
  then have sm': "sm' = (ss_manager s) \<lparr> sm_attachments := bt_remove i (sm_attachments (ss_manager s)) \<rparr>"
    using detach.hyps(3) by (auto simp: ActiveAttachment_drop_def)
  have "attachments_ok (s \<lparr> ss_store := store', ss_manager := sm', ss_handles := bt_remove i (ss_handles s) \<rparr>)"
    by (rule attachments_ok_remove [OF att]) (simp add: sm')
  from attachment_change_ok [OF detach.IH _ _ this] show ?case by (simp add: sm')
qed


text \<open>C32. Attachment states are well typed. In every reachable state a registered
  attachment has a live handle that agrees with it, its state is one of subscribing,
  snapshotting and live, so the error for an invalid state cannot occur, and a new state
  is accepted exactly when the protocol's state machine allows the step.\<close>

theorem attachment_states_typed:
  assumes "session_reachable p codec s" and "codec_sound codec"
    and "bt_get (sm_attachments (ss_manager s)) i = Some a"
  shows "\<exists>current handle. AttachmentState_try_from (ai_state a) = Some current
    \<and> current \<in> {Subscribing, Snapshotting, Live}
    \<and> bt_get (ss_handles s) i = Some handle \<and> aa_info handle = a
    \<and> (is_ok (set_attachment_state (ss_manager s) i st) \<longleftrightarrow> attachment_transition current st)"
proof -
  have att: "attachments_ok s" using session_reachable_ok [OF assms(1,2)] by (simp add: session_ok_def)
  note d = attachments_okD [OF att]
  obtain handle where h: "bt_get (ss_handles s) i = Some handle" "aa_info handle = a"
    using d(3) [of i] assms(3) by (cases "bt_get (ss_handles s) i") simp_all
  obtain current where cur: "current \<in> {Subscribing, Snapshotting, Live}"
    "ai_state a = AttachmentState_i32 current"
    using d(4) [OF h(1)] unfolding h(2) by (elim conjE imageE)
  have "is_ok (set_attachment_state (ss_manager s) i st) \<longleftrightarrow> attachment_transition current st"
    using assms(3) cur(2) by (simp add: set_attachment_state_def bail_def)
  then show ?thesis using h cur by auto
qed

text \<open>C39. The emptiness check of a deletion is not atomic with it. When a spawn has
  looked up its workspace and the workspace is then deleted, which succeeds because no
  terminal is registered yet, the spawn still succeeds: the new terminal is registered
  in a workspace that does not exist, so no client can attach to it and listing its
  workspace fails.\<close>

theorem spawn_races_delete:
  assumes "resolve_workspace (ce_parse_uuid env) sm request True = Inr request'"
    and "delete_workspace env (sr_workspace_id request') d sm = (d', sm', Inr ())"
    and "TerminalManager_spawn h tid store (sm_terminals sm') request' = Some (store', tm', Inr (t, cmd))"
    and "catalog_ok (ce_parse_uuid env) (sm_catalog sm)" and "bt_ok (tm_terminals (sm_terminals sm'))"
  shows "bt_get (tm_terminals tm') tid = Some t
    \<and> \<not> is_ok (list_terminals (ce_parse_uuid env) (sm' \<lparr> sm_terminals := tm' \<rparr>)
        (ti_workspace_id (Terminal_info t)) True)
    \<and> (\<exists>e. register_attachment (ce_parse_uuid env) new_id now store' (sm' \<lparr> sm_terminals := tm' \<rparr>)
        connection (Terminal_info t) read_only = Some (store', sm' \<lparr> sm_terminals := tm' \<rparr>, Inl e))"
proof -
  let ?i = "sr_workspace_id request'" and ?p = "ce_parse_uuid env"
  let ?sm = "sm' \<lparr> sm_terminals := tm' \<rparr>"
  have "workspace_exec env (DeleteWorkspace ?i) d sm = (d', sm', True)" using assms(2) by simp
  from delete_workspace_refines [OF assms(4) this]
  have "workspace_view (sm_catalog sm') ?i = None"
    by (auto simp: refines_step_def split: if_splits)
  then have gone: "find (\<lambda>w. ws_id w = ?i) (sc_workspaces (sm_catalog sm')) = None"
    by (auto simp: view_None find_None_iff intro: rev_image_eqI)
  obtain plan resources where
    t: "t = new_terminal h plan request' tid (tm_next_display_id (sm_terminals sm')) resources"
    and tm': "tm' = (sm_terminals sm') \<lparr> tm_next_display_id := tm_next_display_id tm',
      tm_terminals := bt_insert tid t (tm_terminals (sm_terminals sm')) \<rparr>"
    using spawn_success [OF assms(3)] by metis
  have w: "ti_workspace_id (te_info t) = ?i" by (simp add: t new_terminal_def)
  have missing: "\<exists>e. find_workspace ?p ?sm ?i = Inl e"
    using gone by (cases "validate_uuid ?p ?i") (auto simp: find_workspace_def bail_def)
  have "bt_get (tm_terminals tm') tid = Some t"
    by (subst tm') (simp add: btm.get_ins assms(5))
  moreover have "\<not> is_ok (list_terminals ?p ?sm (ti_workspace_id (Terminal_info t)) True)"
    using missing by (auto simp: list_terminals_def w)
  moreover have "\<exists>e. register_attachment ?p new_id now store' ?sm connection (Terminal_info t) read_only
      = Some (store', ?sm, Inl e)"
    using missing
    by (cases "validate_uuid ?p connection") (auto simp: register_attachment_def w)
  ultimately show ?thesis by blast
qed

section \<open>A concrete codec and session\<close>

text \<open>A catalog as a list of numbers, with a length before every list, and numbers as
  runs of ones.\<close>

definition numbers_bytes :: "nat list \<Rightarrow> bytes" where
  "numbers_bytes ns = concat (map (\<lambda>n. replicate n 1 @ [0]) ns)"

definition bytes_numbers :: "bytes \<Rightarrow> nat list" where
  "bytes_numbers bs = map length (butlast (split_on 0 bs))"

lemma bytes_numbers_inverse [simp]: "bytes_numbers (numbers_bytes ns) = ns"
proof (induction ns)
  case (Cons n ns)
  have "(0 :: u8) \<notin> set (replicate n 1)" by auto
  then have "split_on (0 :: u8) (numbers_bytes (n # ns)) = replicate n 1 # split_on 0 (numbers_bytes ns)"
    by (simp add: numbers_bytes_def split_on_append)
  then show ?case using Cons by (simp add: bytes_numbers_def)
qed (simp add: numbers_bytes_def bytes_numbers_def)

definition workspace_numbers :: "WorkspaceInfo \<Rightarrow> nat list" where
  "workspace_numbers w = length (ws_id w) # map of_char (ws_id w) @ length (ws_name w) # ws_name w
    @ [unat (ws_revision w), unat (ws_created_at_unix_ms w), if ws_is_default w then 1 else 0]"

definition take_list :: "nat list \<Rightarrow> nat list \<times> nat list" where
  "take_list ns = (take (hd ns) (tl ns), drop (hd ns) (tl ns))"

definition take_workspace :: "nat list \<Rightarrow> WorkspaceInfo \<times> nat list" where
  "take_workspace ns =
    (let (i, ns1) = take_list ns; (n, ns2) = take_list ns1
     in (\<lparr> ws_id = map char_of i, ws_name = n, ws_revision = word_of_nat (ns2 ! 0),
           ws_created_at_unix_ms = word_of_nat (ns2 ! 1), ws_is_default = (ns2 ! 2 = 1) \<rparr>, drop 3 ns2))"

fun take_workspaces :: "nat \<Rightarrow> nat list \<Rightarrow> WorkspaceInfo list" where
  "take_workspaces 0 ns = []"
| "take_workspaces (Suc k) ns = (let (w, ns') = take_workspace ns in w # take_workspaces k ns')"

definition demo_catalog_codec :: catalog_codec where
  "demo_catalog_codec = \<lparr>
    encode_catalog = (\<lambda>c. numbers_bytes (unat (sc_schema_version c)
      # length (sc_default_workspace_id c) # map of_char (sc_default_workspace_id c)
      @ length (sc_workspaces c) # concat (map workspace_numbers (sc_workspaces c)))),
    decode_catalog = (\<lambda>bs. let ns = bytes_numbers bs; (i, ns1) = take_list (tl ns)
      in Some \<lparr> sc_schema_version = word_of_nat (hd ns), sc_default_workspace_id = map char_of i,
           sc_workspaces = take_workspaces (hd ns1) (tl ns1) \<rparr>) \<rparr>"

lemma take_list_length [simp]: "take_list (length xs # xs @ ys) = (xs, ys)"
  by (simp add: take_list_def)

lemma take_list_chars [simp]:
  "take_list (length s # map of_char (s :: string) @ ys) = (map of_char s, ys)"
  using take_list_length [of "map of_char s" ys] by simp

lemma take_workspace_numbers [simp]: "take_workspace (workspace_numbers w @ ns) = (w, ns)"
  by (simp add: take_workspace_def workspace_numbers_def comp_def)

lemma take_workspaces_numbers [simp]:
  "take_workspaces (length ws) (concat (map workspace_numbers ws)) = ws"
  by (induction ws) simp_all

lemma demo_catalog_codec_sound: "codec_sound demo_catalog_codec"
proof -
  have "take_list (length s # map of_char (s :: string) @ ys) = (map of_char s, ys)" for s ys by simp
  then show ?thesis by (simp add: codec_sound_def demo_catalog_codec_def comp_def)
qed

definition demo_default :: WorkspaceInfo where
  "demo_default = \<lparr> ws_id = ''d'', ws_name = text_of ''Default'', ws_revision = 1,
    ws_created_at_unix_ms = 0, ws_is_default = True \<rparr>"

definition demo_work :: WorkspaceInfo where
  "demo_work = \<lparr> ws_id = ''w'', ws_name = text_of ''Work'', ws_revision = 1,
    ws_created_at_unix_ms = 0, ws_is_default = False \<rparr>"

definition demo_catalog :: "WorkspaceInfo list \<Rightarrow> SessionCatalog" where
  "demo_catalog ws = \<lparr> sc_schema_version = 1, sc_default_workspace_id = ''d'', sc_workspaces = ws \<rparr>"

definition demo_env :: catalog_env where
  "demo_env = \<lparr> ce_parse_uuid = Some, ce_codec = demo_catalog_codec, ce_io = (\<lambda>_. Inr ()),
    ce_temporary = ''tmp'' \<rparr>"

definition demo_session :: "WorkspaceInfo list \<Rightarrow> SessionManager" where
  "demo_session ws = \<lparr> sm_terminals = demo_manager, sm_catalog = demo_catalog ws,
    sm_catalog_path = [RootDir, Normal ''c''], sm_attachments = [], sm_resources = [0],
    sm_resource_policy = ResourcePolicy_default \<rparr>"

definition demo_disk :: "WorkspaceInfo list \<Rightarrow> disk" where
  "demo_disk ws = \<lparr> disk_catalog = Some (encode_catalog demo_catalog_codec (demo_catalog ws)),
    disk_temporaries = [] \<rparr>"

lemma demo_names: "name_ok (text_of ''Default'')" "name_ok (text_of ''Work'')"
  by (simp_all add: name_ok_def validate_workspace_name_def text_of_def trim_text_def is_whitespace_def
      utf8_length_def utf8_len_def is_control_def MAX_WORKSPACE_NAME_BYTES_def)

lemma demo_catalogs_ok:
  "catalog_ok Some (demo_catalog [demo_default])" "catalog_ok Some (demo_catalog [demo_default, demo_work])"
  using demo_names
  by (simp_all add: catalog_ok_def demo_catalog_def workspace_ok_def demo_default_def demo_work_def
      SESSION_CATALOG_SCHEMA_VERSION_def text_of_def)

lemma demo_catalogs_fit:
  "length (encode_catalog demo_catalog_codec (demo_catalog [demo_default])) \<le> MAX_SESSION_CATALOG_BYTES"
  "length (encode_catalog demo_catalog_codec (demo_catalog [demo_default, demo_work]))
    \<le> MAX_SESSION_CATALOG_BYTES"
  by (simp_all add: demo_catalog_codec_def numbers_bytes_def demo_catalog_def demo_default_def
      demo_work_def workspace_numbers_def text_of_def MAX_SESSION_CATALOG_BYTES_def)

lemma demo_persist:
  assumes "ws = [demo_default] \<or> ws = [demo_default, demo_work]" "disk_temporaries d = []"
  shows "persist_catalog Some demo_catalog_codec (\<lambda>_. Inr ()) ''tmp'' [RootDir, Normal ''c'']
    (demo_catalog ws) d = (demo_disk ws, Inr ())"
proof -
  have "catalog_ok Some (demo_catalog ws)"
    and "length (encode_catalog demo_catalog_codec (demo_catalog ws)) \<le> MAX_SESSION_CATALOG_BYTES"
    using assms(1) demo_catalogs_ok demo_catalogs_fit by auto
  moreover from this(1) have "validate_catalog Some (demo_catalog ws) = Inr ()" by (simp add: result_simps)
  ultimately show ?thesis
    using assms(2)
    by (cases d) (simp add: persist_catalog_def path_parent_def write_and_rename_def demo_disk_def)
qed

lemma demo_boot:
  "SessionManager_with_resources Some demo_catalog_codec (\<lambda>_. Inr ()) demo_host ''tmp'' ''d'' (Inr 0)
    [RootDir, Normal ''srv''] [RootDir, Normal ''c''] [0] ResourcePolicy_default
    \<lparr> disk_catalog = None, disk_temporaries = [] \<rparr>
    = (demo_disk [demo_default], Inr (demo_session [demo_default]))"
proof -
  have c: "\<lparr> sc_schema_version = SESSION_CATALOG_SCHEMA_VERSION, sc_default_workspace_id = ''d'',
      sc_workspaces = [\<lparr> ws_id = ''d'', ws_name = text_of ''Default'', ws_revision = 1,
        ws_created_at_unix_ms = 0, ws_is_default = True \<rparr>] \<rparr> = demo_catalog [demo_default]"
    by (simp add: demo_catalog_def demo_default_def SESSION_CATALOG_SCHEMA_VERSION_def)
  have "load_or_create_catalog Some demo_catalog_codec (\<lambda>_. Inr ()) ''tmp'' ''d'' (Inr 0)
      [RootDir, Normal ''c''] \<lparr> disk_catalog = None, disk_temporaries = [] \<rparr>
    = (demo_disk [demo_default], Inr (demo_catalog [demo_default]))"
    unfolding load_or_create_catalog_def
    by (simp add: c demo_persist)
  then show ?thesis
    by (simp add: SessionManager_with_resources_def ResourcePolicy_default_valid demo_manager_started
        demo_session_def)
qed

lemma demo_created:
  "workspace_exec demo_env (CreateWorkspace ''w'' (Inr 0) (text_of ''Work'')) (demo_disk [demo_default])
      (demo_session [demo_default])
    = (demo_disk [demo_default, demo_work], demo_session [demo_default, demo_work], True)"
proof -
  have "push_workspace demo_work (demo_catalog [demo_default])
      = Inr (demo_catalog [demo_default, demo_work], demo_work)"
    by (simp add: push_workspace_def demo_catalog_def demo_default_def demo_work_def text_of_def)
  moreover have "validate_catalog Some (demo_catalog [demo_default, demo_work]) = Inr ()"
    using demo_catalogs_ok by (simp add: result_simps)
  ultimately have "update_catalog demo_env (push_workspace demo_work) (demo_disk [demo_default])
      (demo_session [demo_default])
    = (demo_disk [demo_default, demo_work], demo_session [demo_default, demo_work], Inr demo_work)"
    by (simp add: update_catalog_def demo_session_def demo_env_def demo_persist demo_disk_def)
  then show ?thesis
    using name_ok_validate [OF demo_names(2)] by (simp add: create_workspace_def flip: demo_work_def)
qed

lemma demo_deleted:
  "delete_workspace demo_env ''w'' (demo_disk [demo_default, demo_work])
      (demo_session [demo_default, demo_work])
    = (demo_disk [demo_default], demo_session [demo_default], Inr ())"
proof -
  have "remove_from_catalog ''w'' (demo_catalog [demo_default, demo_work])
      = Inr (demo_catalog [demo_default], ())"
    by (simp add: remove_from_catalog_def demo_catalog_def demo_default_def demo_work_def)
  moreover have "validate_catalog Some (demo_catalog [demo_default]) = Inr ()"
    using demo_catalogs_ok by (simp add: result_simps)
  ultimately have "update_catalog demo_env (remove_from_catalog ''w'') (demo_disk [demo_default, demo_work])
      (demo_session [demo_default, demo_work])
    = (demo_disk [demo_default], demo_session [demo_default], Inr ())"
    by (simp add: update_catalog_def demo_session_def demo_env_def demo_persist demo_disk_def)
  moreover have "validate_uuid Some ''w'' = Inr ()" by (simp add: validate_uuid_def)
  moreover have "list_in_workspace demo_manager ''w'' True = []"
    by (simp add: list_in_workspace_def registry_infos_def demo_manager_def)
  ultimately show ?thesis by (simp add: delete_workspace_def demo_session_def demo_env_def)
qed

theorem workspaces_refine_witness:
  "workspace_view (sm_catalog (demo_session [demo_default, demo_work])) ''w'' = Some (text_of ''Work'', 1)"
proof -
  have f: "fresh_for (ce_parse_uuid demo_env) (CreateWorkspace ''w'' (Inr 0) (text_of ''Work''))
      (workspace_view (sm_catalog (demo_session [demo_default])))"
    by (simp add: fresh_for_def demo_env_def workspace_view_def demo_session_def demo_catalog_def demo_default_def)
  have ok: "catalog_ok (ce_parse_uuid demo_env) (sm_catalog (demo_session [demo_default]))"
    using demo_catalogs_ok by (simp add: demo_env_def demo_session_def)
  show ?thesis
    using workspaces_refine [OF ok f demo_created] name_ok_validate [OF demo_names(2)]
    by (auto split: option.splits if_splits)
qed

lemma demo_session_reachable:
  "session_reachable Some demo_catalog_codec \<lparr> ss_disk = demo_disk [demo_default, demo_work],
    ss_store = [demo_pool], ss_manager = demo_session [demo_default, demo_work], ss_handles = [] \<rparr>"
proof -
  have boot: "session_reachable Some demo_catalog_codec \<lparr> ss_disk = demo_disk [demo_default],
      ss_store = [demo_pool], ss_manager = demo_session [demo_default], ss_handles = [] \<rparr>"
    by (rule session_reachable.boot [OF demo_boot])
  have f: "fresh_for Some (CreateWorkspace ''w'' (Inr 0) (text_of ''Work''))
      (workspace_view (sm_catalog (demo_session [demo_default])))"
    by (simp add: fresh_for_def workspace_view_def demo_session_def demo_catalog_def demo_default_def)
  show ?thesis
    using session_reachable.workspace [OF boot, of demo_env _ "demo_disk [demo_default, demo_work]"] f
      demo_created
    by (simp add: demo_env_def)
qed


theorem spawn_races_delete_witness:
  "\<exists>e. register_attachment Some ''a'' (Inr 0) [demo_pool_terminal]
      (demo_session [demo_default] \<lparr> sm_terminals := demo_manager_one \<rparr>) ''c'' (Terminal_info demo_terminal) False
    = Some ([demo_pool_terminal], demo_session [demo_default] \<lparr> sm_terminals := demo_manager_one \<rparr>, Inl e)"
proof -
  have r: "resolve_workspace (ce_parse_uuid demo_env) (demo_session [demo_default, demo_work]) demo_spawn True
      = Inr demo_spawn"
    by (simp add: resolve_workspace_def find_workspace_def demo_env_def validate_uuid_def demo_spawn_def
        demo_session_def demo_catalog_def demo_default_def demo_work_def)
  have w: "sr_workspace_id demo_spawn = ''w''" by (simp add: demo_spawn_def)
  have d: "delete_workspace demo_env (sr_workspace_id demo_spawn) (demo_disk [demo_default, demo_work])
      (demo_session [demo_default, demo_work]) = (demo_disk [demo_default], demo_session [demo_default], Inr ())"
    unfolding w by (rule demo_deleted)
  have s: "TerminalManager_spawn demo_host ''t-1'' [demo_pool] (sm_terminals (demo_session [demo_default])) demo_spawn
      = Some ([demo_pool_terminal], demo_manager_one, Inr (demo_terminal, spawn_command demo_host demo_plan ''t-1''))"
    using demo_spawned by (simp add: demo_session_def)
  have c: "catalog_ok (ce_parse_uuid demo_env) (sm_catalog (demo_session [demo_default, demo_work]))"
    using demo_catalogs_ok by (simp add: demo_env_def demo_session_def)
  have b: "bt_ok (tm_terminals (sm_terminals (demo_session [demo_default])))"
    by (simp add: demo_session_def demo_manager_def)
  show ?thesis
    using spawn_races_delete [OF r d s c b, of "''a''" "Inr 0" "''c''" False] by (simp add: demo_env_def)
qed

definition demo_attachment :: ActiveAttachment where
  "demo_attachment = \<lparr> aa_info = \<lparr> ai_id = ''a'', ai_connection_id = ''c'', ai_workspace_id = ''w'',
    ai_terminal_id = ''t-1'', ai_role = 2, ai_state = 1, ai_created_at_unix_ms = 0 \<rparr>,
    aa_resources = [(0, ResourceClaim_attachment)] \<rparr>"

lemma demo_attached:
  "register_attachment Some ''a'' (Inr 0) [demo_pool] (demo_session [demo_default, demo_work]) ''c''
      (te_info demo_terminal) False
    = Some ([demo_pool \<lparr> pool_usage := ResourceClaim_attachment \<rparr>],
        (demo_session [demo_default, demo_work]) \<lparr> sm_attachments := [(''a'', aa_info demo_attachment)] \<rparr>,
        Inr demo_attachment)"
proof -
  have "ResourcePool_reserve demo_pool ResourceClaim_attachment
      = Inr (demo_pool \<lparr> pool_usage := ResourceClaim_attachment \<rparr>)"
    unfolding ResourcePool_reserve_Inr
    by (intro exI [of _ ResourceClaim_attachment])
      (simp add: ball_resource_names amount_def demo_pool_def pool_cap_def ResourceClaim_attachment_def
        ResourceClaim_default_def ResourceLimits_user_defaults_def as_claim_def MIB_def GIB_def)
  then have "ResourceAccount_reserve [demo_pool] [0] ResourceClaim_attachment
      = Some ([demo_pool \<lparr> pool_usage := ResourceClaim_attachment \<rparr>], Inr [(0, ResourceClaim_attachment)])"
    by (simp add: ResourceAccount_reserve_def)
  moreover have "validate_uuid Some v = Inr ()" for v by (simp add: validate_uuid_def)
  moreover have "ti_workspace_id (te_info demo_terminal) = ''w''" "ti_id (te_info demo_terminal) = ''t-1''"
    by (simp_all add: demo_terminal_def new_terminal_def demo_spawn_def)
  ultimately show ?thesis
    by (simp add: register_attachment_def find_workspace_def demo_session_def demo_catalog_def
        demo_default_def demo_work_def demo_attachment_def Let_def)
qed

theorem attachment_states_typed_witness:
  "is_ok (set_attachment_state ((demo_session [demo_default, demo_work])
    \<lparr> sm_attachments := [(''a'', aa_info demo_attachment)] \<rparr>) ''a'' Snapshotting)"
proof -
  have none: "bt_get (sm_attachments (demo_session [demo_default, demo_work])) ''a'' = None"
    by (simp add: demo_session_def)
  have r: "session_reachable Some demo_catalog_codec \<lparr> ss_disk = demo_disk [demo_default, demo_work],
      ss_store = [demo_pool \<lparr> pool_usage := ResourceClaim_attachment \<rparr>],
      ss_manager = (demo_session [demo_default, demo_work]) \<lparr> sm_attachments := [(''a'', aa_info demo_attachment)] \<rparr>,
      ss_handles = [(''a'', demo_attachment)] \<rparr>" (is "session_reachable _ _ ?s")
    using session_reachable.attach [OF demo_session_reachable, of "''a''"] none demo_attached by simp
  have g: "bt_get (sm_attachments (ss_manager ?s)) ''a'' = Some (aa_info demo_attachment)"
    by (simp add: bt_get_def)
  have "AttachmentState_try_from (ai_state (aa_info demo_attachment)) = Some Subscribing"
    by (simp add: demo_attachment_def AttachmentState_try_from_def)
  moreover have "attachment_transition Subscribing Snapshotting" by (simp add: attachment_transition_def)
  ultimately show ?thesis
    using attachment_states_typed [OF r demo_catalog_codec_sound g, of Snapshotting] by auto
qed

end
