(* ===== verification/Filesystem.thy ===== *)
theory Filesystem
  imports Text_Support "HOL-Library.AList"
begin

text \<open>
  What the file service uses of \<^verbatim>\<open>std::fs\<close> on Linux: names for inodes, regular files
  with their bytes, modes and times, symbolic links, and the calls that look names up,
  open, write, rename, link and remove them. Looking a path up walks its components and
  follows links, at most forty of them, as the kernel does. A path is a component list,
  so a trailing separator makes no difference. Every call may fail; an \<^verbatim>\<open>os\<close> record says
  which calls fail and how, what the clock shows and how short a read is, so that one record stands for the
  behaviour of the operating system during one request.

  The second part is about confinement: a call on a path below a root changes nothing
  that is visible through a name outside of it, as long as no link leads out.
\<close>

datatype ErrorKind = NotFound | AlreadyExists | PermissionDenied | InvalidInput | OtherKind

datatype inode_kind = KindFile | KindDir | KindSymlink | KindOther

text \<open>The data of a directory or a link stands for the size it reports.\<close>

record inode =
  ino_kind :: inode_kind
  ino_data :: bytes
  ino_link :: path
  ino_mode :: u32
  ino_mtime :: int
  ino_mtime_nsec :: int

record filesystem =
  fs_names :: "(path \<times> nat) list"
  fs_inodes :: "inode list"

record os =
  os_fault :: "string \<Rightarrow> path \<Rightarrow> ErrorKind option"
  os_time :: "int \<times> int"
  os_written :: nat
  os_device :: u64
  os_short_read :: "nat \<Rightarrow> nat"

type_synonym 'a io = "ErrorKind + 'a"

definition guarded :: "os \<Rightarrow> string \<Rightarrow> path \<Rightarrow> 'a io \<Rightarrow> 'a io" where
  "guarded os call p r = (case os_fault os call p of Some k \<Rightarrow> Inl k | None \<Rightarrow> r)"

definition fs_node :: "filesystem \<Rightarrow> path \<Rightarrow> (nat \<times> inode) option" where
  "fs_node fs p = Option.bind (map_of (fs_names fs) p) (\<lambda>i.
    if i < length (fs_inodes fs) then Some (i, fs_inodes fs ! i) else None)"

section \<open>Looking paths up\<close>

text \<open>The walk from a directory along the remaining components. The last component need
  not exist, and is followed when it is a link only on demand.\<close>

function fs_walk :: "filesystem \<Rightarrow> bool \<Rightarrow> nat \<Rightarrow> path \<Rightarrow> path \<Rightarrow> path io" where
  "fs_walk fs follow links at [] = Inr at"
| "fs_walk fs follow links at (RootDir # rest) = fs_walk fs follow links [RootDir] rest"
| "fs_walk fs follow links at (CurDir # rest) = fs_walk fs follow links at rest"
| "fs_walk fs follow links at (ParentDir # rest) =
    fs_walk fs follow links (if length at \<le> 1 then at else butlast at) rest"
| "fs_walk fs follow links at (Normal name # rest) =
    (case fs_node fs (at @ [Normal name]) of
      None \<Rightarrow> if rest = [] then Inr (at @ [Normal name]) else Inl NotFound
    | Some (i, n) \<Rightarrow>
        if ino_kind n = KindSymlink \<and> (follow \<or> rest \<noteq> []) then
          (if links = 0 then Inl OtherKind
           else fs_walk fs follow (links - 1) at (ino_link n @ rest))
        else if rest \<noteq> [] \<and> ino_kind n \<noteq> KindDir then Inl OtherKind
        else fs_walk fs follow links (at @ [Normal name]) rest)"
  by pat_completeness auto
termination
  by (relation "measures [\<lambda>(fs, follow, links, at, p). links, \<lambda>(fs, follow, links, at, p). length p]")
    auto

definition MAX_LINKS :: nat where
  "MAX_LINKS = 40"

definition fs_resolve :: "filesystem \<Rightarrow> bool \<Rightarrow> path \<Rightarrow> path io" where
  "fs_resolve fs follow p =
    (if p = [] then Inl NotFound else fs_walk fs follow MAX_LINKS [RootDir] p)"

text \<open>A call that changes the tree at the place a path leads to.\<close>

definition at_path ::
  "os \<Rightarrow> string \<Rightarrow> bool \<Rightarrow> path \<Rightarrow> filesystem \<Rightarrow> (path \<Rightarrow> filesystem \<times> 'a io) \<Rightarrow> filesystem \<times> 'a io" where
  "at_path os call follow p fs f =
    (case os_fault os call p of
      Some k \<Rightarrow> (fs, Inl k)
    | None \<Rightarrow> (case fs_resolve fs follow p of Inl k \<Rightarrow> (fs, Inl k) | Inr q \<Rightarrow> f q))"

definition node_at :: "filesystem \<Rightarrow> bool \<Rightarrow> path \<Rightarrow> (nat \<times> inode) io" where
  "node_at fs follow p = and_then (fs_resolve fs follow p) (\<lambda>q.
    case fs_node fs q of Some m \<Rightarrow> Inr m | None \<Rightarrow> Inl NotFound)"

definition fs_canonicalize :: "os \<Rightarrow> filesystem \<Rightarrow> path \<Rightarrow> path io" where
  "fs_canonicalize os fs p = guarded os ''canonicalize'' p
    (and_then (fs_resolve fs True p) (\<lambda>q. if fs_node fs q = None then Inl NotFound else Inr q))"

definition fs_symlink_metadata :: "os \<Rightarrow> filesystem \<Rightarrow> path \<Rightarrow> (nat \<times> inode) io" where
  "fs_symlink_metadata os fs p = guarded os ''symlink_metadata'' p (node_at fs False p)"

definition fs_metadata :: "os \<Rightarrow> filesystem \<Rightarrow> path \<Rightarrow> (nat \<times> inode) io" where
  "fs_metadata os fs p = guarded os ''metadata'' p (node_at fs True p)"

definition fs_exists :: "os \<Rightarrow> filesystem \<Rightarrow> path \<Rightarrow> bool" where
  "fs_exists os fs p = is_ok (fs_metadata os fs p)"

definition is_directory :: "os \<Rightarrow> filesystem \<Rightarrow> path \<Rightarrow> bool" where
  "is_directory os fs p = (case fs_metadata os fs p of Inr (i, n) \<Rightarrow> ino_kind n = KindDir | Inl _ \<Rightarrow> False)"

section \<open>Calls\<close>

definition new_file :: "os \<Rightarrow> u32 \<Rightarrow> inode_kind \<Rightarrow> inode" where
  "new_file os mode kind = \<lparr> ino_kind = kind, ino_data = [], ino_link = [], ino_mode = mode,
    ino_mtime = fst (os_time os), ino_mtime_nsec = snd (os_time os) \<rparr>"

definition add_node :: "path \<Rightarrow> inode \<Rightarrow> filesystem \<Rightarrow> filesystem" where
  "add_node p n fs = fs \<lparr> fs_names := AList.update p (length (fs_inodes fs)) (fs_names fs),
    fs_inodes := fs_inodes fs @ [n] \<rparr>"

text \<open>Opening for reading and writing, creating the file, not following a link.\<close>

definition fs_open_create :: "os \<Rightarrow> u32 \<Rightarrow> path \<Rightarrow> filesystem \<Rightarrow> filesystem \<times> nat io" where
  "fs_open_create os mode p fs =
    at_path os ''open'' False p fs (\<lambda>p.
      case fs_node fs p of
        Some (i, n) \<Rightarrow>
          (fs, if ino_kind n = KindSymlink \<or> ino_kind n = KindDir then Inl OtherKind else Inr i)
      | None \<Rightarrow> (add_node p (new_file os mode KindFile) fs, Inr (length (fs_inodes fs))))"

definition write_data :: "nat \<Rightarrow> bytes \<Rightarrow> bytes \<Rightarrow> bytes" where
  "write_data offset new old =
    take offset (old @ replicate (offset - length old) 0) @ new @ drop (offset + length new) old"

definition update_inode :: "nat \<Rightarrow> (inode \<Rightarrow> inode) \<Rightarrow> filesystem \<Rightarrow> filesystem" where
  "update_inode i f fs = fs \<lparr> fs_inodes := (fs_inodes fs)[i := f (fs_inodes fs ! i)] \<rparr>"

text \<open>\<^verbatim>\<open>seek\<close> then \<^verbatim>\<open>write_all\<close>; a failing write may have written a prefix.\<close>

definition fs_write_all :: "os \<Rightarrow> path \<Rightarrow> nat \<Rightarrow> nat \<Rightarrow> bytes \<Rightarrow> filesystem \<Rightarrow> filesystem \<times> unit io" where
  "fs_write_all os p i offset data fs =
    (let write = (\<lambda>d. update_inode i (\<lambda>n. n \<lparr> ino_data := write_data offset d (ino_data n),
           ino_mtime := fst (os_time os), ino_mtime_nsec := snd (os_time os) \<rparr>) fs)
     in case os_fault os ''write_all'' p of
          Some k \<Rightarrow> (if os_written os = 0 then fs else write (take (os_written os) data), Inl k)
        | None \<Rightarrow> (write data, Inr ()))"

definition fs_read_exact :: "os \<Rightarrow> path \<Rightarrow> nat \<Rightarrow> nat \<Rightarrow> nat \<Rightarrow> filesystem \<Rightarrow> bytes io" where
  "fs_read_exact os p i offset len fs = guarded os ''read_exact'' p
    (let data = ino_data (fs_inodes fs ! i)
     in if offset + len \<le> length data then Inr (take len (drop offset data)) else Inl OtherKind)"

text \<open>Reading a file that is followed to its end.\<close>

definition fs_read_file :: "os \<Rightarrow> filesystem \<Rightarrow> path \<Rightarrow> bytes io" where
  "fs_read_file os fs p = guarded os ''read'' p
    (and_then (node_at fs True p) (\<lambda>(i, n).
      if ino_kind n = KindDir then Inl OtherKind else Inr (ino_data n)))"

definition fs_set_permissions :: "os \<Rightarrow> path \<Rightarrow> u32 \<Rightarrow> filesystem \<Rightarrow> filesystem \<times> unit io" where
  "fs_set_permissions os p mode fs =
    at_path os ''set_permissions'' True p fs (\<lambda>p.
      case fs_node fs p of
        Some (i, n) \<Rightarrow> (update_inode i (\<lambda>n. n \<lparr> ino_mode := mode \<rparr>) fs, Inr ())
      | None \<Rightarrow> (fs, Inl NotFound))"

definition directory_names :: "filesystem \<Rightarrow> path \<Rightarrow> string list" where
  "directory_names fs p = [n. (q, i) \<leftarrow> fs_names fs, path_parent q = Some p,
    n \<leftarrow> (case path_file_name q of Some n \<Rightarrow> [n] | None \<Rightarrow> [])]"

text \<open>Renaming moves the name with everything below it and replaces the destination; it
  does nothing when both names are links to the same file, refuses to move a directory
  into itself, and replaces a directory only when it is empty and by a directory.\<close>

definition rename_names :: "path \<Rightarrow> path \<Rightarrow> (path \<times> nat) list \<Rightarrow> (path \<times> nat) list" where
  "rename_names p q names =
    map (\<lambda>(k, i). (if path_starts_with k p then q @ drop (length p) k else k, i))
      (filter (\<lambda>(k, i). \<not> path_starts_with k q) names)"

definition directory_at :: "filesystem \<Rightarrow> path \<Rightarrow> bool" where
  "directory_at fs p = (case fs_node fs p of Some (i, n) \<Rightarrow> ino_kind n = KindDir | None \<Rightarrow> False)"

definition can_replace :: "filesystem \<Rightarrow> path \<Rightarrow> path \<Rightarrow> bool" where
  "can_replace fs p q = (case map_of (fs_names fs) q of
      None \<Rightarrow> True
    | Some _ \<Rightarrow> directory_at fs p = directory_at fs q \<and>
        list_all (\<lambda>(k, i). path_starts_with k q \<longrightarrow> k = q) (fs_names fs))"

definition fs_rename :: "os \<Rightarrow> path \<Rightarrow> path \<Rightarrow> filesystem \<Rightarrow> filesystem \<times> unit io" where
  "fs_rename os p q fs =
    at_path os ''rename'' False p fs (\<lambda>p. at_path os ''rename_to'' False q fs (\<lambda>q.
      case map_of (fs_names fs) p of
        None \<Rightarrow> (fs, Inl NotFound)
      | Some i \<Rightarrow>
          if map_of (fs_names fs) q = Some i then (fs, Inr ())
          else if path_starts_with q p then (fs, Inl InvalidInput)
          else if \<not> can_replace fs p q then (fs, Inl OtherKind)
          else (fs \<lparr> fs_names := rename_names p q (fs_names fs) \<rparr>, Inr ())))"

definition fs_hard_link :: "os \<Rightarrow> path \<Rightarrow> path \<Rightarrow> filesystem \<Rightarrow> filesystem \<times> unit io" where
  "fs_hard_link os p q fs =
    at_path os ''hard_link'' False p fs (\<lambda>p. at_path os ''hard_link_to'' False q fs (\<lambda>q.
      case fs_node fs p of
        None \<Rightarrow> (fs, Inl NotFound)
      | Some (i, n) \<Rightarrow>
          if map_of (fs_names fs) q \<noteq> None then (fs, Inl AlreadyExists)
          else if ino_kind n = KindDir then (fs, Inl PermissionDenied)
          else (fs \<lparr> fs_names := AList.update q i (fs_names fs) \<rparr>, Inr ())))"

definition fs_remove_file :: "os \<Rightarrow> path \<Rightarrow> filesystem \<Rightarrow> filesystem \<times> unit io" where
  "fs_remove_file os p fs =
    at_path os ''remove_file'' False p fs (\<lambda>p.
      case fs_node fs p of
        None \<Rightarrow> (fs, Inl NotFound)
      | Some (i, n) \<Rightarrow>
          if ino_kind n = KindDir then (fs, Inl OtherKind)
          else (fs \<lparr> fs_names := AList.delete p (fs_names fs) \<rparr>, Inr ()))"

definition fs_remove_dir :: "os \<Rightarrow> path \<Rightarrow> filesystem \<Rightarrow> filesystem \<times> unit io" where
  "fs_remove_dir os p fs =
    at_path os ''remove_dir'' False p fs (\<lambda>p.
      if \<not> directory_at fs p \<or> directory_names fs p \<noteq> [] then (fs, Inl OtherKind)
      else (fs \<lparr> fs_names := AList.delete p (fs_names fs) \<rparr>, Inr ()))"

definition fs_create_dir :: "os \<Rightarrow> path \<Rightarrow> filesystem \<Rightarrow> filesystem \<times> unit io" where
  "fs_create_dir os p fs =
    at_path os ''create_dir'' False p fs (\<lambda>p.
      if map_of (fs_names fs) p \<noteq> None then (fs, Inl AlreadyExists)
      else (add_node p (new_file os 511 KindDir) fs, Inr ()))"

section \<open>Confinement\<close>

text \<open>Every name stands once and has an inode, no file is reachable both below the root
  and outside of it, and no link stands below the root or on the way to it.\<close>

definition on_branch :: "path \<Rightarrow> path \<Rightarrow> bool" where
  "on_branch root p \<longleftrightarrow> path_starts_with p root \<or> path_starts_with root p"

definition separated :: "path \<Rightarrow> filesystem \<Rightarrow> bool" where
  "separated root fs \<longleftrightarrow> distinct (map fst (fs_names fs)) \<and>
    (\<forall>(p, i) \<in> set (fs_names fs). i < length (fs_inodes fs)) \<and>
    (\<forall>(p, i) \<in> set (fs_names fs). \<forall>(q, j) \<in> set (fs_names fs).
      path_starts_with p root \<longrightarrow> \<not> path_starts_with q root \<longrightarrow> i \<noteq> j) \<and>
    (\<forall>(p, i) \<in> set (fs_names fs). on_branch root p \<longrightarrow> ino_kind (fs_inodes fs ! i) \<noteq> KindSymlink)"

definition confined :: "path \<Rightarrow> filesystem \<Rightarrow> filesystem \<Rightarrow> bool" where
  "confined root fs fs' \<longleftrightarrow> (separated root fs \<longrightarrow> separated root fs' \<and>
    (\<forall>q. \<not> path_starts_with q root \<longrightarrow> fs_node fs' q = fs_node fs q))"

lemma confined_refl [intro!, simp]: "confined root fs fs"
  by (simp add: confined_def)

lemma confined_trans: "confined root fs fs' \<Longrightarrow> confined root fs' fs'' \<Longrightarrow> confined root fs fs''"
  by (simp add: confined_def)

lemma separatedD:
  assumes "separated root fs"
  shows "distinct (map fst (fs_names fs))"
    and "(p, i) \<in> set (fs_names fs) \<Longrightarrow> i < length (fs_inodes fs)"
    and "(p, i) \<in> set (fs_names fs) \<Longrightarrow> (q, j) \<in> set (fs_names fs) \<Longrightarrow>
      path_starts_with p root \<Longrightarrow> \<not> path_starts_with q root \<Longrightarrow> i \<noteq> j"
    and "(p, i) \<in> set (fs_names fs) \<Longrightarrow> on_branch root p \<Longrightarrow> ino_kind (fs_inodes fs ! i) \<noteq> KindSymlink"
  using assms unfolding separated_def by blast+

lemma separatedI:
  assumes "distinct (map fst (fs_names fs))"
    and "\<And>p i. (p, i) \<in> set (fs_names fs) \<Longrightarrow> i < length (fs_inodes fs)"
    and "\<And>p i q j. (p, i) \<in> set (fs_names fs) \<Longrightarrow> (q, j) \<in> set (fs_names fs) \<Longrightarrow>
      path_starts_with p root \<Longrightarrow> \<not> path_starts_with q root \<Longrightarrow> i \<noteq> j"
    and "\<And>p i. (p, i) \<in> set (fs_names fs) \<Longrightarrow> on_branch root p \<Longrightarrow>
      ino_kind (fs_inodes fs ! i) \<noteq> KindSymlink"
  shows "separated root fs"
  using assms unfolding separated_def by blast

text \<open>The two ways a call changes the tree: it changes one inode that has no name outside,
  or it changes names below the root without bringing in an inode from outside.\<close>

lemma confined_inode:
  assumes "(p, i) \<in> set (fs_names fs)" "path_starts_with p root" "\<And>n. ino_kind (f n) = ino_kind n"
  shows "confined root fs (update_inode i f fs)"
  unfolding confined_def
proof (intro impI conjI allI)
  assume sep: "separated root fs"
  note d = separatedD [OF sep]
  show "separated root (update_inode i f fs)"
  proof (rule separatedI)
    show "ino_kind (fs_inodes (update_inode i f fs) ! j) \<noteq> KindSymlink"
      if "(q, j) \<in> set (fs_names (update_inode i f fs))" "on_branch root q" for q j
      using that d(2) [of q j] d(4) [of q j] assms(3)
      by (cases "j = i") (auto simp: update_inode_def)
  qed (use d in \<open>auto simp: update_inode_def\<close>)
  fix q assume q: "\<not> path_starts_with q root"
  have "map_of (fs_names fs) q \<noteq> Some i"
    using d(3) [OF assms(1) _ assms(2) q] by (auto dest: map_of_SomeD)
  then show "fs_node (update_inode i f fs) q = fs_node fs q"
    by (auto simp: fs_node_def update_inode_def split: option.split bind_split)
qed

lemma confined_names:
  assumes "separated root fs \<Longrightarrow> distinct (map fst names')"
    and "length (fs_inodes fs) \<le> length inodes'"
    and "take (length (fs_inodes fs)) inodes' = fs_inodes fs"
    and "\<And>q. \<not> path_starts_with q root \<Longrightarrow> map_of names' q = map_of (fs_names fs) q"
    and "\<And>q j. separated root fs \<Longrightarrow> (q, j) \<in> set names' \<Longrightarrow> path_starts_with q root \<Longrightarrow>
      (\<exists>r. (r, j) \<in> set (fs_names fs) \<and> path_starts_with r root)
      \<or> j = length (fs_inodes fs) \<and> j < length inodes' \<and> ino_kind (inodes' ! j) \<noteq> KindSymlink"
  shows "confined root fs (fs \<lparr> fs_names := names', fs_inodes := inodes' \<rparr>)"
  unfolding confined_def
proof (intro impI conjI allI)
  let ?fs = "fs \<lparr> fs_names := names', fs_inodes := inodes' \<rparr>"
  assume sep: "separated root fs"
  note d = separatedD [OF sep]
  have dist: "distinct (map fst names')" by (rule assms(1) [OF sep])
  have out: "(q, j) \<in> set (fs_names fs)" if "(q, j) \<in> set names'" "\<not> path_starts_with q root" for q j
    using that assms(4) [of q] dist by (metis map_of_SomeD map_of_is_SomeI)
  have same: "inodes' ! i = fs_inodes fs ! i" if "i < length (fs_inodes fs)" for i
    using that assms(3) by (metis nth_take)
  show "separated root ?fs"
  proof (rule separatedI)
    show "distinct (map fst (fs_names ?fs))" using dist by simp
    show "i < length (fs_inodes ?fs)" if "(p, i) \<in> set (fs_names ?fs)" for p i
      using that assms(2) assms(5) [OF sep, of p i] d(2) out [of p i] by fastforce
    show "i \<noteq> j" if "(p, i) \<in> set (fs_names ?fs)" "(q, j) \<in> set (fs_names ?fs)"
      "path_starts_with p root" "\<not> path_starts_with q root" for p i q j
    proof -
      have qj: "(q, j) \<in> set (fs_names fs)" using out that by simp
      from assms(5) [OF sep, of p i] that(1,3) show ?thesis
        using d(2) [OF qj] d(3) [OF _ qj _ that(4)] by auto
    qed
    show "ino_kind (fs_inodes ?fs ! i) \<noteq> KindSymlink"
      if "(p, i) \<in> set (fs_names ?fs)" "on_branch root p" for p i
    proof (cases "path_starts_with p root")
      case True
      from assms(5) [OF sep, of p i] that(1) True show ?thesis
        using d(2) d(4) same by (auto simp: on_branch_def)
    next
      case False
      then have "(p, i) \<in> set (fs_names fs)" using out that(1) by simp
      then show ?thesis using d(2) d(4) [OF _ that(2)] same by auto
    qed
  qed
  fix q assume q: "\<not> path_starts_with q root"
  have "i < length (fs_inodes fs)" if "map_of (fs_names fs) q = Some i" for i
    using d(2) map_of_SomeD [OF that] by blast
  then show "fs_node ?fs q = fs_node fs q"
    using assms(2) assms(4) [OF q] same by (auto simp: fs_node_def split: bind_split)
qed

lemma outside_apart:
  "path_starts_with p root \<Longrightarrow> \<not> path_starts_with q root \<Longrightarrow> q \<noteq> p"
  by auto

lemma confined_add_node:
  assumes "path_starts_with p root" "ino_kind n \<noteq> KindSymlink"
  shows "confined root fs (add_node p n fs)"
  unfolding add_node_def
proof (rule confined_names)
  show "distinct (map fst (AList.update p (length (fs_inodes fs)) (fs_names fs)))"
    if "separated root fs"
    using separatedD(1) [OF that] by (rule distinct_update)
  show "map_of (AList.update p (length (fs_inodes fs)) (fs_names fs)) q = map_of (fs_names fs) q"
    if "\<not> path_starts_with q root" for q
    using outside_apart [OF assms(1) that] by (simp add: update_conv')
  show "(\<exists>r. (r, j) \<in> set (fs_names fs) \<and> path_starts_with r root)
      \<or> j = length (fs_inodes fs) \<and> j < length (fs_inodes fs @ [n])
        \<and> ino_kind ((fs_inodes fs @ [n]) ! j) \<noteq> KindSymlink"
    if sep: "separated root fs" and "(q, j) \<in> set (AList.update p (length (fs_inodes fs)) (fs_names fs))"
      "path_starts_with q root" for q j
  proof -
    have "map_of (AList.update p (length (fs_inodes fs)) (fs_names fs)) q = Some j"
      by (rule map_of_is_SomeI [OF distinct_update [OF separatedD(1) [OF sep]] that(2)])
    then show ?thesis using that(3) assms(2) by (auto simp: update_conv' dest: map_of_SomeD split: if_splits)
  qed
qed simp_all

lemma confined_delete:
  assumes "path_starts_with p root"
  shows "confined root fs (fs \<lparr> fs_names := AList.delete p (fs_names fs) \<rparr>)"
proof -
  have "confined root fs (fs \<lparr> fs_names := AList.delete p (fs_names fs), fs_inodes := fs_inodes fs \<rparr>)"
  proof (rule confined_names)
    show "distinct (map fst (AList.delete p (fs_names fs)))" if "separated root fs"
      using separatedD(1) [OF that] by (rule distinct_delete)
    show "map_of (AList.delete p (fs_names fs)) q = map_of (fs_names fs) q"
      if "\<not> path_starts_with q root" for q
      using outside_apart [OF assms that] by (simp add: delete_conv')
    show "(\<exists>r. (r, j) \<in> set (fs_names fs) \<and> path_starts_with r root)
        \<or> j = length (fs_inodes fs) \<and> j < length (fs_inodes fs)
          \<and> ino_kind (fs_inodes fs ! j) \<noteq> KindSymlink"
      if "(q, j) \<in> set (AList.delete p (fs_names fs))" "path_starts_with q root" for q j
      using that by (auto simp: AList.delete_eq)
  qed simp_all
  then show ?thesis by simp
qed

lemma confined_link:
  assumes "path_starts_with q root" "path_starts_with p root" "map_of (fs_names fs) p = Some i"
  shows "confined root fs (fs \<lparr> fs_names := AList.update q i (fs_names fs) \<rparr>)"
proof -
  have "confined root fs (fs \<lparr> fs_names := AList.update q i (fs_names fs), fs_inodes := fs_inodes fs \<rparr>)"
  proof (rule confined_names)
    show "distinct (map fst (AList.update q i (fs_names fs)))" if "separated root fs"
      using separatedD(1) [OF that] by (rule distinct_update)
    show "map_of (AList.update q i (fs_names fs)) r = map_of (fs_names fs) r"
      if "\<not> path_starts_with r root" for r
      using outside_apart [OF assms(1) that] by (simp add: update_conv')
    show "(\<exists>r. (r, j) \<in> set (fs_names fs) \<and> path_starts_with r root)
        \<or> j = length (fs_inodes fs) \<and> j < length (fs_inodes fs)
          \<and> ino_kind (fs_inodes fs ! j) \<noteq> KindSymlink"
      if sep: "separated root fs" and "(r, j) \<in> set (AList.update q i (fs_names fs))"
        "path_starts_with r root" for r j
    proof -
      have "map_of (AList.update q i (fs_names fs)) r = Some j"
        by (rule map_of_is_SomeI [OF distinct_update [OF separatedD(1) [OF sep]] that(2)])
      then show ?thesis
        using that(3) assms(2,3) by (auto simp: update_conv' dest: map_of_SomeD split: if_splits)
    qed
  qed simp_all
  then show ?thesis by simp
qed

lemma map_of_renamed_outside:
  assumes "path_starts_with p root" "path_starts_with q root" "\<not> path_starts_with r root"
  shows "map_of (rename_names p q names) r = map_of names r"
proof (induction names)
  case (Cons e names)
  obtain k i where e: "e = (k, i)" by fastforce
  have "q @ drop (length p) k \<noteq> r" using assms(2,3)
    by (metis path_starts_with_append path_starts_with_trans)
  moreover have "\<not> path_starts_with r p" "\<not> path_starts_with r q"
    using assms path_starts_with_trans by blast+
  ultimately show ?case using Cons by (auto simp: rename_names_def e)
qed (simp add: rename_names_def)

lemma distinct_rename_names:
  assumes "distinct (map fst names)"
  shows "distinct (map fst (rename_names p q names))"
proof -
  define f where "f = (\<lambda>k. if path_starts_with k p then q @ drop (length p) k else k)"
  define ks where "ks = filter (\<lambda>k. \<not> path_starts_with k q) (map fst names)"
  have "map fst (rename_names p q names) = map f ks"
    unfolding rename_names_def f_def ks_def by (induction names) auto
  moreover have "inj_on f (set ks)"
  proof (rule inj_onI)
    fix k l assume kl: "k \<in> set ks" "l \<in> set ks" "f k = f l"
    have nk: "\<not> path_starts_with k q" "\<not> path_starts_with l q" using kl by (auto simp: ks_def)
    show "k = l"
    proof (cases "path_starts_with k p"; cases "path_starts_with l p")
      assume a: "path_starts_with k p" "path_starts_with l p"
      then have "drop (length p) k = drop (length p) l" using kl(3) by (simp add: f_def)
      then show ?thesis using a by (metis append_take_drop_id path_starts_with_def)
    next
      assume a: "path_starts_with k p" "\<not> path_starts_with l p"
      then have "q @ drop (length p) k = l" using kl(3) by (simp add: f_def)
      then show ?thesis using nk(2) path_starts_with_append by metis
    next
      assume a: "\<not> path_starts_with k p" "path_starts_with l p"
      then have "q @ drop (length p) l = k" using kl(3) by (simp add: f_def)
      then show ?thesis using nk(1) path_starts_with_append by metis
    next
      assume "\<not> path_starts_with k p" "\<not> path_starts_with l p"
      then show ?thesis using kl(3) by (simp add: f_def)
    qed
  qed
  moreover have "distinct ks" using assms by (simp add: ks_def)
  ultimately show ?thesis by (simp add: distinct_map)
qed

lemma confined_rename_names:
  assumes "path_starts_with p root" "path_starts_with q root"
  shows "confined root fs (fs \<lparr> fs_names := rename_names p q (fs_names fs) \<rparr>)"
proof -
  have "confined root fs (fs \<lparr> fs_names := rename_names p q (fs_names fs), fs_inodes := fs_inodes fs \<rparr>)"
  proof (rule confined_names)
    show "distinct (map fst (rename_names p q (fs_names fs)))" if "separated root fs"
      by (rule distinct_rename_names [OF separatedD(1) [OF that]])
    show "map_of (rename_names p q (fs_names fs)) r = map_of (fs_names fs) r"
      if "\<not> path_starts_with r root" for r
      by (rule map_of_renamed_outside [OF assms that])
    show "(\<exists>s. (s, j) \<in> set (fs_names fs) \<and> path_starts_with s root)
        \<or> j = length (fs_inodes fs) \<and> j < length (fs_inodes fs)
          \<and> ino_kind (fs_inodes fs ! j) \<noteq> KindSymlink"
      if r: "(r, j) \<in> set (rename_names p q (fs_names fs))" "path_starts_with r root" for r j
    proof -
      obtain k where k: "(k, j) \<in> set (fs_names fs)" "r = (if path_starts_with k p then q @ drop (length p) k else k)"
        using r(1) by (auto simp: rename_names_def)
      have "path_starts_with k root"
        using k(2) r(2) assms(1) path_starts_with_trans by (cases "path_starts_with k p") auto
      then show ?thesis using k(1) by blast
    qed
  qed simp_all
  then show ?thesis by simp
qed

text \<open>Where nothing is a link, a canonical path leads to itself.\<close>

fun is_normal :: "component \<Rightarrow> bool" where
  "is_normal (Normal name) = True"
| "is_normal c = False"

definition canonical :: "path \<Rightarrow> bool" where
  "canonical p \<longleftrightarrow> p \<noteq> [] \<and> hd p = RootDir \<and> list_all is_normal (tl p)"

definition inside :: "path \<Rightarrow> path \<Rightarrow> bool" where
  "inside root p \<longleftrightarrow> path_starts_with p root \<and> canonical p"

lemma canonical_snoc [simp]: "canonical p \<Longrightarrow> canonical (p @ [Normal name])"
  by (auto simp: canonical_def)

lemma inside_snoc [simp]: "inside root p \<Longrightarrow> inside root (p @ [Normal name])"
  by (auto simp: inside_def elim!: path_starts_withE)

lemma canonical_butlast: "canonical p \<Longrightarrow> \<not> length p \<le> 1 \<Longrightarrow> canonical (butlast p)"
  by (cases p) (auto simp: canonical_def list_all_iff dest: in_set_butlastD)

lemma fs_walk_canonical:
  "fs_walk fs follow links at p = Inr q \<Longrightarrow> canonical at \<Longrightarrow> canonical q"
proof (induction fs follow links at p rule: fs_walk.induct)
  case (4 fs follow links at rest)
  then show ?case using canonical_butlast by (cases "length at \<le> 1") auto
qed (auto split: option.splits if_splits simp: canonical_def [of "[RootDir]"])

lemma fs_resolve_canonical: "fs_resolve fs follow p = Inr q \<Longrightarrow> canonical q"
  by (auto simp: fs_resolve_def canonical_def [of "[RootDir]"] split: if_splits dest: fs_walk_canonical)

lemma fs_walk_plain:
  assumes "fs_walk fs follow links at rest = Inr q" "list_all is_normal rest"
    and "\<And>xs ys i n. rest = xs @ ys \<Longrightarrow> fs_node fs (at @ xs) = Some (i, n) \<Longrightarrow> xs \<noteq> [] \<Longrightarrow>
      ino_kind n \<noteq> KindSymlink"
  shows "q = at @ rest"
  using assms
proof (induction rest arbitrary: at)
  case (Cons c rest)
  obtain name where c: "c = Normal name" using Cons.prems(2) by (cases c) auto
  show ?case
  proof (cases "fs_node fs (at @ [Normal name])")
    case None
    then show ?thesis using Cons.prems(1) c by (auto split: if_splits)
  next
    case (Some m)
    obtain i n where m: "m = (i, n)" by fastforce
    have "ino_kind n \<noteq> KindSymlink"
      using Cons.prems(3) [of "[c]" rest i n] Some m c by simp
    then have "fs_walk fs follow links (at @ [Normal name]) rest = Inr q"
      using Cons.prems(1) Some m c by (auto split: if_splits)
    then have "q = (at @ [Normal name]) @ rest"
      using Cons.prems(2) Cons.prems(3) [of "c # xs" for xs] c by (intro Cons.IH) auto
    then show ?thesis using c by simp
  qed
qed simp

lemma prefix_on_branch: "path_starts_with (xs @ ys) root \<Longrightarrow> on_branch root xs"
  by (auto simp: on_branch_def append_eq_append_conv2 elim!: path_starts_withE)

lemma fs_node_member:
  assumes "fs_node fs p = Some (i, n)"
  shows "(p, i) \<in> set (fs_names fs)" "i < length (fs_inodes fs)" "n = fs_inodes fs ! i"
  using assms by (auto simp: fs_node_def bind_eq_Some_conv split: if_splits dest: map_of_SomeD)

lemma fs_resolve_inside:
  assumes "separated root fs" "inside root p" "fs_resolve fs follow p = Inr q"
  shows "q = p"
proof -
  obtain rest where p: "p = RootDir # rest" "list_all is_normal rest"
    using assms(2) by (cases p) (auto simp: inside_def canonical_def)
  have "q = [RootDir] @ rest"
  proof (rule fs_walk_plain)
    show "fs_walk fs follow MAX_LINKS [RootDir] rest = Inr q"
      using assms(3) p by (simp add: fs_resolve_def)
    show "ino_kind n \<noteq> KindSymlink"
      if "rest = xs @ ys" "fs_node fs ([RootDir] @ xs) = Some (i, n)" for xs ys i n
    proof -
      have "on_branch root ([RootDir] @ xs)"
        by (rule prefix_on_branch [where ys = ys]) (use assms(2) p that(1) in \<open>simp add: inside_def\<close>)
      then show ?thesis
        using separatedD(4) [OF assms(1) fs_node_member(1) [OF that(2)]] fs_node_member(3) [OF that(2)]
        by simp
    qed
  qed (rule p(2))
  then show ?thesis using p by simp
qed

lemma confined_at_path:
  assumes "inside root p" "confined root fs (fst (f p))"
  shows "confined root fs (fst (at_path os call follow p fs f))"
proof (cases "separated root fs")
  case True
  then show ?thesis
    using assms fs_resolve_inside [OF True assms(1)]
    by (auto simp: at_path_def split: option.split sum.split)
qed (simp add: confined_def)

text \<open>Hence every call on paths below the root is confined.\<close>

lemma confined_calls [intro]:
  assumes "inside root p"
  shows "confined root fs (fst (fs_open_create os mode p fs))"
    and "confined root fs (fst (fs_set_permissions os p mode fs))"
    and "inside root q \<Longrightarrow> confined root fs (fst (fs_rename os p q fs))"
    and "inside root q \<Longrightarrow> confined root fs (fst (fs_hard_link os p q fs))"
    and "confined root fs (fst (fs_remove_file os p fs))"
    and "confined root fs (fst (fs_remove_dir os p fs))"
    and "confined root fs (fst (fs_create_dir os p fs))"
proof -
  have p: "path_starts_with p root" using assms by (simp add: inside_def)
  show "confined root fs (fst (fs_open_create os mode p fs))"
    unfolding fs_open_create_def using p
    by (intro confined_at_path [OF assms]) (auto simp: confined_add_node new_file_def split: option.split)
  show "confined root fs (fst (fs_set_permissions os p mode fs))"
    unfolding fs_set_permissions_def using p
    by (intro confined_at_path [OF assms])
      (auto intro!: confined_inode dest: fs_node_member(1) split: option.split)
  show "inside root q \<Longrightarrow> confined root fs (fst (fs_rename os p q fs))"
    unfolding fs_rename_def using p
    by (intro confined_at_path assms)
      (auto simp: confined_rename_names inside_def split: option.split)
  show "inside root q \<Longrightarrow> confined root fs (fst (fs_hard_link os p q fs))"
    unfolding fs_hard_link_def using p
    by (intro confined_at_path assms)
      (auto simp: confined_link inside_def fs_node_def bind_eq_Some_conv split: option.split if_splits)
  show "confined root fs (fst (fs_remove_file os p fs))"
    unfolding fs_remove_file_def using p
    by (intro confined_at_path [OF assms]) (auto simp: confined_delete split: option.split)
  show "confined root fs (fst (fs_remove_dir os p fs))"
    unfolding fs_remove_dir_def using p
    by (intro confined_at_path [OF assms]) (auto simp: confined_delete)
  show "confined root fs (fst (fs_create_dir os p fs))"
    unfolding fs_create_dir_def using p
    by (intro confined_at_path [OF assms]) (auto simp: confined_add_node new_file_def)
qed

lemma confined_write:
  assumes "(p, i) \<in> set (fs_names fs)" "path_starts_with p root"
  shows "confined root fs (fst (fs_write_all os p i offset data fs))"
  using confined_inode [OF assms] by (auto simp: fs_write_all_def Let_def split: option.split)

lemma opened_member:
  assumes "fs_open_create os mode p fs = (fs', Inr i)" "separated root fs" "inside root p"
  shows "(p, i) \<in> set (fs_names fs')"
proof -
  have "(p, j) \<in> set (AList.update p j al)" for j and al :: "(path \<times> nat) list"
    by (induction al) auto
  moreover have "fs_resolve fs False p = Inr p" if "fs_resolve fs False p = Inr q" for q
    using fs_resolve_inside [OF assms(2,3) that] that by simp
  ultimately show ?thesis
    using assms(1) by (cases "fs_resolve fs False p")
      (auto simp: fs_open_create_def at_path_def add_node_def dest: fs_node_member(1)
        split: option.splits if_splits)
qed

end
