(* ===== verification/File_Service.thy ===== *)
theory File_Service
  imports Filesystem Compression Resources Ordered_Map
begin

unbundle bit_operations_syntax

text \<open>
  The file service of a user (\<^verbatim>\<open>FileService\<close> of \<^verbatim>\<open>src/files.rs\<close>): how a requested path is
  resolved and kept below the configured root, the resumable uploads with their
  temporary files, idempotent chunks and atomic commit, and the operations that make,
  remove and rename entries. The filesystem is the one of theory \<^verbatim>\<open>Filesystem\<close>; SHA-256
  and the UUID parser are arguments.
\<close>

section \<open>Errors\<close>

record FileServiceError =
  fe_code :: string
  fe_message :: string

type_synonym 'a fresult = "FileServiceError + 'a"

definition file_error :: "string \<Rightarrow> string \<Rightarrow> 'a fresult" where
  "file_error code message = Inl \<lparr> fe_code = code, fe_message = message \<rparr>"

fun io_code :: "ErrorKind \<Rightarrow> string" where
  "io_code NotFound = ''not_found''"
| "io_code AlreadyExists = ''conflict''"
| "io_code PermissionDenied = ''permission_denied''"
| "io_code InvalidInput = ''invalid''"
| "io_code OtherKind = ''filesystem''"

definition map_io :: "string \<Rightarrow> 'a io \<Rightarrow> 'a fresult" where
  "map_io action r = (case r of Inl k \<Rightarrow> file_error (io_code k) action | Inr x \<Rightarrow> Inr x)"

definition MAX_REMOTE_PATH_SIZE :: usize where
  "MAX_REMOTE_PATH_SIZE = 16 * 1024"

section \<open>State\<close>

datatype UploadState = UploadActive | UploadCompleted | UploadAborted

primrec UploadState_as_str :: "UploadState \<Rightarrow> string" where
  "UploadState_as_str UploadActive = ''active''"
| "UploadState_as_str UploadCompleted = ''completed''"
| "UploadState_as_str UploadAborted = ''aborted''"

record Upload =
  up_transfer_id :: string
  up_requested_path :: string
  up_target :: path
  up_temporary :: path
  up_size :: u64
  up_expected_sha256 :: bytes
  up_overwrite :: bool
  up_mode :: u32
  up_committed_offset :: u64
  up_state :: UploadState
  up_resources :: "PoolReservation list option"

record UploadStatusResponse =
  us_transfer_id :: string
  us_path :: string
  us_size :: u64
  us_committed_offset :: u64
  us_state :: string

definition Upload_status :: "Upload \<Rightarrow> UploadStatusResponse" where
  "Upload_status u = \<lparr> us_transfer_id = up_transfer_id u, us_path = up_requested_path u,
    us_size = up_size u, us_committed_offset = up_committed_offset u,
    us_state = UploadState_as_str (up_state u) \<rparr>"

record FileService =
  svc_root :: path
  svc_uploads :: "(string, Upload) btree"
  svc_resources :: ResourceAccount

text \<open>What the service works on: the filesystem and the quota pools besides its own state.\<close>

record file_world =
  fw_fs :: filesystem
  fw_store :: pool_store
  fw_service :: FileService

record BeginUploadRequest =
  bu_transfer_id :: string
  bu_path :: string
  bu_size :: u64
  bu_sha256 :: bytes
  bu_overwrite :: bool
  bu_mode :: u32

definition FileService_with_resources ::
  "os \<Rightarrow> filesystem \<Rightarrow> path \<Rightarrow> ResourceAccount \<Rightarrow> FileService fresult" where
  "FileService_with_resources os fs root resources =
    and_then (map_io ''invalid file root {}'' (fs_canonicalize os fs root)) (\<lambda>root.
      if \<not> is_directory os fs root then file_error ''invalid'' ''file root {} is not a directory''
      else Inr \<lparr> svc_root = root, svc_uploads = [], svc_resources = resources \<rparr>)"

section \<open>Resolving paths\<close>

definition requested_path :: "path \<Rightarrow> string \<Rightarrow> path fresult" where
  "requested_path root raw =
    (if MAX_REMOTE_PATH_SIZE < length raw \<or> CHR 0x00 \<in> set raw then
       file_error ''invalid'' ''remote path is invalid''
     else if raw = [] \<or> raw = ''.'' \<or> raw = ''~'' then Inr root
     else
       let raw = (case strip_prefix ''~/'' raw of Some remainder \<Rightarrow> remainder | None \<Rightarrow> raw);
           path = parse_path raw
       in if ParentDir \<in> set path then file_error ''invalid'' ''remote paths must not contain ..''
          else Inr (if path_is_absolute path then path else path_join root path))"

definition ensure_inside_root :: "path \<Rightarrow> path \<Rightarrow> unit fresult" where
  "ensure_inside_root root p =
    (if path_starts_with p root then Inr ()
     else file_error ''permission_denied'' ''path {} is outside configured file root {}'')"

definition resolve_existing :: "os \<Rightarrow> filesystem \<Rightarrow> path \<Rightarrow> string \<Rightarrow> bool \<Rightarrow> path fresult" where
  "resolve_existing os fs root raw follow_symlinks =
    and_then (requested_path root raw) (\<lambda>candidate.
    and_then
      (if follow_symlinks \<or> candidate = root then
         map_io ''cannot resolve {}'' (fs_canonicalize os fs candidate)
       else (case path_file_name candidate of
           None \<Rightarrow> file_error ''invalid'' ''remote path has no file name''
         | Some name \<Rightarrow>
             let parent = (case path_parent candidate of Some q \<Rightarrow> q | None \<Rightarrow> root)
             in and_then (map_io ''cannot resolve {}'' (fs_canonicalize os fs parent)) (\<lambda>parent.
                  Inr (path_join parent [Normal name])))) (\<lambda>resolved.
    and_then (ensure_inside_root root resolved) (\<lambda>_. Inr resolved)))"

definition resolve_new :: "os \<Rightarrow> filesystem \<Rightarrow> path \<Rightarrow> string \<Rightarrow> path fresult" where
  "resolve_new os fs root raw =
    and_then (requested_path root raw) (\<lambda>candidate.
      case Option.bind (path_file_name candidate)
          (\<lambda>name. if name \<noteq> ''.'' \<and> name \<noteq> ''..'' then Some name else None) of
        None \<Rightarrow> file_error ''invalid'' ''remote path has no file name''
      | Some name \<Rightarrow>
          let parent = (case path_parent candidate of Some q \<Rightarrow> q | None \<Rightarrow> root)
          in and_then (map_io ''cannot resolve {}'' (fs_canonicalize os fs parent)) (\<lambda>parent.
             and_then (ensure_inside_root root parent) (\<lambda>_.
               Inr (path_join parent [Normal name]))))"

section \<open>Uploads\<close>

definition validate_transfer_id :: "(string \<Rightarrow> string option) \<Rightarrow> string \<Rightarrow> unit fresult" where
  "validate_transfer_id parse_uuid transfer_id =
    (case parse_uuid transfer_id of
      None \<Rightarrow> file_error ''invalid'' ''transfer ID must be a UUID''
    | Some parsed \<Rightarrow> if parsed \<noteq> transfer_id
        then file_error ''invalid'' ''transfer ID must use canonical lowercase UUID form''
        else Inr ())"

definition validate_digest :: "bytes \<Rightarrow> bool \<Rightarrow> unit fresult" where
  "validate_digest digest optional =
    (if length digest = 32 \<or> optional \<and> digest = [] then Inr ()
     else file_error ''invalid'' ''SHA-256 digest must contain exactly 32 bytes'')"

definition upload_temporary_path :: "path \<Rightarrow> string \<Rightarrow> path fresult" where
  "upload_temporary_path target transfer_id =
    (case path_parent target of
      None \<Rightarrow> file_error ''invalid'' ''upload destination has no parent''
    | Some parent \<Rightarrow> Inr (path_join parent [Normal (''.astra-upload-'' @ transfer_id @ ''.part'')]))"

definition open_upload_file :: "os \<Rightarrow> path \<Rightarrow> filesystem \<Rightarrow> filesystem \<times> nat fresult" where
  "open_upload_file os p fs =
    (let (fs', r) = fs_open_create os 384 p fs
     in (fs', and_then (map_io ''cannot open upload {}'' r) (\<lambda>i.
          and_then (map_io ''cannot inspect upload {}'' (guarded os ''file_metadata'' p (Inr ()))) (\<lambda>_.
            if ino_kind (fs_inodes fs' ! i) \<noteq> KindFile
            then file_error ''invalid'' ''upload temporary path {} is not a file'' else Inr i))))"

definition sha256_file :: "(bytes \<Rightarrow> bytes) \<Rightarrow> os \<Rightarrow> filesystem \<Rightarrow> path \<Rightarrow> bytes fresult" where
  "sha256_file sha os fs p =
    and_then (map_io ''cannot open {} for checksum'' (fs_read_file os fs p)) (\<lambda>d. Inr (sha d))"

definition with_uploads :: "(string, Upload) btree \<Rightarrow> file_world \<Rightarrow> file_world" where
  "with_uploads m w = w \<lparr> fw_service := (fw_service w) \<lparr> svc_uploads := m \<rparr> \<rparr>"

text \<open>Forgetting the finished uploads drops what they still hold.\<close>

definition retain_active :: "file_world \<Rightarrow> file_world option" where
  "retain_active w =
    (let m = svc_uploads (fw_service w);
         gone = filter (\<lambda>(k, u). up_state u \<noteq> UploadActive) m;
         held = concat (map (\<lambda>(k, u). case up_resources u of Some rs \<Rightarrow> rs | None \<Rightarrow> []) gone)
     in map_option (\<lambda>store'. (with_uploads (filter (\<lambda>(k, u). up_state u = UploadActive) m) w)
            \<lparr> fw_store := store' \<rparr>)
          (drop_reservations (fw_store w) held))"

text \<open>The destination exists: an upload of the same file is complete at once, another one
  needs permission to overwrite. \<^const>\<open>Inr\<close> \<^const>\<open>None\<close> means that the upload goes on.\<close>

definition existing_target ::
  "(bytes \<Rightarrow> bytes) \<Rightarrow> os \<Rightarrow> filesystem \<Rightarrow> path \<Rightarrow> BeginUploadRequest \<Rightarrow> bool fresult" where
  "existing_target sha os fs target request =
    (if fs_exists os fs target then
       and_then (map_io ''cannot stat {}'' (fs_metadata os fs target)) (\<lambda>(i, n).
       and_then
         (if ino_kind n = KindFile \<and> length (ino_data n) = unat (bu_size request)
             \<and> length (bu_sha256 request) = 32 then
            and_then (sha256_file sha os fs target) (\<lambda>d. Inr (d = bu_sha256 request))
          else Inr False) (\<lambda>same.
       if same then Inr True
       else if \<not> bu_overwrite request then
         file_error ''conflict'' ''destination {} already exists''
       else Inr False))
     else Inr False)"

definition new_upload ::
  "BeginUploadRequest \<Rightarrow> path \<Rightarrow> path \<Rightarrow> u64 \<Rightarrow> UploadState \<Rightarrow> PoolReservation list option \<Rightarrow> Upload" where
  "new_upload request target temporary offset state resources =
    \<lparr> up_transfer_id = bu_transfer_id request, up_requested_path = bu_path request,
      up_target = target, up_temporary = temporary, up_size = bu_size request,
      up_expected_sha256 = bu_sha256 request, up_overwrite = bu_overwrite request,
      up_mode = bu_mode request AND 511, up_committed_offset = offset, up_state = state,
      up_resources = resources \<rparr>"

definition add_upload :: "Upload \<Rightarrow> file_world \<Rightarrow> file_world" where
  "add_upload u w = with_uploads (bt_insert (up_transfer_id u) u (svc_uploads (fw_service w))) w"

text \<open>The second half of \<^verbatim>\<open>begin_upload\<close>: reserve, open the temporary file, and continue
  where it ends. An error gives the reservation back.\<close>

definition start_upload ::
  "os \<Rightarrow> path \<Rightarrow> path \<Rightarrow> BeginUploadRequest \<Rightarrow> file_world
    \<Rightarrow> (file_world \<times> UploadStatusResponse fresult) option" where
  "start_upload os target temporary request w =
    (case ResourceAccount_reserve (fw_store w) (svc_resources (fw_service w))
        (ResourceClaim_upload (bu_size request)) of
      None \<Rightarrow> None
    | Some (store', Inl q) \<Rightarrow>
        Some (w \<lparr> fw_store := store' \<rparr>, file_error ''quota'' ''{scope} {resource} quota exceeded'')
    | Some (store', Inr resources) \<Rightarrow>
        let (fs', r) = open_upload_file os temporary (fw_fs w);
            w' = w \<lparr> fw_fs := fs', fw_store := store' \<rparr>;
            give_up = (\<lambda>e. map_option (\<lambda>s. (w' \<lparr> fw_store := s \<rparr>, Inl e))
              (drop_reservations store' resources))
        in (case r of
             Inl e \<Rightarrow> give_up e
           | Inr i \<Rightarrow>
               (case map_io ''cannot inspect upload {}'' (guarded os ''upload_metadata'' temporary
                   (Inr (length (ino_data (fs_inodes fs' ! i))))) of
                 Inl e \<Rightarrow> give_up e
               | Inr offset \<Rightarrow>
                   if unat (bu_size request) < offset then
                     give_up \<lparr> fe_code = ''conflict'', fe_message =
                       ''temporary upload has {committed_offset} bytes but expected size is {}'' \<rparr>
                   else
                     let u = new_upload request target temporary (word_of_nat offset) UploadActive
                       (Some resources)
                     in Some (add_upload u w', Inr (Upload_status u)))))"

definition begin_upload ::
  "os \<Rightarrow> (bytes \<Rightarrow> bytes) \<Rightarrow> (string \<Rightarrow> string option) \<Rightarrow> BeginUploadRequest \<Rightarrow> file_world
    \<Rightarrow> (file_world \<times> UploadStatusResponse fresult) option" where
  "begin_upload os sha parse_uuid request w =
    (case and_then (validate_transfer_id parse_uuid (bu_transfer_id request)) (\<lambda>_.
        and_then (validate_digest (bu_sha256 request) True) (\<lambda>_.
        and_then (resolve_new os (fw_fs w) (svc_root (fw_service w)) (bu_path request)) (\<lambda>target.
        and_then (upload_temporary_path target (bu_transfer_id request)) (\<lambda>temporary.
          Inr (target, temporary))))) of
      Inl e \<Rightarrow> Some (w, Inl e)
    | Inr (target, temporary) \<Rightarrow>
        (case bt_get (svc_uploads (fw_service w)) (bu_transfer_id request) of
          Some existing \<Rightarrow>
            Some (w, if up_target existing \<noteq> target \<or> up_size existing \<noteq> bu_size request
                \<or> up_expected_sha256 existing \<noteq> bu_sha256 request
              then file_error ''conflict'' ''transfer ID is already associated with a different upload''
              else Inr (Upload_status existing))
        | None \<Rightarrow>
            Option.bind (retain_active w) (\<lambda>w.
              case existing_target sha os (fw_fs w) target request of
                Inl e \<Rightarrow> Some (w, Inl e)
              | Inr True \<Rightarrow>
                  let u = new_upload request target temporary (bu_size request) UploadCompleted None
                  in Some (add_upload u w, Inr (Upload_status u))
              | Inr False \<Rightarrow> start_upload os target temporary request w)))"

definition query_upload ::
  "(string \<Rightarrow> string option) \<Rightarrow> string \<Rightarrow> file_world \<Rightarrow> UploadStatusResponse fresult" where
  "query_upload parse_uuid transfer_id w =
    and_then (validate_transfer_id parse_uuid transfer_id) (\<lambda>_.
      case bt_get (svc_uploads (fw_service w)) transfer_id of
        None \<Rightarrow> file_error ''not_found'' ''upload transfer is unknown''
      | Some u \<Rightarrow> Inr (Upload_status u))"

definition check_chunk_request ::
  "(bytes \<Rightarrow> bytes) \<Rightarrow> (string \<Rightarrow> string option) \<Rightarrow> WriteFileChunkRequest \<Rightarrow> unit fresult" where
  "check_chunk_request sha parse_uuid request =
    (if wc_encoding request \<noteq> 0 \<or> wc_uncompressed_size request \<noteq> 0 then
       file_error ''invalid'' ''file service requires decoded raw bytes''
     else and_then (validate_transfer_id parse_uuid (wc_transfer_id request)) (\<lambda>_.
       and_then (validate_digest (wc_sha256 request) False) (\<lambda>_.
       if wc_data request = [] then file_error ''invalid'' ''file chunk is empty''
       else if MAX_FILE_CHUNK_SIZE < length (wc_data request) then
         file_error ''invalid'' ''file chunk exceeds {MAX_FILE_CHUNK_SIZE} bytes''
       else if sha (wc_data request) \<noteq> wc_sha256 request then
         file_error ''checksum_mismatch'' ''file chunk SHA-256 does not match its payload''
       else Inr ())))"

text \<open>Writing a chunk to an active upload, whose end is already checked.\<close>

definition write_to_upload ::
  "os \<Rightarrow> WriteFileChunkRequest \<Rightarrow> u64 \<Rightarrow> Upload \<Rightarrow> file_world
    \<Rightarrow> file_world \<times> UploadStatusResponse fresult" where
  "write_to_upload os request end_offset u w =
    (let (fs1, opened) = open_upload_file os (up_temporary u) (fw_fs w);
         w1 = w \<lparr> fw_fs := fs1 \<rparr>
     in case opened of
          Inl e \<Rightarrow> (w1, Inl e)
        | Inr i \<Rightarrow>
            if wc_offset request < up_committed_offset u then
              (w1,
               if up_committed_offset u < end_offset then
                 file_error ''conflict'' ''file chunk partially overlaps the committed prefix''
               else and_then (map_io ''cannot read upload at offset {offset}''
                   (fs_read_exact os (up_temporary u) i (unat (wc_offset request))
                     (length (wc_data request)) fs1)) (\<lambda>existing.
                 if existing \<noteq> wc_data request then
                   file_error ''conflict'' ''replayed file chunk differs from committed data''
                 else Inr (Upload_status u)))
            else if wc_offset request \<noteq> up_committed_offset u then
              (w1, file_error ''conflict'' ''expected upload offset {}, received {}'')
            else
              let (fs2, written) = fs_write_all os (up_temporary u) i (unat (wc_offset request))
                    (wc_data request) fs1;
                  w2 = w1 \<lparr> fw_fs := fs2 \<rparr>
              in (case map_io ''cannot write upload at offset {offset}'' written of
                   Inl e \<Rightarrow> (w2, Inl e)
                 | Inr _ \<Rightarrow>
                     let u' = u \<lparr> up_committed_offset := end_offset \<rparr>
                     in (with_uploads (bt_insert (wc_transfer_id request) u'
                          (svc_uploads (fw_service w2))) w2, Inr (Upload_status u'))))"

definition write_chunk ::
  "os \<Rightarrow> (bytes \<Rightarrow> bytes) \<Rightarrow> (string \<Rightarrow> string option) \<Rightarrow> WriteFileChunkRequest \<Rightarrow> file_world
    \<Rightarrow> file_world \<times> UploadStatusResponse fresult" where
  "write_chunk os sha parse_uuid request w =
    (case check_chunk_request sha parse_uuid request of
      Inl e \<Rightarrow> (w, Inl e)
    | Inr _ \<Rightarrow>
        (case bt_get (svc_uploads (fw_service w)) (wc_transfer_id request) of
          None \<Rightarrow> (w, file_error ''not_found'' ''upload transfer is unknown'')
        | Some u \<Rightarrow>
            if up_state u = UploadCompleted then (w, Inr (Upload_status u))
            else if up_state u \<noteq> UploadActive then
              (w, file_error ''conflict'' ''upload was aborted'')
            else (case checked_add (wc_offset request) (word_of_nat (length (wc_data request))) of
                None \<Rightarrow> (w, file_error ''invalid'' ''file chunk offset overflow'')
              | Some end_offset \<Rightarrow>
                  if up_size u < end_offset then
                    (w, file_error ''invalid'' ''file chunk extends beyond the declared upload size'')
                  else write_to_upload os request end_offset u w)))"

text \<open>Publishing the synchronised temporary file under its destination name.\<close>

definition publish :: "os \<Rightarrow> Upload \<Rightarrow> filesystem \<Rightarrow> filesystem \<times> unit fresult" where
  "publish os u fs =
    (if up_overwrite u then
       (let (fs', r) = fs_rename os (up_temporary u) (up_target u) fs
        in (fs', map_io ''cannot commit upload {} to {}'' r))
     else
       (let (fs1, r1) = fs_hard_link os (up_temporary u) (up_target u) fs
        in case map_io ''cannot commit upload {} to {} without overwriting'' r1 of
             Inl e \<Rightarrow> (fs1, Inl e)
           | Inr _ \<Rightarrow>
               let (fs2, r2) = fs_remove_file os (up_temporary u) fs1
               in (fs2, map_io ''upload was published but temporary name {} could not be removed'' r2)))"

definition sync_and_publish :: "os \<Rightarrow> Upload \<Rightarrow> filesystem \<Rightarrow> filesystem \<times> unit fresult" where
  "sync_and_publish os u fs =
    (let (fs1, opened) = open_upload_file os (up_temporary u) fs
     in case and_then opened (\<lambda>i. map_io ''cannot sync upload {}''
            (guarded os ''sync_all'' (up_temporary u) (Inr ()))) of
          Inl e \<Rightarrow> (fs1, Inl e)
        | Inr _ \<Rightarrow>
            let (fs2, r2) = (if up_mode u \<noteq> 0
                  then fs_set_permissions os (up_temporary u) (up_mode u) fs1 else (fs1, Inr ()))
            in (case map_io ''cannot set permissions on {}'' r2 of
                 Inl e \<Rightarrow> (fs2, Inl e)
               | Inr _ \<Rightarrow> publish os u fs2))"

definition commit_upload ::
  "os \<Rightarrow> (bytes \<Rightarrow> bytes) \<Rightarrow> (string \<Rightarrow> string option) \<Rightarrow> string \<Rightarrow> file_world
    \<Rightarrow> (file_world \<times> UploadStatusResponse fresult) option" where
  "commit_upload os sha parse_uuid transfer_id w =
    (case validate_transfer_id parse_uuid transfer_id of
      Inl e \<Rightarrow> Some (w, Inl e)
    | Inr _ \<Rightarrow>
        (case bt_get (svc_uploads (fw_service w)) transfer_id of
          None \<Rightarrow> Some (w, file_error ''not_found'' ''upload transfer is unknown'')
        | Some u \<Rightarrow>
            if up_state u = UploadCompleted then Some (w, Inr (Upload_status u))
            else if up_state u \<noteq> UploadActive then
              Some (w, file_error ''conflict'' ''upload was aborted'')
            else if up_committed_offset u \<noteq> up_size u then
              Some (w, file_error ''conflict'' ''upload is incomplete: committed {} of {} bytes'')
            else (case (if length (up_expected_sha256 u) = 32 then
                  and_then (sha256_file sha os (fw_fs w) (up_temporary u)) (\<lambda>d.
                    if d \<noteq> up_expected_sha256 u then
                      file_error ''checksum_mismatch'' ''complete upload SHA-256 does not match''
                    else Inr ())
                else Inr ()) of
                Inl e \<Rightarrow> Some (w, Inl e)
              | Inr _ \<Rightarrow>
                  if fs_exists os (fw_fs w) (up_target u) \<and> \<not> up_overwrite u then
                    Some (w, file_error ''conflict'' ''destination {} already exists'')
                  else
                    let (fs', r) = sync_and_publish os u (fw_fs w);
                        w' = w \<lparr> fw_fs := fs' \<rparr>
                    in (case r of
                         Inl e \<Rightarrow> Some (w', Inl e)
                       | Inr _ \<Rightarrow>
                           let u' = u \<lparr> up_state := UploadCompleted, up_resources := None \<rparr>
                           in map_option (\<lambda>s. (with_uploads (bt_insert transfer_id u'
                                  (svc_uploads (fw_service w'))) (w' \<lparr> fw_store := s \<rparr>),
                                Inr (Upload_status u')))
                              (drop_reservations (fw_store w')
                                (case up_resources u of Some rs \<Rightarrow> rs | None \<Rightarrow> []))))))"

definition abort_upload ::
  "os \<Rightarrow> (string \<Rightarrow> string option) \<Rightarrow> string \<Rightarrow> file_world
    \<Rightarrow> (file_world \<times> UploadStatusResponse fresult) option" where
  "abort_upload os parse_uuid transfer_id w =
    (case validate_transfer_id parse_uuid transfer_id of
      Inl e \<Rightarrow> Some (w, Inl e)
    | Inr _ \<Rightarrow>
        (case bt_get (svc_uploads (fw_service w)) transfer_id of
          None \<Rightarrow> Some (w, file_error ''not_found'' ''upload transfer is unknown'')
        | Some u \<Rightarrow>
            if up_state u = UploadActive then
              let (fs', r) = fs_remove_file os (up_temporary u) (fw_fs w);
                  w' = w \<lparr> fw_fs := fs' \<rparr>
              in if (case r of Inr _ \<Rightarrow> True | Inl k \<Rightarrow> k = NotFound) then
                   let u' = u \<lparr> up_state := UploadAborted, up_resources := None \<rparr>
                   in map_option (\<lambda>s. (with_uploads (bt_insert transfer_id u'
                          (svc_uploads (fw_service w'))) (w' \<lparr> fw_store := s \<rparr>),
                        Inr (Upload_status u')))
                      (drop_reservations (fw_store w')
                        (case up_resources u of Some rs \<Rightarrow> rs | None \<Rightarrow> []))
                 else Some (w', and_then (map_io ''cannot remove upload {}'' r)
                   (\<lambda>_. Inr (Upload_status u)))
            else Some (w, Inr (Upload_status u))))"

section \<open>Entries\<close>

definition make_directory :: "os \<Rightarrow> string \<Rightarrow> file_world \<Rightarrow> file_world \<times> unit fresult" where
  "make_directory os raw w =
    (case resolve_new os (fw_fs w) (svc_root (fw_service w)) raw of
      Inl e \<Rightarrow> (w, Inl e)
    | Inr p \<Rightarrow>
        let (fs', r) = fs_create_dir os p (fw_fs w)
        in (w \<lparr> fw_fs := fs' \<rparr>, map_io ''cannot create directory {}'' r))"

definition remove_entry :: "os \<Rightarrow> string \<Rightarrow> file_world \<Rightarrow> file_world \<times> unit fresult" where
  "remove_entry os raw w =
    (case resolve_existing os (fw_fs w) (svc_root (fw_service w)) raw False of
      Inl e \<Rightarrow> (w, Inl e)
    | Inr p \<Rightarrow>
        if p = svc_root (fw_service w) then (w, file_error ''invalid'' ''cannot remove file root'')
        else (case map_io ''cannot stat {}'' (fs_symlink_metadata os (fw_fs w) p) of
            Inl e \<Rightarrow> (w, Inl e)
          | Inr (i, n) \<Rightarrow>
              let (fs', r) = (if ino_kind n = KindDir then fs_remove_dir os p (fw_fs w)
                    else fs_remove_file os p (fw_fs w))
              in (w \<lparr> fw_fs := fs' \<rparr>, map_io ''cannot remove {}'' r)))"

definition rename_entry :: "os \<Rightarrow> string \<Rightarrow> string \<Rightarrow> bool \<Rightarrow> file_world \<Rightarrow> file_world \<times> unit fresult" where
  "rename_entry os source destination overwrite w =
    (case and_then (resolve_existing os (fw_fs w) (svc_root (fw_service w)) source False) (\<lambda>s.
        and_then (resolve_new os (fw_fs w) (svc_root (fw_service w)) destination) (\<lambda>d. Inr (s, d))) of
      Inl e \<Rightarrow> (w, Inl e)
    | Inr (s, d) \<Rightarrow>
        if s = svc_root (fw_service w) then (w, file_error ''invalid'' ''cannot rename file root'')
        else if fs_exists os (fw_fs w) d \<and> \<not> overwrite then
          (w, file_error ''conflict'' ''destination {} already exists'')
        else
          let (fs', r) = fs_rename os s d (fw_fs w)
          in (w \<lparr> fw_fs := fs' \<rparr>, map_io ''cannot rename {} to {}'' r))"

section \<open>Everything stays below the root\<close>

text \<open>The requests that change something, each with the behaviour of the operating system
  while it runs.\<close>

datatype file_op =
    BeginUpload os BeginUploadRequest
  | WriteChunk os WriteFileChunkRequest
  | CommitUpload os string
  | AbortUpload os string
  | MakeDirectory os string
  | RemoveEntry os string
  | RenameEntry os string string bool

fun file_step ::
  "(bytes \<Rightarrow> bytes) \<Rightarrow> (string \<Rightarrow> string option) \<Rightarrow> file_op \<Rightarrow> file_world \<Rightarrow> file_world option" where
  "file_step sha p (BeginUpload os request) w = map_option fst (begin_upload os sha p request w)"
| "file_step sha p (WriteChunk os request) w = Some (fst (write_chunk os sha p request w))"
| "file_step sha p (CommitUpload os i) w = map_option fst (commit_upload os sha p i w)"
| "file_step sha p (AbortUpload os i) w = map_option fst (abort_upload os p i w)"
| "file_step sha p (MakeDirectory os raw) w = Some (fst (make_directory os raw w))"
| "file_step sha p (RemoveEntry os raw) w = Some (fst (remove_entry os raw w))"
| "file_step sha p (RenameEntry os s d overwrite) w = Some (fst (rename_entry os s d overwrite w))"

fun file_run ::
  "(bytes \<Rightarrow> bytes) \<Rightarrow> (string \<Rightarrow> string option) \<Rightarrow> file_op list \<Rightarrow> file_world \<Rightarrow> file_world option" where
  "file_run sha p [] w = Some w"
| "file_run sha p (op # ops) w = Option.bind (file_step sha p op w) (file_run sha p ops)"

definition root_of :: "file_world \<Rightarrow> path" where
  "root_of w = svc_root (fw_service w)"

definition upload_inside :: "path \<Rightarrow> Upload \<Rightarrow> bool" where
  "upload_inside root u \<longleftrightarrow> inside root (up_target u) \<and> inside root (up_temporary u)"

definition uploads_inside :: "file_world \<Rightarrow> bool" where
  "uploads_inside w \<longleftrightarrow> (\<forall>u \<in> snd ` set (svc_uploads (fw_service w)). upload_inside (root_of w) u)"

text \<open>What a step keeps: the root, the place of the uploads, and the world outside.\<close>

definition step_inside :: "file_world \<Rightarrow> file_world \<Rightarrow> bool" where
  "step_inside w w' \<longleftrightarrow> root_of w' = root_of w \<and> uploads_inside w'
    \<and> confined (root_of w) (fw_fs w) (fw_fs w')"

lemma map_io_Inr [result_simps]: "map_io action r = Inr x \<longleftrightarrow> r = Inr x"
  by (cases r) (auto simp: map_io_def file_error_def)

lemma file_error_Inr [simp]: "file_error c m = Inr x \<longleftrightarrow> False" "Inr x = file_error c m \<longleftrightarrow> False"
  by (simp_all add: file_error_def)

lemma bt_insert_values: "snd ` set (bt_insert k v m) \<subseteq> insert v (snd ` set m)"
  by (induction k v m rule: bt_insert.induct) auto

lemma bt_get_member: "bt_get m k = Some v \<Longrightarrow> v \<in> snd ` set m"
  unfolding bt_get_def by (force dest: map_of_SomeD)

lemma join_name: "p \<noteq> [] \<Longrightarrow> path_join p [Normal name] = p @ [Normal name]"
  by (simp add: path_join_def path_is_absolute_def)

lemma fs_canonicalize_canonical: "fs_canonicalize os fs p = Inr q \<Longrightarrow> canonical q"
  by (auto simp: fs_canonicalize_def guarded_def result_simps split: option.splits if_splits
      dest: fs_resolve_canonical)

lemma canonical_nonempty: "canonical p \<Longrightarrow> p \<noteq> []"
  by (auto simp: canonical_def)

lemma canonical_join: "canonical p \<Longrightarrow> canonical (path_join p [Normal name])"
  by (simp add: join_name canonical_nonempty)

lemma resolve_existing_inside:
  "resolve_existing os fs root raw follow = Inr p \<Longrightarrow> inside root p"
  by (auto simp: resolve_existing_def ensure_inside_root_def inside_def Let_def result_simps
      split: if_splits option.splits dest!: fs_canonicalize_canonical intro: canonical_join)

lemma resolve_new_inside:
  assumes "resolve_new os fs root raw = Inr p"
  obtains parent name where "p = parent @ [Normal name]" "inside root parent"
proof -
  obtain parent name where p: "p = path_join parent [Normal name]" "path_starts_with parent root"
    "canonical parent"
    using assms(1) unfolding resolve_new_def
    by (auto simp: ensure_inside_root_def Let_def result_simps split: option.splits if_splits
        dest!: fs_canonicalize_canonical)
  then show thesis using that [of parent name] by (simp add: join_name canonical_nonempty inside_def)
qed

lemma resolve_new_starts: "resolve_new os fs root raw = Inr p \<Longrightarrow> inside root p"
  by (erule resolve_new_inside) simp

lemma temporary_inside:
  assumes "resolve_new os fs root raw = Inr target"
    and "upload_temporary_path target transfer_id = Inr temporary"
  shows "inside root temporary"
proof -
  obtain parent name where t: "target = parent @ [Normal name]" "inside root parent"
    by (rule resolve_new_inside [OF assms(1)])
  then have "temporary = parent @ [Normal (''.astra-upload-'' @ transfer_id @ ''.part'')]"
    using assms(2) by (auto simp: upload_temporary_path_def path_parent_def join_name inside_def
        canonical_nonempty)
  then show ?thesis using t(2) by simp
qed

lemma open_upload_confined:
  assumes "open_upload_file os p fs = (fs', r)" "inside root p"
  shows "confined root fs fs'"
  using assms confined_calls(1) [OF assms(2), of fs os 384]
  by (auto simp: open_upload_file_def split: prod.splits)

lemma open_upload_member:
  assumes "open_upload_file os p fs = (fs', Inr i)" "separated root fs" "inside root p"
  shows "(p, i) \<in> set (fs_names fs')"
  using assms(1) opened_member [OF _ assms(2,3), of os 384]
  by (auto simp: open_upload_file_def result_simps split: prod.splits if_splits)

lemma with_uploads_simps [simp]:
  "fw_fs (with_uploads m w) = fw_fs w" "fw_store (with_uploads m w) = fw_store w"
  "svc_root (fw_service (with_uploads m w)) = svc_root (fw_service w)"
  "svc_uploads (fw_service (with_uploads m w)) = m" "root_of (with_uploads m w) = root_of w"
  by (simp_all add: with_uploads_def root_of_def)

lemma root_of_update [simp]:
  "root_of (w \<lparr> fw_fs := fs \<rparr>) = root_of w" "root_of (w \<lparr> fw_store := s \<rparr>) = root_of w"
  by (simp_all add: root_of_def)

lemma uploads_inside_update [simp]:
  "uploads_inside (w \<lparr> fw_fs := fs \<rparr>) = uploads_inside w"
  "uploads_inside (w \<lparr> fw_store := s \<rparr>) = uploads_inside w"
  by (simp_all add: uploads_inside_def)

lemma uploads_inside_with:
  "uploads_inside (with_uploads m w) \<longleftrightarrow> (\<forall>u \<in> snd ` set m. upload_inside (root_of w) u)"
  by (simp add: uploads_inside_def)

lemma uploads_inside_insert:
  assumes "uploads_inside w" "upload_inside (root_of w) u"
  shows "uploads_inside (with_uploads (bt_insert k u (svc_uploads (fw_service w))) w)"
  unfolding uploads_inside_with
proof (rule ballI)
  fix v assume "v \<in> snd ` set (bt_insert k u (svc_uploads (fw_service w)))"
  then have "v \<in> insert u (snd ` set (svc_uploads (fw_service w)))"
    by (rule subsetD [OF bt_insert_values])
  then show "upload_inside (root_of w) v" using assms unfolding uploads_inside_def by (metis insertE)
qed

lemma uploads_inside_get:
  assumes "uploads_inside w" "bt_get (svc_uploads (fw_service w)) k = Some u"
  shows "upload_inside (root_of w) u"
  using assms(1) bt_get_member [OF assms(2)] unfolding uploads_inside_def by (rule bspec)

lemma step_inside_refl [simp]: "uploads_inside w \<Longrightarrow> step_inside w w"
  by (simp add: step_inside_def)

lemma step_inside_fs:
  "uploads_inside w \<Longrightarrow> confined (root_of w) (fw_fs w) fs' \<Longrightarrow> step_inside w (w \<lparr> fw_fs := fs' \<rparr>)"
  by (simp add: step_inside_def)

lemma inserted_inside:
  assumes "uploads_inside w" "upload_inside (root_of w) u"
  shows "\<forall>x \<in> set (bt_insert k u (svc_uploads (fw_service w))). upload_inside (root_of w) (snd x)"
  using uploads_inside_insert [OF assms, of k] by (simp add: uploads_inside_with)

lemma start_upload_inside:
  assumes "start_upload os target temporary request w = Some (w', r)" "uploads_inside w"
    and "inside (root_of w) target" "inside (root_of w) temporary"
  shows "step_inside w w'"
proof -
  obtain fs' r' where o: "open_upload_file os temporary (fw_fs w) = (fs', r')" by fastforce
  have c: "confined (root_of w) (fw_fs w) fs'" by (rule open_upload_confined [OF o assms(4)])
  have u: "upload_inside (root_of w) (new_upload request target temporary offset state res)"
    for offset state res using assms(3,4) by (simp add: upload_inside_def new_upload_def)
  show ?thesis
    using assms(1,2) c inserted_inside [OF assms(2) u]
    by (auto simp: start_upload_def o step_inside_def add_upload_def uploads_inside_with Let_def
        split: option.splits sum.splits prod.splits if_splits)
qed

lemma retain_active_inside:
  assumes "retain_active w = Some w'" "uploads_inside w"
  shows "step_inside w w'" "fw_fs w' = fw_fs w"
  using assms
  by (auto simp: retain_active_def step_inside_def uploads_inside_with Let_def)
    (auto simp: uploads_inside_def)

lemma begin_upload_inside:
  assumes "begin_upload os sha p request w = Some (w', r)" "uploads_inside w"
  shows "step_inside w w'"
proof (cases "and_then (validate_transfer_id p (bu_transfer_id request)) (\<lambda>_.
        and_then (validate_digest (bu_sha256 request) True) (\<lambda>_.
        and_then (resolve_new os (fw_fs w) (svc_root (fw_service w)) (bu_path request)) (\<lambda>target.
        and_then (upload_temporary_path target (bu_transfer_id request)) (\<lambda>temporary.
          Inr (target, temporary)))))")
  case (Inl e)
  then show ?thesis using assms(1,2) by (auto simp: begin_upload_def)
next
  case (Inr tt)
  obtain target temporary where tt: "tt = (target, temporary)" by fastforce
  have rn: "resolve_new os (fw_fs w) (root_of w) (bu_path request) = Inr target"
    and tp: "upload_temporary_path target (bu_transfer_id request) = Inr temporary"
    using Inr tt by (auto simp: result_simps root_of_def)
  have target: "inside (root_of w) target" by (rule resolve_new_starts [OF rn])
  have temporary: "inside (root_of w) temporary" by (rule temporary_inside [OF rn tp])
  show ?thesis
  proof (cases "bt_get (svc_uploads (fw_service w)) (bu_transfer_id request)")
    case (Some existing)
    then show ?thesis using assms(1,2) Inr tt by (auto simp: begin_upload_def)
  next
    case None
    then obtain w1 where w1: "retain_active w = Some w1"
      using assms(1) Inr tt by (auto simp: begin_upload_def bind_eq_Some_conv)
    note i1 = retain_active_inside [OF w1 assms(2)]
    have ui: "uploads_inside w1" and r1: "root_of w1 = root_of w" using i1 by (simp_all add: step_inside_def)
    have u: "upload_inside (root_of w1) (new_upload request target temporary offset state res)"
      for offset state res using target temporary by (simp add: upload_inside_def new_upload_def r1)
    have rest: "(case existing_target sha os (fw_fs w1) target request of
        Inl e \<Rightarrow> Some (w1, Inl e)
      | Inr True \<Rightarrow>
          let u = new_upload request target temporary (bu_size request) UploadCompleted None
          in Some (add_upload u w1, Inr (Upload_status u))
      | Inr False \<Rightarrow> start_upload os target temporary request w1) = Some (w', r)"
      using assms(1) Inr tt None w1 by (simp add: begin_upload_def)
    have "step_inside w1 w'"
    proof (cases "existing_target sha os (fw_fs w1) target request")
      case (Inl e)
      then show ?thesis using rest ui by auto
    next
      case (Inr b)
      show ?thesis
      proof (cases b)
        case True
        then show ?thesis
          using rest Inr ui inserted_inside [OF ui u]
          by (auto simp: step_inside_def add_upload_def uploads_inside_with Let_def)
      next
        case False
        then show ?thesis
          using rest Inr start_upload_inside [OF _ ui] target temporary by (auto simp: r1)
      qed
    qed
    then show ?thesis using i1(1) confined_trans by (auto simp: step_inside_def i1(2))
  qed
qed

lemma write_to_upload_inside:
  assumes "uploads_inside w" "upload_inside (root_of w) u"
  shows "step_inside w (fst (write_to_upload os request end_offset u w))"
proof -
  obtain fs1 opened where o: "open_upload_file os (up_temporary u) (fw_fs w) = (fs1, opened)" by fastforce
  have t: "inside (root_of w) (up_temporary u)" using assms(2) by (simp add: upload_inside_def)
  have c: "confined (root_of w) (fw_fs w) fs1" by (rule open_upload_confined [OF o t])
  show ?thesis
  proof (cases opened)
    case (Inl e)
    then show ?thesis using c assms(1) by (simp add: write_to_upload_def o step_inside_def)
  next
    case (Inr i)
    obtain fs2 written where wr: "fs_write_all os (up_temporary u) i (unat (wc_offset request))
        (wc_data request) fs1 = (fs2, written)" by fastforce
    have c2: "confined (root_of w) (fw_fs w) fs2"
    proof (cases "separated (root_of w) (fw_fs w)")
      case True
      have "(up_temporary u, i) \<in> set (fs_names fs1)"
        by (rule open_upload_member [OF o [unfolded Inr] True t])
      moreover have "path_starts_with (up_temporary u) (root_of w)" using t by (simp add: inside_def)
      ultimately have "confined (root_of w) fs1 fs2" using confined_write wr by (metis fst_conv)
      then show ?thesis by (rule confined_trans [OF c])
    qed (simp add: confined_def)
    have u': "upload_inside (root_of w) (u \<lparr> up_committed_offset := end_offset \<rparr>)"
      using assms(2) by (simp add: upload_inside_def)
    have wr': "wc_offset request = up_committed_offset u \<Longrightarrow> fs_write_all os (up_temporary u) i
        (unat (up_committed_offset u)) (wc_data request) fs1 = (fs2, written)" using wr by simp
    show ?thesis
      using c c2 assms(1) inserted_inside [OF assms(1) u']
      by (auto simp: write_to_upload_def o Inr wr' step_inside_def uploads_inside_with Let_def
          split: sum.split)
  qed
qed

lemma write_chunk_inside:
  assumes "uploads_inside w"
  shows "step_inside w (fst (write_chunk os sha p request w))"
  using assms write_to_upload_inside [OF assms uploads_inside_get [OF assms]]
  by (auto simp: write_chunk_def split: sum.split option.split)

lemma publish_confined:
  assumes "upload_inside root u"
  shows "confined root fs (fst (publish os u fs))"
proof -
  have i: "inside root (up_target u)" "inside root (up_temporary u)"
    using assms by (simp_all add: upload_inside_def)
  obtain fs1 r1 where l: "fs_hard_link os (up_temporary u) (up_target u) fs = (fs1, r1)" by fastforce
  obtain fs2 r2 where d: "fs_remove_file os (up_temporary u) fs1 = (fs2, r2)" by fastforce
  have "confined root fs fs1" using confined_calls(4) [OF i(2,1), of fs os] l by (metis fst_conv)
  moreover have "confined root fs1 fs2" using confined_calls(5) [OF i(2), of fs1 os] d by (metis fst_conv)
  ultimately show ?thesis
    using confined_calls(3) [OF i(2,1), of fs os] confined_trans
    by (auto simp: publish_def l d Let_def split: sum.split prod.splits)
qed

lemma sync_and_publish_confined:
  assumes "upload_inside root u"
  shows "confined root fs (fst (sync_and_publish os u fs))"
proof -
  have i: "inside root (up_temporary u)" using assms by (simp add: upload_inside_def)
  obtain fs1 opened where o: "open_upload_file os (up_temporary u) fs = (fs1, opened)" by fastforce
  obtain fs2 r2 where s: "(if up_mode u \<noteq> 0 then fs_set_permissions os (up_temporary u) (up_mode u) fs1
      else (fs1, Inr ())) = (fs2, r2)" by fastforce
  have c1: "confined root fs fs1" by (rule open_upload_confined [OF o i])
  have "confined root fs1 fs2"
    using confined_calls(2) [OF i, of fs1 os "up_mode u"] s by (auto split: if_splits)
  then have c2: "confined root fs fs2" by (rule confined_trans [OF c1])
  have c3: "confined root fs (fst (publish os u fs2))"
    by (rule confined_trans [OF c2 publish_confined [OF assms]])
  show ?thesis
    using c1 c2 c3 unfolding sync_and_publish_def o Let_def prod.case s
    by (auto split: sum.split)
qed

lemma commit_upload_inside:
  assumes "commit_upload os sha p transfer_id w = Some (w', r)" "uploads_inside w"
  shows "step_inside w w'"
proof (cases "validate_transfer_id p transfer_id")
  case (Inl e)
  then show ?thesis using assms by (auto simp: commit_upload_def)
next
  case v: (Inr v)
  show ?thesis
  proof (cases "bt_get (svc_uploads (fw_service w)) transfer_id")
    case None
    then show ?thesis using assms v by (auto simp: commit_upload_def)
  next
    case (Some u)
    have u: "upload_inside (root_of w) u" by (rule uploads_inside_get [OF assms(2) Some])
    obtain fs' r' where s: "sync_and_publish os u (fw_fs w) = (fs', r')" by fastforce
    have c: "confined (root_of w) (fw_fs w) fs'"
      using sync_and_publish_confined [OF u, of "fw_fs w" os] s by simp
    have u': "upload_inside (root_of w) (u \<lparr> up_state := UploadCompleted, up_resources := None \<rparr>)"
      using u by (simp add: upload_inside_def)
    show ?thesis
      using assms v Some c inserted_inside [OF assms(2) u', of transfer_id]
      by (auto simp: commit_upload_def s Let_def step_inside_def uploads_inside_with
          split: if_splits sum.splits)
  qed
qed

lemma abort_upload_inside:
  assumes "abort_upload os p transfer_id w = Some (w', r)" "uploads_inside w"
  shows "step_inside w w'"
proof (cases "validate_transfer_id p transfer_id")
  case (Inl e)
  then show ?thesis using assms by (auto simp: abort_upload_def)
next
  case v: (Inr v)
  show ?thesis
  proof (cases "bt_get (svc_uploads (fw_service w)) transfer_id")
    case None
    then show ?thesis using assms v by (auto simp: abort_upload_def)
  next
    case (Some u)
    have u: "upload_inside (root_of w) u" by (rule uploads_inside_get [OF assms(2) Some])
    obtain fs' r' where s: "fs_remove_file os (up_temporary u) (fw_fs w) = (fs', r')" by fastforce
    have "inside (root_of w) (up_temporary u)" using u by (simp add: upload_inside_def)
    then have c: "confined (root_of w) (fw_fs w) fs'"
      using confined_calls(5) [of "root_of w" "up_temporary u" "fw_fs w" os] s by simp
    have u': "upload_inside (root_of w) (u \<lparr> up_state := UploadAborted, up_resources := None \<rparr>)"
      using u by (simp add: upload_inside_def)
    show ?thesis
      using assms v Some c inserted_inside [OF assms(2) u', of transfer_id]
      by (auto simp: abort_upload_def s Let_def step_inside_def uploads_inside_with
          split: if_splits sum.splits)
  qed
qed

lemma make_directory_inside:
  assumes "uploads_inside w"
  shows "step_inside w (fst (make_directory os raw w))"
proof (cases "resolve_new os (fw_fs w) (svc_root (fw_service w)) raw")
  case (Inr p)
  then have "inside (root_of w) p" using resolve_new_starts by (simp add: root_of_def)
  then have "confined (root_of w) (fw_fs w) (fst (fs_create_dir os p (fw_fs w)))" by (rule confined_calls)
  then show ?thesis
    using Inr assms(1) by (auto simp: make_directory_def step_inside_def split: prod.splits)
qed (use assms in \<open>simp add: make_directory_def\<close>)

lemma remove_entry_inside:
  assumes "uploads_inside w"
  shows "step_inside w (fst (remove_entry os raw w))"
proof (cases "resolve_existing os (fw_fs w) (svc_root (fw_service w)) raw False")
  case (Inr p)
  then have "inside (root_of w) p" using resolve_existing_inside by (simp add: root_of_def)
  then have "confined (root_of w) (fw_fs w) (fst (fs_remove_dir os p (fw_fs w)))"
    "confined (root_of w) (fw_fs w) (fst (fs_remove_file os p (fw_fs w)))"
    by (rule confined_calls)+
  then show ?thesis
    using Inr assms(1) by (auto simp: remove_entry_def step_inside_def split: prod.splits sum.split)
qed (use assms in \<open>simp add: remove_entry_def\<close>)

lemma rename_entry_inside:
  assumes "uploads_inside w"
  shows "step_inside w (fst (rename_entry os source destination overwrite w))"
proof (cases "and_then (resolve_existing os (fw_fs w) (svc_root (fw_service w)) source False) (\<lambda>s.
        and_then (resolve_new os (fw_fs w) (svc_root (fw_service w)) destination) (\<lambda>d. Inr (s, d)))")
  case (Inr sd)
  obtain s d where sd: "sd = (s, d)" by fastforce
  have "inside (root_of w) s" "inside (root_of w) d"
    using Inr sd resolve_existing_inside resolve_new_starts
    by (auto simp: result_simps root_of_def)
  then have "confined (root_of w) (fw_fs w) (fst (fs_rename os s d (fw_fs w)))" by (rule confined_calls)
  then show ?thesis
    using Inr sd assms(1) by (auto simp: rename_entry_def step_inside_def split: prod.splits)
qed (use assms in \<open>simp add: rename_entry_def\<close>)

lemma file_step_inside:
  assumes "file_step sha p op w = Some w'" "uploads_inside w"
  shows "step_inside w w'"
proof (cases op)
  case (BeginUpload os request)
  then show ?thesis using assms begin_upload_inside by fastforce
next
  case (CommitUpload os i)
  then show ?thesis using assms commit_upload_inside by fastforce
next
  case (AbortUpload os i)
  then show ?thesis using assms abort_upload_inside by fastforce
qed (use assms write_chunk_inside make_directory_inside remove_entry_inside rename_entry_inside in auto)

lemma file_run_inside:
  assumes "file_run sha p ops w = Some w'" "uploads_inside w"
  shows "step_inside w w'"
  using assms
proof (induction ops arbitrary: w)
  case (Cons op ops)
  then obtain w1 where w1: "file_step sha p op w = Some w1" "file_run sha p ops w1 = Some w'"
    by (auto simp: bind_eq_Some_conv)
  have s1: "step_inside w w1" by (rule file_step_inside [OF w1(1) Cons.prems(2)])
  then have "step_inside w1 w'"
    using Cons.IH [OF w1(2)] by (simp add: step_inside_def)
  with s1 show ?case using confined_trans by (auto simp: step_inside_def)
qed simp

section \<open>A concrete service\<close>

definition demo_os :: os where
  "demo_os = \<lparr> os_fault = (\<lambda>_ _. None), os_time = (0, 0), os_written = 0,
    os_device = 0, os_short_read = (\<lambda>_. 1) \<rparr>"

definition demo_node :: "inode_kind \<Rightarrow> path \<Rightarrow> inode" where
  "demo_node kind link = \<lparr> ino_kind = kind, ino_data = [], ino_link = link, ino_mode = 0,
    ino_mtime = 0, ino_mtime_nsec = 0 \<rparr>"

definition demo_fs :: filesystem where
  "demo_fs = \<lparr> fs_names = [([RootDir], 0), ([RootDir, Normal ''srv''], 1),
      ([RootDir, Normal ''out''], 2)],
    fs_inodes = [demo_node KindDir [], demo_node KindDir [], demo_node KindDir []] \<rparr>"

definition demo_sha :: "bytes \<Rightarrow> bytes" where
  "demo_sha data = replicate 32 (sum_list data)"

definition demo_service :: FileService where
  "demo_service = \<lparr> svc_root = [RootDir, Normal ''srv''], svc_uploads = [], svc_resources = [] \<rparr>"

definition demo_world :: file_world where
  "demo_world = \<lparr> fw_fs = demo_fs, fw_store = [], fw_service = demo_service \<rparr>"

lemma demo_service_created:
  "FileService_with_resources demo_os demo_fs [RootDir, Normal ''srv''] [] = Inr demo_service"
  by (simp add: FileService_with_resources_def demo_service_def fs_canonicalize_def guarded_def
      demo_os_def fs_resolve_def demo_fs_def fs_node_def demo_node_def map_io_def is_directory_def
      fs_metadata_def node_at_def)

lemma demo_fs_separated: "separated (svc_root demo_service) demo_fs"
  by (simp add: separated_def demo_fs_def demo_service_def path_starts_with_def on_branch_def demo_node_def)

lemma demo_os_simps: "os_fault demo_os c p = None" "os_time demo_os = (0, 0)" "guarded demo_os c p r = r"
  by (simp_all add: demo_os_def guarded_def)

lemmas demo_lookup = fs_canonicalize_def fs_resolve_def fs_node_def MAX_LINKS_def node_at_def at_path_def demo_os_simps
  fs_metadata_def fs_exists_def

lemmas demo_resolution = demo_lookup resolve_existing_def resolve_new_def requested_path_def MAX_REMOTE_PATH_SIZE_def
  strip_prefix_def parse_path_def path_is_absolute_def path_join_def path_file_name_def path_parent_def
  ensure_inside_root_def path_starts_with_def map_io_def

text \<open>C10. The file service never touches anything outside its root. From a service just
  created, after any sequence of uploads, chunks, commits, aborts, directory creations,
  removals and renames with any paths, any contents and any failures of the operating
  system, every name outside the root denotes what it did before: the same file with the
  same bytes, mode and time, or nothing. This needs a root without symbolic links in it
  or hard links out of it.\<close>

theorem file_service_confined:
  assumes "FileService_with_resources os fs path resources = Inr service"
    and "separated (svc_root service) fs"
    and "file_run sha parse_uuid ops \<lparr> fw_fs = fs, fw_store = store, fw_service = service \<rparr> = Some w"
    and "\<not> path_starts_with q (svc_root service)"
  shows "fs_node (fw_fs w) q = fs_node fs q"
proof -
  let ?w = "\<lparr> fw_fs = fs, fw_store = store, fw_service = service \<rparr>"
  have "svc_uploads service = []"
    using assms(1) by (auto simp: FileService_with_resources_def result_simps split: if_splits)
  then have "step_inside ?w w"
    by (intro file_run_inside [OF assms(3)]) (simp add: uploads_inside_def)
  then show ?thesis using assms(2,4) by (simp add: step_inside_def confined_def root_of_def)
qed

theorem file_service_confined_witness:
  "\<exists>w. file_run demo_sha Some [MakeDirectory demo_os ''d'', RemoveEntry demo_os ''/out'',
      RenameEntry demo_os ''d'' ''/out/d'' True] demo_world = Some w
    \<and> map_option fst (fs_node (fw_fs w) [RootDir, Normal ''srv'', Normal ''d'']) = Some 3
    \<and> fs_node (fw_fs w) [RootDir, Normal ''out''] = fs_node demo_fs [RootDir, Normal ''out'']"
proof -
  let ?ops = "[MakeDirectory demo_os ''d'', RemoveEntry demo_os ''/out'',
      RenameEntry demo_os ''d'' ''/out/d'' True]"
  have "map_option (\<lambda>w. map_option fst (fs_node (fw_fs w) [RootDir, Normal ''srv'', Normal ''d'']))
      (file_run demo_sha Some ?ops demo_world) = Some (Some 3)"
    by (simp add: make_directory_def remove_entry_def rename_entry_def demo_world_def demo_service_def
        demo_resolution demo_fs_def demo_node_def fs_create_dir_def add_node_def new_file_def file_error_def)
  then obtain w where w: "file_run demo_sha Some ?ops demo_world = Some w"
    "map_option fst (fs_node (fw_fs w) [RootDir, Normal ''srv'', Normal ''d'']) = Some 3"
    by auto
  have "\<not> path_starts_with [RootDir, Normal ''out''] (svc_root demo_service)"
    by (simp add: path_starts_with_def demo_service_def)
  then have "fs_node (fw_fs w) [RootDir, Normal ''out''] = fs_node demo_fs [RootDir, Normal ''out'']"
    by (rule file_service_confined [OF demo_service_created demo_fs_separated
          w(1) [unfolded demo_world_def]])
  with w show ?thesis by auto
qed

end
