(* ===== verification/File_Listing.thy ===== *)
theory File_Listing
  imports File_Service
begin

unbundle bit_operations_syntax

text \<open>
  Looking at files through the service: the metadata it reports, \<^verbatim>\<open>stat\<close>, and the listing of
  a directory in pages (\<^verbatim>\<open>FileService::stat\<close> and \<^verbatim>\<open>FileService::list\<close> of \<^verbatim>\<open>src/files.rs\<close>),
  with the loop of \<^verbatim>\<open>astra files ls\<close> (\<^verbatim>\<open>src/bin/astra.rs\<close>) that follows the cursor to the
  end.
\<close>

section \<open>Metadata\<close>

datatype FileKind = Unspecified | Regular | Directory | Symlink | Other

primrec FileKind_i32 :: "FileKind \<Rightarrow> i32" where
  "FileKind_i32 Unspecified = 0"
| "FileKind_i32 Regular = 1"
| "FileKind_i32 Directory = 2"
| "FileKind_i32 Symlink = 3"
| "FileKind_i32 Other = 4"

definition FileKind_try_from :: "i32 \<Rightarrow> FileKind option" where
  "FileKind_try_from n = (if n = 0 then Some Unspecified else if n = 1 then Some Regular
    else if n = 2 then Some Directory else if n = 3 then Some Symlink
    else if n = 4 then Some Other else None)"

record FileMetadata =
  fm_path :: string
  fm_name :: string
  fm_kind :: i32
  fm_size :: u64
  fm_mode :: u32
  fm_modified_unix_ns :: int

text \<open>Saturating arithmetic on \<^verbatim>\<open>i64\<close>, whose values are kept as integers.\<close>

definition saturate_i64 :: "int \<Rightarrow> int" where
  "saturate_i64 n = max (- (2 ^ 63)) (min (2 ^ 63 - 1) n)"

fun file_kind :: "inode_kind \<Rightarrow> FileKind" where
  "file_kind KindFile = Regular"
| "file_kind KindDir = Directory"
| "file_kind KindSymlink = Symlink"
| "file_kind KindOther = Other"

definition file_metadata :: "path \<Rightarrow> inode \<Rightarrow> FileMetadata" where
  "file_metadata p n = \<lparr> fm_path = path_bytes p,
    fm_name = (case path_file_name p of Some name \<Rightarrow> name | None \<Rightarrow> path_bytes p),
    fm_kind = FileKind_i32 (file_kind (ino_kind n)),
    fm_size = word_of_nat (length (ino_data n)),
    fm_mode = ino_mode n AND 4095,
    fm_modified_unix_ns =
      saturate_i64 (saturate_i64 (ino_mtime n * 1000000000) + ino_mtime_nsec n) \<rparr>"

section \<open>Stat\<close>

record FileStatRequest =
  fsr_path :: string
  fsr_follow_symlinks :: bool

definition stat :: "os \<Rightarrow> FileStatRequest \<Rightarrow> file_world \<Rightarrow> FileMetadata fresult" where
  "stat os request w =
    and_then (resolve_existing os (fw_fs w) (svc_root (fw_service w)) (fsr_path request)
      (fsr_follow_symlinks request)) (\<lambda>p.
    and_then (map_io ''cannot stat {}''
      (if fsr_follow_symlinks request then fs_metadata os (fw_fs w) p
       else fs_symlink_metadata os (fw_fs w) p)) (\<lambda>(i, n).
    Inr (file_metadata p n)))"

section \<open>Pages of a directory\<close>

record FileListRequest =
  fl_path :: string
  fl_cursor :: string
  fl_limit :: u32

record FileListResponse =
  fr_entries :: "FileMetadata list"
  fr_next_cursor :: string

definition MAX_DIRECTORY_PAGE_SIZE :: usize where
  "MAX_DIRECTORY_PAGE_SIZE = 500"

definition page_limit :: "u32 \<Rightarrow> usize" where
  "page_limit limit = (if limit = 0 then 100 else min (unat limit) MAX_DIRECTORY_PAGE_SIZE)"

text \<open>The entries of a directory, in the order the system gives them; any of them may fail.\<close>

definition fs_read_dir :: "os \<Rightarrow> filesystem \<Rightarrow> path \<Rightarrow> string list fresult" where
  "fs_read_dir os fs p =
    and_then (map_io ''cannot read directory {}'' (guarded os ''read_dir'' p (Inr (directory_names fs p))))
      (try_map (\<lambda>name. map_io ''cannot read directory entry in {}''
        (guarded os ''next_entry'' (path_join p [Normal name]) (Inr name))))"

fun list_page ::
  "os \<Rightarrow> filesystem \<Rightarrow> path \<Rightarrow> string \<Rightarrow> usize \<Rightarrow> FileMetadata list \<Rightarrow> string list
    \<Rightarrow> (FileMetadata list \<times> bool) fresult" where
  "list_page os fs directory cursor limit page [] = Inr (page, False)"
| "list_page os fs directory cursor limit page (name # names) =
    (if cursor \<noteq> [] \<and> name \<le> cursor then list_page os fs directory cursor limit page names
     else if length page = limit then Inr (page, True)
     else
       let p = path_join directory [Normal name]
       in and_then (map_io ''cannot stat {}'' (fs_symlink_metadata os fs p)) (\<lambda>(i, n).
            list_page os fs directory cursor limit (page @ [file_metadata p n]) names))"

definition list_directory :: "os \<Rightarrow> FileListRequest \<Rightarrow> file_world \<Rightarrow> FileListResponse fresult" where
  "list_directory os request w =
    and_then (resolve_existing os (fw_fs w) (svc_root (fw_service w)) (fl_path request) True) (\<lambda>directory.
    and_then (map_io ''cannot stat {}'' (fs_metadata os (fw_fs w) directory)) (\<lambda>(i, n).
    if ino_kind n \<noteq> KindDir then file_error ''invalid'' ''{} is not a directory''
    else and_then (fs_read_dir os (fw_fs w) directory) (\<lambda>entries.
    and_then (list_page os (fw_fs w) directory (fl_cursor request) (page_limit (fl_limit request)) []
        (sort entries)) (\<lambda>(page, has_more).
    Inr \<lparr> fr_entries = page,
      fr_next_cursor = (if has_more \<and> page \<noteq> [] then fm_name (last page) else []) \<rparr>))))"

text \<open>The loop of \<^verbatim>\<open>files ls\<close>; it may send as many requests as the fuel allows.\<close>

fun ls_loop :: "nat \<Rightarrow> os \<Rightarrow> string \<Rightarrow> string \<Rightarrow> file_world \<Rightarrow> FileMetadata list fresult option" where
  "ls_loop 0 os p cursor w = None"
| "ls_loop (Suc fuel) os p cursor w =
    (case list_directory os \<lparr> fl_path = p, fl_cursor = cursor, fl_limit = 200 \<rparr> w of
      Inl e \<Rightarrow> Some (Inl e)
    | Inr page \<Rightarrow>
        if fr_next_cursor page = [] then Some (Inr (fr_entries page))
        else map_option (\<lambda>rest. and_then rest (\<lambda>entries. Inr (fr_entries page @ entries)))
          (ls_loop fuel os p (fr_next_cursor page) w))"

section \<open>The loop ends and shows every entry\<close>

lemma strictly_sorted_sort: "distinct xs \<Longrightarrow> sorted_wrt (<) (sort xs)"
  by (simp add: strict_sorted_iff)

text \<open>A page is the next stretch of the sorted entries behind the cursor.\<close>

definition behind :: "string \<Rightarrow> string list \<Rightarrow> string list" where
  "behind cursor names = filter (\<lambda>name. cursor = [] \<or> cursor < name) names"

definition shown :: "filesystem \<Rightarrow> path \<Rightarrow> string \<Rightarrow> FileMetadata" where
  "shown fs directory name =
    file_metadata (path_join directory [Normal name]) (snd (the (fs_node fs (path_join directory [Normal name]))))"

lemma list_page_stretch:
  assumes "list_page os fs directory cursor limit page names = Inr (page', has_more)"
    and "\<And>name n i. name \<in> set names \<Longrightarrow>
      fs_symlink_metadata os fs (path_join directory [Normal name]) = Inr (i, n) \<Longrightarrow>
      file_metadata (path_join directory [Normal name]) n = f name"
    and "length page \<le> limit"
  shows "page' = page @ map f (take (limit - length page) (behind cursor names)) \<and>
    has_more = (limit - length page < length (behind cursor names))"
  using assms
proof (induction names arbitrary: page)
  case (Cons name names)
  show ?case
  proof (cases "cursor \<noteq> [] \<and> name \<le> cursor")
    case True
    then show ?thesis using Cons.prems Cons.IH [of page] by (auto simp: behind_def)
  next
    case False
    then have b: "behind cursor (name # names) = name # behind cursor names"
      by (auto simp: behind_def)
    show ?thesis
    proof (cases "length page = limit")
      case True
      then show ?thesis using False Cons.prems(1) b by auto
    next
      case room: False
      obtain i n where n: "fs_symlink_metadata os fs (path_join directory [Normal name]) = Inr (i, n)"
        "list_page os fs directory cursor limit
          (page @ [file_metadata (path_join directory [Normal name]) n]) names = Inr (page', has_more)"
        using Cons.prems(1) False room by (auto simp: Let_def result_simps)
      obtain k where k: "limit - length page = Suc k" using room Cons.prems(3) by (cases "limit - length page") auto
      have "limit - length (page @ [f name]) = k" using k by simp
      then show ?thesis
        using Cons.IH [OF n(2)] Cons.prems(2) [OF _ n(1)] Cons.prems(2,3) room k by (simp add: b)
    qed
  qed
qed (simp add: behind_def)

lemma list_page_total:
  assumes "\<And>name. name \<in> set names \<Longrightarrow>
      \<exists>i n. fs_symlink_metadata os fs (path_join directory [Normal name]) = Inr (i, n)"
  shows "is_ok (list_page os fs directory cursor limit page names)"
  using assms
proof (induction names arbitrary: page)
  case (Cons name names)
  obtain i n where "fs_symlink_metadata os fs (path_join directory [Normal name]) = Inr (i, n)"
    using Cons.prems [of name] by auto
  then show ?case using Cons by (auto simp: Let_def map_io_def)
qed simp

text \<open>Where canonicalisation leads, every directory on the way is a directory.\<close>

definition solid :: "filesystem \<Rightarrow> path \<Rightarrow> bool" where
  "solid fs p \<longleftrightarrow> (\<forall>k. 2 \<le> k \<and> k \<le> length p \<longrightarrow> directory_at fs (take k p))"

lemma solid_butlast: "solid fs p \<Longrightarrow> solid fs (butlast p)"
  by (auto simp: solid_def butlast_conv_take min_def)

lemma solid_snoc: "solid fs p \<Longrightarrow> directory_at fs (p @ [c]) \<Longrightarrow> solid fs (p @ [c])"
  unfolding solid_def by (auto simp: le_Suc_eq)

lemma solid_root [simp]: "solid fs [RootDir]"
  by (auto simp: solid_def)

lemma fs_walk_solid:
  assumes "fs_walk fs follow links at p = Inr q" "solid fs at"
  shows "solid fs (butlast q)"
  using assms
proof (induction fs follow links at p rule: fs_walk.induct)
  case (5 fs follow links at name rest)
  show ?case
  proof (cases "fs_node fs (at @ [Normal name])")
    case None
    then show ?thesis using 5(3,4) by (auto split: if_splits)
  next
    case (Some m)
    obtain i n where m: "m = (i, n)" by fastforce
    show ?thesis
    proof (cases "ino_kind n = KindSymlink \<and> (follow \<or> rest \<noteq> [])")
      case True
      then show ?thesis using 5 Some m by (auto split: if_splits)
    next
      case False
      show ?thesis
      proof (cases "rest = []")
        case True
        then show ?thesis using 5(3,4) Some m False by auto
      next
        case rest: False
        then have d: "ino_kind n = KindDir" using 5(3) Some m False by (auto split: if_splits)
        then have "solid fs (at @ [Normal name])"
          using 5(4) Some m by (intro solid_snoc) (simp_all add: directory_at_def)
        then show ?thesis using 5(2) [OF Some [unfolded m] refl] 5(3) Some m False rest d by auto
      qed
    qed
  qed
qed (auto simp: solid_butlast)

lemma fs_walk_follow_not_link:
  assumes "fs_walk fs True links at p = Inr q" "solid fs at" "2 \<le> length q" "fs_node fs q = Some (i, n)"
  shows "ino_kind n \<noteq> KindSymlink"
  using assms
proof (induction fs "True" links at p rule: fs_walk.induct)
  case (1 fs links at)
  then show ?case using 1(2) [unfolded solid_def, THEN spec, of "length at"] by (auto simp: directory_at_def)
next
  case (5 fs links at name rest)
  show ?case
  proof (cases "fs_node fs (at @ [Normal name])")
    case None
    then show ?thesis using 5(3,6) by (auto split: if_splits)
  next
    case (Some m)
    obtain j k where m: "m = (j, k)" by fastforce
    show ?thesis
    proof (cases "ino_kind k = KindSymlink")
      case True
      then show ?thesis using 5 Some m by (auto split: if_splits)
    next
      case False
      show ?thesis
      proof (cases "rest = []")
        case True
        then show ?thesis using 5(3,6) Some m False by auto
      next
        case rest: False
        then have d: "ino_kind k = KindDir" using 5(3) Some m False by (auto split: if_splits)
        then have "solid fs (at @ [Normal name])"
          using 5(4) Some m by (intro solid_snoc) (simp_all add: directory_at_def)
        then show ?thesis using 5(2) [OF Some [unfolded m] refl] 5(3,5,6) Some m False rest d by auto
      qed
    qed
  qed
qed (auto simp: solid_butlast)

lemma fs_walk_again_tail:
  assumes "solid fs (at @ rest)" "list_all is_normal rest" "at \<noteq> []" "tail \<noteq> []"
  shows "fs_walk fs follow links at (rest @ tail) = fs_walk fs follow links (at @ rest) tail"
  using assms
proof (induction rest arbitrary: at)
  case (Cons c rest)
  obtain d where c: "c = Normal d" using Cons.prems(2) by (cases c) auto
  have "directory_at fs (take (Suc (length at)) (at @ c # rest))"
    using Cons.prems(1) [unfolded solid_def, THEN spec, of "Suc (length at)"] Cons.prems(3)
    by (cases at) simp_all
  then have "directory_at fs (at @ [c])" by simp
  then obtain i n where "fs_node fs (at @ [Normal d]) = Some (i, n)" "ino_kind n = KindDir"
    by (auto simp: directory_at_def c split: option.splits)
  then show ?case using Cons.IH [of "at @ [c]"] Cons.prems c by simp
qed simp

lemma fs_resolve_child:
  assumes "solid fs directory" "canonical directory"
  shows "fs_resolve fs False (directory @ [Normal name]) = Inr (directory @ [Normal name])"
proof -
  obtain rest where d: "directory = RootDir # rest" "list_all is_normal rest"
    using assms(2) by (cases directory) (auto simp: canonical_def)
  have "fs_walk fs False MAX_LINKS [RootDir] (rest @ [Normal name])
      = fs_walk fs False MAX_LINKS ([RootDir] @ rest) [Normal name]"
    by (rule fs_walk_again_tail) (use assms(1) d in simp_all)
  also have "\<dots> = Inr (directory @ [Normal name])" using d by (auto split: option.split)
  finally show ?thesis using d by (simp add: fs_resolve_def)
qed

lemma canonicalized_directory:
  assumes "fs_canonicalize os fs p = Inr directory" "fs_metadata os fs directory = Inr (i, n)"
    and "ino_kind n = KindDir"
  shows "solid fs directory" "canonical directory"
proof -
  have r: "fs_resolve fs True p = Inr directory" "fs_node fs directory \<noteq> None"
    using assms(1) by (auto simp: fs_canonicalize_def guarded_def result_simps split: option.splits if_splits)
  then show c: "canonical directory" by (blast intro: fs_resolve_canonical)
  have w: "fs_walk fs True MAX_LINKS [RootDir] p = Inr directory"
    using r(1) by (auto simp: fs_resolve_def split: if_splits)
  have b: "solid fs (butlast directory)" by (rule fs_walk_solid [OF w]) simp
  show "solid fs directory"
  proof (cases "length directory = 1")
    case True
    then show ?thesis by (auto simp: solid_def)
  next
    case False
    then obtain d c' where d: "directory = d @ [c']" "d \<noteq> []"
      using c by (cases directory rule: rev_cases) (auto simp: canonical_def)
    then obtain name where name: "c' = Normal name"
      using c by (cases d; cases c') (auto simp: canonical_def)
    obtain rest where rest: "d = RootDir # rest" "list_all is_normal rest"
      using c d by (cases d) (auto simp: canonical_def)
    obtain j k where k: "fs_node fs directory = Some (j, k)" using r(2) by auto
    have nolink: "ino_kind k \<noteq> KindSymlink"
      by (rule fs_walk_follow_not_link [OF w]) (use d k in \<open>auto simp: Suc_le_eq\<close>)
    have "fs_walk fs True MAX_LINKS [RootDir] (rest @ [Normal name])
        = fs_walk fs True MAX_LINKS ([RootDir] @ rest) [Normal name]"
      by (rule fs_walk_again_tail) (use b d rest in simp_all)
    then have "fs_resolve fs True directory = Inr directory"
      using k nolink d rest name by (simp add: fs_resolve_def)
    then have "k = n"
      using assms(2) k by (auto simp: fs_metadata_def guarded_def node_at_def split: option.splits)
    then have "directory_at fs (d @ [c'])" using assms(3) k d by (simp add: directory_at_def)
    then show ?thesis using solid_snoc b d by simp
  qed
qed

lemma child_path:
  "path_parent q = Some p \<Longrightarrow> path_file_name q = Some name \<Longrightarrow> q = p @ [Normal name]"
  by (cases q rule: rev_cases)
    (auto simp: path_parent_def path_file_name_def split: component.splits if_splits)

lemma directory_names_filter:
  "directory_names fs p = map (\<lambda>q. the (path_file_name q))
    (filter (\<lambda>q. path_parent q = Some p \<and> path_file_name q \<noteq> None) (map fst (fs_names fs)))"
proof -
  have "[n. (q, i) \<leftarrow> xs, path_parent q = Some p, n \<leftarrow> (case path_file_name q of Some n \<Rightarrow> [n] | None \<Rightarrow> [])]
    = map (\<lambda>q. the (path_file_name q))
      (filter (\<lambda>q. path_parent q = Some p \<and> path_file_name q \<noteq> None) (map fst xs))"
    for xs :: "(path \<times> nat) list"
    by (induction xs) (auto split: option.split)
  then show ?thesis unfolding directory_names_def .
qed

lemma directory_names_member:
  assumes "name \<in> set (directory_names fs p)"
  shows "\<exists>i. (p @ [Normal name], i) \<in> set (fs_names fs)"
  using assms unfolding directory_names_filter by (auto simp: child_path) (metis child_path)

lemma directory_names_distinct:
  assumes "distinct (map fst (fs_names fs))"
  shows "distinct (directory_names fs p)"
proof -
  let ?ps = "filter (\<lambda>q. path_parent q = Some p \<and> path_file_name q \<noteq> None) (map fst (fs_names fs))"
  have "inj_on (\<lambda>q. the (path_file_name q)) (set ?ps)"
    by (rule inj_onI) (auto, metis child_path)
  then show ?thesis
    using assms unfolding directory_names_filter by (simp add: distinct_map)
qed

text \<open>A file tree as the system keeps it: names stand once, have an inode and are not empty.\<close>

definition fs_ok :: "filesystem \<Rightarrow> bool" where
  "fs_ok fs \<longleftrightarrow> distinct (map fst (fs_names fs)) \<and>
    (\<forall>(p, i) \<in> set (fs_names fs). i < length (fs_inodes fs) \<and> Normal [] \<notin> set p)"

lemma fs_ok_member:
  assumes "fs_ok fs" "(p, i) \<in> set (fs_names fs)"
  shows "fs_node fs p = Some (i, fs_inodes fs ! i)" "Normal [] \<notin> set p"
proof -
  have "map_of (fs_names fs) p = Some i"
    using assms by (intro map_of_is_SomeI) (simp_all add: fs_ok_def)
  moreover have "i < length (fs_inodes fs) \<and> Normal [] \<notin> set p"
    using assms unfolding fs_ok_def by fast
  ultimately show "fs_node fs p = Some (i, fs_inodes fs ! i)" "Normal [] \<notin> set p"
    by (simp_all add: fs_node_def)
qed

lemma try_map_Inr_id: "(\<And>x. x \<in> set xs \<Longrightarrow> f x = Inr x) \<Longrightarrow> try_map f xs = Inr xs"
  by (induction xs) auto

lemma behind_sorted:
  assumes "sorted_wrt (<) names" "[] \<notin> set names" "0 < limit"
    and "limit < length (behind cursor names)"
  shows "behind (last (take limit (behind cursor names))) names = drop limit (behind cursor names)"
    and "last (take limit (behind cursor names)) \<noteq> []"
proof -
  let ?b = "behind cursor names" and ?l = "last (take limit (behind cursor names))"
  have sb: "sorted_wrt (<) ?b" using assms(1) by (simp add: behind_def sorted_wrt_filter)
  have t: "take limit ?b \<noteq> []" using assms(3,4) by auto
  then have "?l \<in> set (take limit ?b)" by simp
  then have l: "?l \<in> set ?b" by (rule in_set_takeD)
  then show n: "?l \<noteq> []" using assms(2) by (auto simp: behind_def)
  have lc: "cursor = [] \<or> cursor < ?l" using l by (auto simp: behind_def)
  have "behind ?l names = filter (\<lambda>x. ?l < x) ?b"
    using n lc by (auto simp: behind_def intro!: filter_cong)
  also have "\<dots> = filter (\<lambda>x. ?l < x) (take limit ?b) @ filter (\<lambda>x. ?l < x) (drop limit ?b)"
    by (metis append_take_drop_id filter_append)
  also have "filter (\<lambda>x. ?l < x) (take limit ?b) = []"
  proof -
    have "x \<le> ?l" if "x \<in> set (take limit ?b)" for x
    proof -
      obtain ys y where ys: "take limit ?b = ys @ [y]" using t by (cases "take limit ?b" rule: rev_cases) auto
      have "sorted_wrt (<) (ys @ [y])" using sb ys by (metis append_take_drop_id sorted_wrt_append)
      then show ?thesis using that ys by (auto simp: sorted_wrt_append)
    qed
    then show ?thesis by (meson filter_False leD)
  qed
  also have "filter (\<lambda>x. ?l < x) (drop limit ?b) = drop limit ?b"
  proof -
    have "sorted_wrt (<) (take limit ?b @ drop limit ?b)" using sb by simp
    then have "\<forall>y \<in> set (take limit ?b). \<forall>x \<in> set (drop limit ?b). y < x"
      unfolding sorted_wrt_append by blast
    then show ?thesis using \<open>?l \<in> set (take limit ?b)\<close> by (intro filter_True) blast
  qed
  finally show "behind ?l names = drop limit ?b" by simp
qed

lemma sort_names:
  assumes "fs_ok fs" "canonical p"
  shows "sorted_wrt (<) (sort (directory_names fs p))" "[] \<notin> set (sort (directory_names fs p))"
proof -
  show "sorted_wrt (<) (sort (directory_names fs p))"
    by (rule strictly_sorted_sort [OF directory_names_distinct]) (use assms(1) in \<open>simp add: fs_ok_def\<close>)
  show "[] \<notin> set (sort (directory_names fs p))"
    using directory_names_member [of "[]" fs p] fs_ok_member(2) [OF assms(1), of "p @ [Normal []]"]
    by auto
qed

lemma list_directory_page:
  assumes "os_fault os = (\<lambda>_ _. None)" "fs_ok (fw_fs w)"
    and "resolve_existing os (fw_fs w) (svc_root (fw_service w)) p True = Inr directory"
    and "is_directory os (fw_fs w) directory"
  shows "list_directory os \<lparr> fl_path = p, fl_cursor = cursor, fl_limit = 200 \<rparr> w =
    (let rest = behind cursor (sort (directory_names (fw_fs w) directory))
     in Inr \<lparr> fr_entries = map (shown (fw_fs w) directory) (take 200 rest),
          fr_next_cursor = (if 200 < length rest then last (take 200 rest) else []) \<rparr>)"
proof -
  let ?fs = "fw_fs w" and ?names = "sort (directory_names (fw_fs w) directory)"
  obtain i n where n: "fs_metadata os ?fs directory = Inr (i, n)" "ino_kind n = KindDir"
    using assms(4) by (auto simp: is_directory_def split: sum.splits)
  obtain q where "fs_canonicalize os ?fs q = Inr directory"
    using assms(3) by (auto simp: resolve_existing_def result_simps ensure_inside_root_def split: if_splits)
  from canonicalized_directory [OF this n]
  have d: "solid ?fs directory" "canonical directory" .
  have j: "path_join directory [Normal name] = directory @ [Normal name]" for name
    by (rule join_name [OF canonical_nonempty [OF d(2)]])
  have meta: "fs_symlink_metadata os ?fs (path_join directory [Normal name])
      = Inr (the (fs_node ?fs (path_join directory [Normal name])))" if "name \<in> set ?names" for name
  proof -
    obtain k where "(directory @ [Normal name], k) \<in> set (fs_names ?fs)"
      using directory_names_member [of name ?fs directory] \<open>name \<in> set ?names\<close> by auto
    from fs_ok_member(1) [OF assms(2) this] show ?thesis
      by (simp add: fs_symlink_metadata_def guarded_def assms(1) j node_at_def fs_resolve_child [OF d])
  qed
  have read: "fs_read_dir os ?fs directory = Inr (directory_names ?fs directory)"
    by (simp add: fs_read_dir_def guarded_def assms(1) map_io_def try_map_Inr_id)
  have "is_ok (list_page os ?fs directory cursor 200 [] ?names)"
    by (rule list_page_total) (metis meta surj_pair)
  then obtain page has_more where lp: "list_page os ?fs directory cursor 200 [] ?names = Inr (page, has_more)"
    by (auto simp: is_ok_iff)
  have st: "page = map (shown ?fs directory) (take 200 (behind cursor ?names)) \<and>
      has_more = (200 < length (behind cursor ?names))"
    using list_page_stretch [OF lp, where f = "shown ?fs directory"]
    by (auto simp: meta shown_def)
  have last: "fm_name (last page) = last (take 200 (behind cursor ?names))" if "page \<noteq> []"
    using that st by (auto simp: last_map shown_def file_metadata_def j path_file_name_def)
  have "page_limit 200 = 200" by (simp add: page_limit_def MAX_DIRECTORY_PAGE_SIZE_def)
  then show ?thesis
    using st last n by (auto simp: list_directory_def assms(3) map_io_def read lp Let_def)
qed

lemma ls_loop_behind:
  assumes "os_fault os = (\<lambda>_ _. None)" "fs_ok (fw_fs w)"
    and "resolve_existing os (fw_fs w) (svc_root (fw_service w)) p True = Inr directory"
    and "is_directory os (fw_fs w) directory"
    and "length (behind cursor (sort (directory_names (fw_fs w) directory))) < fuel * 200"
  shows "ls_loop fuel os p cursor w = Some (Inr (map (shown (fw_fs w) directory)
    (behind cursor (sort (directory_names (fw_fs w) directory)))))"
  using assms(5)
proof (induction fuel arbitrary: cursor)
  case (Suc fuel)
  let ?names = "sort (directory_names (fw_fs w) directory)"
  let ?b = "behind cursor ?names"
  have "canonical directory"
    using resolve_existing_inside [OF assms(3)] by (simp add: inside_def)
  note s = sort_names [OF assms(2) this]
  note page = list_directory_page [OF assms(1-4), of cursor]
  show ?case
  proof (cases "200 < length ?b")
    case True
    note b = behind_sorted [OF s _ True]
    have "length ?b - 200 < fuel * 200" using True Suc.prems by simp
    then have "ls_loop fuel os p (last (take 200 ?b)) w = Some (Inr (map (shown (fw_fs w) directory) (drop 200 ?b)))"
      using Suc.IH [of "last (take 200 ?b)"] b by simp
    then show ?thesis using True b page
      by (simp add: Let_def) (metis append_take_drop_id map_append)
  qed (use page in \<open>simp add: Let_def\<close>)
qed simp

text \<open>C20. \<^verbatim>\<open>astra files ls\<close> ends and shows the whole directory. On a directory below the root,
  while no call fails and nothing changes, the loop that follows the cursor from page to
  page sends at most one request more than the directory has full pages of two hundred
  entries, and what it shows is the metadata of every entry, each once and in the order
  of the bytes of the names.\<close>

theorem ls_ends_complete:
  assumes "os_fault os = (\<lambda>_ _. None)" "fs_ok (fw_fs w)"
    and "resolve_existing os (fw_fs w) (svc_root (fw_service w)) p True = Inr directory"
    and "is_directory os (fw_fs w) directory"
    and "length (directory_names (fw_fs w) directory) div 200 < fuel"
  shows "\<exists>entries. ls_loop fuel os p [] w = Some (Inr entries) \<and>
    map fm_name entries = sort (directory_names (fw_fs w) directory) \<and>
    distinct (map fm_name entries) \<and>
    list_all2 (\<lambda>name m. \<exists>i n. fs_node (fw_fs w) (directory @ [Normal name]) = Some (i, n) \<and>
      m = file_metadata (directory @ [Normal name]) n) (sort (directory_names (fw_fs w) directory)) entries"
proof -
  let ?names = "sort (directory_names (fw_fs w) directory)"
  have c: "canonical directory" using resolve_existing_inside [OF assms(3)] by (simp add: inside_def)
  have j: "path_join directory [Normal name] = directory @ [Normal name]" for name
    by (rule join_name [OF canonical_nonempty [OF c]])
  have b: "behind [] ?names = ?names" by (simp add: behind_def)
  have "length ?names < fuel * 200" using assms(5) by (simp add: div_less_iff_less_mult)
  then have r: "ls_loop fuel os p [] w = Some (Inr (map (shown (fw_fs w) directory) ?names))"
    using ls_loop_behind [OF assms(1-4), of "[]" fuel] b by simp
  have m: "map fm_name (map (shown (fw_fs w) directory) ?names) = ?names"
    by (simp add: shown_def file_metadata_def j path_file_name_def o_def)
  have d: "distinct ?names"
    using assms(2) directory_names_distinct by (simp add: fs_ok_def)
  have a: "list_all2 (\<lambda>name m. \<exists>i n. fs_node (fw_fs w) (directory @ [Normal name]) = Some (i, n) \<and>
      m = file_metadata (directory @ [Normal name]) n) ?names (map (shown (fw_fs w) directory) ?names)"
    unfolding list_all2_map2
  proof (rule list_all2_same [THEN iffD2], rule ballI)
    fix name assume "name \<in> set ?names"
    then obtain k where "(directory @ [Normal name], k) \<in> set (fs_names (fw_fs w))"
      using directory_names_member [of name "fw_fs w" directory] by auto
    from fs_ok_member(1) [OF assms(2) this]
    show "\<exists>i n. fs_node (fw_fs w) (directory @ [Normal name]) = Some (i, n) \<and>
        shown (fw_fs w) directory name = file_metadata (directory @ [Normal name]) n"
      by (simp add: shown_def j)
  qed
  show ?thesis
    by (intro exI [of _ "map (shown (fw_fs w) directory) ?names"] conjI) (simp_all only: r m d a)
qed

definition demo_ls_world :: file_world where
  "demo_ls_world = demo_world \<lparr> fw_fs := add_node [RootDir, Normal ''srv'', Normal ''a''] (demo_node KindDir [])
    (add_node [RootDir, Normal ''srv'', Normal ''b''] (demo_node KindDir []) demo_fs) \<rparr>"

theorem ls_ends_complete_witness:
  "\<exists>entries. ls_loop 1 demo_os ''.'' [] demo_ls_world = Some (Inr entries)
    \<and> map fm_name entries = [''a'', ''b'']"
proof -
  have names: "directory_names (fw_fs demo_ls_world) [RootDir, Normal ''srv''] = [''b'', ''a'']"
    by code_simp
  have "os_fault demo_os = (\<lambda>_ _. None)" by (simp add: demo_os_def)
  moreover have "fs_ok (fw_fs demo_ls_world)" by code_simp
  moreover have "resolve_existing demo_os (fw_fs demo_ls_world) (svc_root (fw_service demo_ls_world)) ''.'' True
      = Inr [RootDir, Normal ''srv'']" by code_simp
  moreover have "is_directory demo_os (fw_fs demo_ls_world) [RootDir, Normal ''srv'']" by code_simp
  moreover have "length (directory_names (fw_fs demo_ls_world) [RootDir, Normal ''srv'']) div 200 < 1"
    by (simp add: names)
  ultimately obtain entries where "ls_loop 1 demo_os ''.'' [] demo_ls_world = Some (Inr entries)"
    "map fm_name entries = sort [''b'', ''a'']"
    using ls_ends_complete [of demo_os demo_ls_world "''.''" "[RootDir, Normal ''srv'']" 1]
    unfolding names by blast
  moreover have "sort [''b'', ''a''] = [''a'', ''b'']" by code_simp
  ultimately show ?thesis by metis
qed

end
