(* ===== verification/File_Upload.thy ===== *)
theory File_Upload
  imports File_Service
begin

text \<open>
  What an upload through the file service promises its client: every chunk that was
  acknowledged stands in the published file at its offset, whatever failed and was
  tried again in between. The invariant relates the temporary file, the committed offset
  of the registry and the acknowledgements sent so far.
\<close>

fun send_chunks ::
  "(bytes \<Rightarrow> bytes) \<Rightarrow> (string \<Rightarrow> string option) \<Rightarrow> (os \<times> WriteFileChunkRequest) list \<Rightarrow> file_world
    \<Rightarrow> file_world \<times> (WriteFileChunkRequest \<times> UploadStatusResponse fresult) list" where
  "send_chunks sha p [] w = (w, [])"
| "send_chunks sha p ((os, request) # requests) w =
    (let (w1, r) = write_chunk os sha p request w;
         (w2, acks) = send_chunks sha p requests w1
     in (w2, (request, r) # acks))"

text \<open>The acknowledged chunks are in the committed part of the data.\<close>

definition in_place ::
  "bytes \<Rightarrow> nat \<Rightarrow> (WriteFileChunkRequest \<times> UploadStatusResponse fresult) list \<Rightarrow> bool" where
  "in_place data committed acks \<longleftrightarrow> (\<forall>(request, r) \<in> set acks. is_ok r \<longrightarrow>
    unat (wc_offset request) + length (wc_data request) \<le> committed \<and>
    take (length (wc_data request)) (drop (unat (wc_offset request)) data) = wc_data request)"

definition upload_ok :: "path \<Rightarrow> path \<Rightarrow> BeginUploadRequest \<Rightarrow> filesystem \<Rightarrow> Upload \<Rightarrow> bytes \<Rightarrow> bool" where
  "upload_ok root target request fs u data \<longleftrightarrow>
    up_state u = UploadActive \<and> up_target u = target \<and> up_size u = bu_size request \<and>
    up_expected_sha256 u = bu_sha256 request \<and> inside root target \<and> inside root (up_temporary u) \<and>
    length (up_temporary u) = length target \<and>
    map_option (ino_data \<circ> snd) (fs_node fs (up_temporary u)) = Some data \<and>
    unat (up_committed_offset u) \<le> length data \<and> length data \<le> unat (bu_size request)"

definition uploading ::
  "path \<Rightarrow> path \<Rightarrow> BeginUploadRequest
    \<Rightarrow> (WriteFileChunkRequest \<times> UploadStatusResponse fresult) list \<Rightarrow> file_world \<Rightarrow> bool" where
  "uploading root target request acks w \<longleftrightarrow>
    root_of w = root \<and> uploads_inside w \<and> separated root (fw_fs w) \<and>
    (\<exists>u data. bt_get (svc_uploads (fw_service w)) (bu_transfer_id request) = Some u \<and>
      upload_ok root target request (fw_fs w) u data \<and>
      in_place data (unat (up_committed_offset u)) acks)"

section \<open>Writing\<close>

lemma length_write_data:
  "offset \<le> length old \<Longrightarrow> length (write_data offset new old) = max (length old) (offset + length new)"
  by (simp add: write_data_def)

lemma take_write_data: "offset \<le> length old \<Longrightarrow> take offset (write_data offset new old) = take offset old"
  by (simp add: write_data_def)

lemma written_data:
  "offset \<le> length old \<Longrightarrow> take (length new) (drop offset (write_data offset new old)) = new"
  by (simp add: write_data_def)

lemma in_place_snoc:
  "in_place data committed (acks @ [(request, r)]) \<longleftrightarrow> in_place data committed acks \<and>
    (is_ok r \<longrightarrow> unat (wc_offset request) + length (wc_data request) \<le> committed \<and>
      take (length (wc_data request)) (drop (unat (wc_offset request)) data) = wc_data request)"
  by (auto simp: in_place_def)

lemma in_place_mono:
  assumes "in_place data committed acks" "take committed data' = take committed data"
    and "committed \<le> committed'"
  shows "in_place data' committed' acks"
  unfolding in_place_def
proof (rule ballI, rule case_prodI2, rule impI)
  fix a request r assume a: "a \<in> set acks" "a = (request, r)" "is_ok r"
  let ?o = "unat (wc_offset request)" and ?n = "length (wc_data request)"
  have o: "?o + ?n \<le> committed" "take ?n (drop ?o data) = wc_data request"
    using assms(1) a by (auto simp: in_place_def)
  have "take ?n (drop ?o d) = take ?n (drop ?o (take committed d))" for d :: bytes
    using o(1) by (simp add: drop_take)
  then have "take ?n (drop ?o data') = wc_data request" using o(2) assms(2) by metis
  then show "?o + ?n \<le> committed' \<and> take ?n (drop ?o data') = wc_data request"
    using o(1) assms(3) by simp
qed

lemma fs_node_update_inode:
  "fs_node (update_inode i f fs) p =
    map_option (\<lambda>(j, n). (j, if j = i then f n else n)) (fs_node fs p)"
  by (auto simp: fs_node_def update_inode_def split: bind_splits option.split)

lemma open_create_existing:
  assumes "separated root fs" "inside root p" "fs_node fs p = Some (i, n)"
  shows "fst (fs_open_create os mode p fs) = fs"
    and "snd (fs_open_create os mode p fs) = Inr j \<Longrightarrow> j = i"
proof -
  have "fs_resolve fs False p = Inr q \<Longrightarrow> q = p" for q
    by (rule fs_resolve_inside [OF assms(1,2)])
  then show "fst (fs_open_create os mode p fs) = fs"
    and "snd (fs_open_create os mode p fs) = Inr j \<Longrightarrow> j = i"
    using assms(3) unfolding fs_open_create_def at_path_def
    by (cases "os_fault os ''open'' p"; cases "fs_resolve fs False p"; simp split: if_splits)+
qed

lemma open_existing:
  assumes "separated root fs" "inside root p" "fs_node fs p = Some (i, n)"
    and "open_upload_file os p fs = (fs', r)"
  shows "fs' = fs" and "r = Inr j \<Longrightarrow> j = i"
  using assms(4) open_create_existing [OF assms(1-3), of os 384]
  by (auto simp: open_upload_file_def result_simps split: prod.splits if_splits)

lemma unat_word_of_nat_64: "n < 2 ^ 64 \<Longrightarrow> unat (word_of_nat n :: u64) = n"
  by (simp add: unat_of_nat take_bit_nat_eq_self_iff)

lemma bt_get_insert_same: "bt_get (bt_insert k v m) k = Some v"
  by (induction k v m rule: bt_insert.induct) (auto simp: bt_get_def)

lemma upload_ok_write:
  assumes "upload_ok root target request fs u data" "fs_node fs (up_temporary u) = Some (i, n)"
    and "unat (up_committed_offset u) + length chunk \<le> unat (bu_size request)"
    and "fs_write_all os p i (unat (up_committed_offset u)) chunk fs = (fs', r)"
  shows "\<exists>data'. upload_ok root target request fs' u data' \<and>
    take (unat (up_committed_offset u)) data' = take (unat (up_committed_offset u)) data \<and>
    (r = Inr () \<longrightarrow> data' = write_data (unat (up_committed_offset u)) chunk data)" (is "\<exists>d. ?P d")
proof -
  let ?o = "unat (up_committed_offset u)"
  have d: "ino_data n = data" "?o \<le> length data" "length data \<le> unat (bu_size request)"
    using assms(1,2) by (simp_all add: upload_ok_def)
  have w: "?P (write_data ?o part data)"
    if "fs' = update_inode i (\<lambda>n. n \<lparr> ino_data := write_data ?o part (ino_data n),
        ino_mtime := fst (os_time os), ino_mtime_nsec := snd (os_time os) \<rparr>) fs"
      "length part \<le> length chunk" "r = Inr () \<Longrightarrow> part = chunk" for part
    using that(2,3) assms(1-3) d take_write_data [OF d(2), of part] length_write_data [OF d(2), of part]
    unfolding that(1) upload_ok_def fs_node_update_inode by auto
  show ?thesis
  proof (cases "os_fault os ''write_all'' p")
    case None
    then show ?thesis using assms(4) w [of chunk] by (auto simp: fs_write_all_def Let_def)
  next
    case (Some k)
    show ?thesis
    proof (cases "os_written os = 0")
      case True
      then have "?P data" using Some assms(1,4) by (auto simp: fs_write_all_def Let_def)
      then show ?thesis ..
    next
      case False
      then show ?thesis using Some assms(4) w [of "take (os_written os) chunk"]
        by (auto simp: fs_write_all_def Let_def)
    qed
  qed
qed

lemma fs_read_exact_Inr:
  "fs_read_exact os p i offset len fs = Inr d \<Longrightarrow>
    offset + len \<le> length (ino_data (fs_inodes fs ! i)) \<and>
    d = take len (drop offset (ino_data (fs_inodes fs ! i)))"
  by (auto simp: fs_read_exact_def guarded_def Let_def split: option.splits if_splits)

text \<open>What writing a chunk leaves of the upload and its file.\<close>

lemma write_to_upload_data:
  assumes "separated root (fw_fs w)" "upload_ok root target request (fw_fs w) u data"
    and "bt_get (svc_uploads (fw_service w)) (bu_transfer_id request) = Some u"
    and "in_place data (unat (up_committed_offset u)) acks"
    and "wc_transfer_id chunk = bu_transfer_id request"
    and "unat end_offset = unat (wc_offset chunk) + length (wc_data chunk)" "end_offset \<le> up_size u"
    and "write_to_upload os chunk end_offset u w = (w', r)"
  shows "\<exists>u' data'. bt_get (svc_uploads (fw_service w')) (bu_transfer_id request) = Some u' \<and>
    upload_ok root target request (fw_fs w') u' data' \<and>
    in_place data' (unat (up_committed_offset u')) (acks @ [(chunk, r)])"
proof -
  have "inside root (up_temporary u)" using assms(2) by (simp add: upload_ok_def)
  moreover obtain i n where n: "fs_node (fw_fs w) (up_temporary u) = Some (i, n)" "ino_data n = data"
    using assms(2) by (auto simp: upload_ok_def)
  moreover obtain fs1 opened where o: "open_upload_file os (up_temporary u) (fw_fs w) = (fs1, opened)"
    by fastforce
  ultimately have fs1: "fs1 = fw_fs w" and i: "opened = Inr j \<Longrightarrow> j = i" for j
    using open_existing [OF assms(1)] by blast+
  have w1: "w \<lparr> fw_fs := fw_fs w \<rparr> = w" by simp
  have ni: "fs_inodes (fw_fs w) ! i = n" using fs_node_member(3) [OF n(1)] by simp
  have fail: ?thesis if "w' = w" "\<not> is_ok r"
    using that assms(2-4) by (auto simp: in_place_snoc)
  consider e where "opened = Inl e" | "opened = Inr i" "wc_offset chunk < up_committed_offset u"
    | "opened = Inr i" "wc_offset chunk > up_committed_offset u"
    | "opened = Inr i" "wc_offset chunk = up_committed_offset u"
    using i by (cases opened) force+
  then show ?thesis
  proof cases
    case 1
    then show ?thesis using assms(8) fail by (auto simp: write_to_upload_def o fs1 w1)
  next
    case 2
    then have w': "w' = w" using assms(8) by (auto simp: write_to_upload_def o fs1 w1 Let_def)
    have "end_offset \<le> up_committed_offset u \<and>
        take (length (wc_data chunk)) (drop (unat (wc_offset chunk)) data) = wc_data chunk"
      if "r = Inr st" for st
      using 2 assms(8) that n(2) ni fs_read_exact_Inr [of os "up_temporary u" i
          "unat (wc_offset chunk)" "length (wc_data chunk)" "fw_fs w"]
      by (auto simp: write_to_upload_def o fs1 Let_def result_simps split: if_splits)
    then show ?thesis using assms(2-4,6) w' by (cases r) (auto simp: in_place_snoc word_le_nat_alt)
  next
    case 3
    then have "\<not> wc_offset chunk < up_committed_offset u" "wc_offset chunk \<noteq> up_committed_offset u"
      by auto
    then show ?thesis
      using 3(1) assms(8) fail by (auto simp: write_to_upload_def o fs1 file_error_def)
  next
    case 4
    obtain fs2 written where wr: "fs_write_all os (up_temporary u) i (unat (up_committed_offset u))
        (wc_data chunk) (fw_fs w) = (fs2, written)" by fastforce
    have size: "unat (up_committed_offset u) + length (wc_data chunk) \<le> unat (bu_size request)"
      using assms(2,6,7) 4(2) by (auto simp: upload_ok_def word_le_nat_alt)
    obtain data' where d: "upload_ok root target request fs2 u data'"
      "take (unat (up_committed_offset u)) data' = take (unat (up_committed_offset u)) data"
      "written = Inr () \<Longrightarrow> data' = write_data (unat (up_committed_offset u)) (wc_data chunk) data"
      using upload_ok_write [OF assms(2) n(1) size wr] by blast
    have acks: "in_place data' (unat (up_committed_offset u)) acks"
      by (rule in_place_mono [OF assms(4) d(2)]) simp
    show ?thesis
    proof (cases written)
      case (Inl e)
      then show ?thesis
        using assms(3,8) 4 wr d(1) acks
        by (auto simp: write_to_upload_def o fs1 Let_def map_io_def in_place_snoc file_error_def)
    next
      case (Inr x)
      let ?u = "u \<lparr> up_committed_offset := end_offset \<rparr>"
      have w': "fw_fs w' = fs2" "bt_get (svc_uploads (fw_service w')) (bu_transfer_id request) = Some ?u"
        using assms(5,8) 4 wr Inr
        by (auto simp: write_to_upload_def o fs1 Let_def map_io_def bt_get_insert_same)
      have c: "unat (up_committed_offset u) \<le> length data" using assms(2) by (simp add: upload_ok_def)
      have d': "data' = write_data (unat (up_committed_offset u)) (wc_data chunk) data"
        using d(3) Inr by simp
      have "upload_ok root target request fs2 ?u data'"
        using d(1) assms(6) 4(2) length_write_data [OF c] by (auto simp: upload_ok_def d')
      moreover have "in_place data' (unat end_offset) acks"
        by (rule in_place_mono [OF assms(4) d(2)]) (use assms(6) 4(2) in simp)
      ultimately show ?thesis
        using w' 4(2) assms(6) written_data [OF c] by (auto simp: in_place_snoc d')
    qed
  qed
qed

lemma write_chunk_uploading:
  assumes "uploading root target request acks w" "wc_transfer_id chunk = bu_transfer_id request"
    and "write_chunk os sha p chunk w = (w', r)"
  shows "uploading root target request (acks @ [(chunk, r)]) w'"
proof -
  obtain u data where u: "bt_get (svc_uploads (fw_service w)) (bu_transfer_id request) = Some u"
    "upload_ok root target request (fw_fs w) u data" "in_place data (unat (up_committed_offset u)) acks"
    and w: "root_of w = root" "uploads_inside w" "separated root (fw_fs w)"
    using assms(1) by (auto simp: uploading_def)
  have "step_inside w w'" using write_chunk_inside [OF w(2), of os sha p chunk] assms(3) by simp
  then have keep: "root_of w' = root" "uploads_inside w'" "separated root (fw_fs w')"
    using w by (auto simp: step_inside_def confined_def)
  have fail: ?thesis if "w' = w" "\<not> is_ok r"
    using that u w by (auto simp: uploading_def in_place_snoc)
  show ?thesis
  proof (cases "check_chunk_request sha p chunk")
    case (Inl e)
    then show ?thesis using assms(3) fail by (auto simp: write_chunk_def)
  next
    case (Inr x)
    then have len: "length (wc_data chunk) \<le> MAX_FILE_CHUNK_SIZE"
      by (auto simp: check_chunk_request_def result_simps split: if_splits)
    have "up_state u = UploadActive" using u(2) by (simp add: upload_ok_def)
    note rest = assms(2,3) Inr u(1) this
    show ?thesis
    proof (cases "checked_add (wc_offset chunk) (word_of_nat (length (wc_data chunk)))")
      case None
      then show ?thesis using rest fail by (auto simp: write_chunk_def file_error_def)
    next
      case (Some end_offset)
      have end_offset: "unat end_offset = unat (wc_offset chunk) + length (wc_data chunk)"
        using Some len by (simp add: checked_add_Some unat_word_of_nat_64 MAX_FILE_CHUNK_SIZE_def)
      show ?thesis
      proof (cases "up_size u < end_offset")
        case True
        then show ?thesis using rest Some fail by (auto simp: write_chunk_def file_error_def)
      next
        case False
        then have "write_to_upload os chunk end_offset u w = (w', r)"
          using rest Some by (simp add: write_chunk_def)
        from write_to_upload_data [OF w(3) u(2,1,3) assms(2) end_offset _ this] False keep
        show ?thesis by (simp add: uploading_def)
      qed
    qed
  qed
qed

lemma send_chunks_uploading:
  assumes "uploading root target request acks w"
    and "list_all (\<lambda>(os, c). wc_transfer_id c = bu_transfer_id request) chunks"
    and "send_chunks sha p chunks w = (w', acks')"
  shows "uploading root target request (acks @ acks') w'"
  using assms
proof (induction chunks arbitrary: w acks acks')
  case (Cons c chunks)
  obtain os chunk where c: "c = (os, chunk)" by fastforce
  obtain w1 r where w1: "write_chunk os sha p chunk w = (w1, r)" by fastforce
  obtain w2 acks2 where w2: "send_chunks sha p chunks w1 = (w2, acks2)" by fastforce
  have "uploading root target request (acks @ [(chunk, r)]) w1"
    by (rule write_chunk_uploading [OF Cons.prems(1) _ w1]) (use Cons.prems(2) c in simp)
  moreover have "w2 = w'" "acks' = (chunk, r) # acks2" using Cons.prems(3) c w1 w2 by simp_all
  ultimately show ?case using Cons.IH [of "acks @ [(chunk, r)]" w1 acks2] Cons.prems(2) c w2 by simp
qed simp

section \<open>Beginning\<close>

lemma open_upload_node:
  assumes "open_upload_file os p fs = (fs', Inr i)" "separated root fs" "inside root p"
  shows "fs_node fs' p = Some (i, fs_inodes fs' ! i)"
proof -
  have m: "(p, i) \<in> set (fs_names fs')" by (rule open_upload_member [OF assms])
  have "separated root fs'"
    using open_upload_confined [OF assms(1,3)] assms(2) by (simp add: confined_def)
  then show ?thesis
    using m separatedD(1,2) by (simp add: fs_node_def)
qed

lemma start_upload_uploading:
  assumes "start_upload os target temporary request w = Some (w', Inr status)"
    and "separated root (fw_fs w)" "inside root target" "inside root temporary"
    and "length temporary = length target"
  shows "\<exists>u data. bt_get (svc_uploads (fw_service w')) (bu_transfer_id request) = Some u \<and>
    upload_ok root target request (fw_fs w') u data"
proof -
  obtain fs' r where o: "open_upload_file os temporary (fw_fs w) = (fs', r)" by fastforce
  have node: "fs_node fs' temporary = Some (i, fs_inodes fs' ! i)" if "r = Inr i" for i
    by (rule open_upload_node [OF o [unfolded that] assms(2,4)])
  have fit: "unat (word_of_nat n :: u64) = n" if "\<not> unat (bu_size request) < n" for n
    using that unsigned_less [of "bu_size request", where ?'a = nat] by (intro unat_word_of_nat_64) simp
  show ?thesis
    using assms(1,3-5) node fit
    by (auto simp: start_upload_def o Let_def add_upload_def new_upload_def bt_get_insert_same upload_ok_def
        file_error_def map_io_def guarded_def split: option.splits sum.splits prod.splits if_splits)
qed

lemma temporary_length:
  assumes "resolve_new os fs root raw = Inr target" "upload_temporary_path target transfer_id = Inr temporary"
  shows "length temporary = length target"
proof -
  obtain parent name where t: "target = parent @ [Normal name]" "inside root parent"
    by (rule resolve_new_inside [OF assms(1)])
  then show ?thesis
    using assms(2) by (auto simp: upload_temporary_path_def path_parent_def join_name inside_def
        canonical_nonempty)
qed

lemma begin_upload_uploading:
  assumes "begin_upload os sha p request w = Some (w', Inr status)" "us_state status = ''active''"
    and "bt_get (svc_uploads (fw_service w)) (bu_transfer_id request) = None"
    and "uploads_inside w" "separated (root_of w) (fw_fs w)"
  shows "\<exists>target. resolve_new os (fw_fs w) (root_of w) (bu_path request) = Inr target \<and>
    uploading (root_of w) target request [] w'"
proof -
  have "step_inside w w'" by (rule begin_upload_inside [OF assms(1,4)])
  then have keep: "root_of w' = root_of w" "uploads_inside w'" "separated (root_of w) (fw_fs w')"
    using assms(5) by (auto simp: step_inside_def confined_def)
  obtain target temporary where tt: "and_then (validate_transfer_id p (bu_transfer_id request)) (\<lambda>_.
        and_then (validate_digest (bu_sha256 request) True) (\<lambda>_.
        and_then (resolve_new os (fw_fs w) (svc_root (fw_service w)) (bu_path request)) (\<lambda>target.
        and_then (upload_temporary_path target (bu_transfer_id request)) (\<lambda>temporary.
          Inr (target, temporary))))) = Inr (target, temporary)"
    using assms(1) unfolding begin_upload_def by (auto split: sum.splits)
  have rn: "resolve_new os (fw_fs w) (root_of w) (bu_path request) = Inr target"
    and tp: "upload_temporary_path target (bu_transfer_id request) = Inr temporary"
    using tt by (auto simp: result_simps root_of_def)
  obtain w1 where w1: "retain_active w = Some w1"
    using assms(1,3) tt by (auto simp: begin_upload_def bind_eq_Some_conv)
  have fs1: "fw_fs w1 = fw_fs w" by (rule retain_active_inside [OF w1 assms(4)])
  have "existing_target sha os (fw_fs w1) target request = Inr False"
    using assms(1-3) tt w1
    by (auto simp: begin_upload_def Let_def Upload_status_def new_upload_def split: sum.splits bool.splits)
  then have "start_upload os target temporary request w1 = Some (w', Inr status)"
    using assms(1,3) tt w1 by (simp add: begin_upload_def)
  then have "\<exists>u data. bt_get (svc_uploads (fw_service w')) (bu_transfer_id request) = Some u \<and>
      upload_ok (root_of w) target request (fw_fs w') u data"
    using assms(5) fs1 resolve_new_starts [OF rn] temporary_inside [OF rn tp] temporary_length [OF rn tp]
    by (intro start_upload_uploading [where w = w1 and temporary = temporary]) simp_all
  then show ?thesis using rn keep by (auto simp: uploading_def in_place_def)
qed

section \<open>Publishing\<close>

lemma map_of_renamed_target:
  assumes "\<not> path_starts_with p q"
  shows "map_of (rename_names p q names) q = map_of names p"
proof (induction names)
  case (Cons e names)
  obtain k i where e: "e = (k, i)" by fastforce
  have "k = p" if "path_starts_with k p" "q @ drop (length p) k = q"
    using that by (auto elim!: path_starts_withE)
  then show ?case using Cons assms by (auto simp: rename_names_def e)
qed (simp add: rename_names_def)

lemma same_length_apart: "length p = length q \<Longrightarrow> path_starts_with p q \<longleftrightarrow> p = q"
  by (auto simp: path_starts_with_def)

lemma at_path_inside:
  assumes "separated root fs" "inside root p" "at_path os call follow p fs f = (fs', Inr x)"
  shows "f p = (fs', Inr x)"
  using assms(3) fs_resolve_inside [OF assms(1,2)]
  by (auto simp: at_path_def split: option.splits sum.splits)

lemma renamed_node:
  assumes "separated root fs" "inside root p" "inside root q" "length p = length q"
    and "fs_node fs p = Some (i, n)" "fs_rename os p q fs = (fs', Inr ())"
  shows "fs_node fs' q = Some (i, n)"
proof -
  have i: "map_of (fs_names fs) p = Some i"
    using assms(5) by (auto simp: fs_node_def bind_eq_Some_conv split: if_splits)
  from at_path_inside [OF assms(1,3) at_path_inside [OF assms(1,2) assms(6) [unfolded fs_rename_def]]] i
  have "fs' = fs \<and> map_of (fs_names fs) q = Some i \<or>
      p \<noteq> q \<and> fs' = fs \<lparr> fs_names := rename_names p q (fs_names fs) \<rparr>"
    using same_length_apart [OF assms(4)] by (auto split: if_splits)
  then show ?thesis
    using assms(5) i map_of_renamed_target same_length_apart [OF assms(4)]
    by (auto simp: fs_node_def split: if_splits)
qed

lemma publish_data:
  assumes "separated root fs" "inside root (up_temporary u)" "inside root (up_target u)"
    and "length (up_temporary u) = length (up_target u)"
    and "fs_node fs (up_temporary u) = Some (i, n)" "publish os u fs = (fs', Inr ())"
  shows "fs_node fs' (up_target u) = Some (i, n)"
proof (cases "up_overwrite u")
  case True
  then have "fs_rename os (up_temporary u) (up_target u) fs = (fs', Inr ())"
    using assms(6) by (auto simp: publish_def result_simps split: prod.splits)
  then show ?thesis by (rule renamed_node [OF assms(1-5)])
next
  case False
  obtain fs1 r1 where l: "fs_hard_link os (up_temporary u) (up_target u) fs = (fs1, r1)" by fastforce
  have r1: "r1 = Inr ()" using False assms(6) l
    by (cases r1) (auto simp: publish_def map_io_def file_error_def)
  have fs1: "fs1 = fs \<lparr> fs_names := AList.update (up_target u) i (fs_names fs) \<rparr>"
    and apart: "map_of (fs_names fs) (up_target u) = None"
    using at_path_inside [OF assms(1,3) at_path_inside [OF assms(1,2)
          l [unfolded fs_hard_link_def r1]]] assms(5)
    by (auto split: if_splits)
  have ne: "up_temporary u \<noteq> up_target u" using assms(5) apart by (auto simp: fs_node_def)
  have d: "fs_remove_file os (up_temporary u) fs1 = (fs', Inr ())"
    using False assms(6) l r1 by (auto simp: publish_def map_io_Inr map_io_def split: prod.splits sum.splits)
  have sep: "separated root fs1"
    using confined_calls(4) [OF assms(2,3), of fs os] l assms(1) by (simp add: confined_def)
  have "fs' = fs1 \<lparr> fs_names := AList.delete (up_temporary u) (fs_names fs1) \<rparr>"
    using at_path_inside [OF sep assms(2) d [unfolded fs_remove_file_def]]
    by (auto split: option.splits if_splits)
  then show ?thesis
    using ne assms(5) by (auto simp: fs1 fs_node_def delete_conv' update_conv' split: bind_splits if_splits)
qed

lemma sync_and_publish_data:
  assumes "separated root fs" "inside root (up_temporary u)" "inside root (up_target u)"
    and "length (up_temporary u) = length (up_target u)"
    and "fs_node fs (up_temporary u) = Some (i, n)" "sync_and_publish os u fs = (fs', Inr ())"
  shows "\<exists>n'. fs_node fs' (up_target u) = Some (i, n') \<and> ino_data n' = ino_data n"
proof -
  obtain fs1 opened where o: "open_upload_file os (up_temporary u) fs = (fs1, opened)" by fastforce
  have fs1: "fs1 = fs" by (rule open_existing(1) [OF assms(1,2,5) o])
  obtain fs2 r2 where s: "(if up_mode u \<noteq> 0 then fs_set_permissions os (up_temporary u) (up_mode u) fs1
      else (fs1, Inr ())) = (fs2, r2)" by fastforce
  have p: "publish os u fs2 = (fs', Inr ())" and r2: "r2 = Inr ()"
    using assms(6) unfolding sync_and_publish_def o Let_def prod.case s
    by (auto simp: map_io_Inr split: sum.splits)
  have sep: "separated root fs2"
    using s confined_calls(2) [OF assms(2), of fs os "up_mode u"] assms(1)
    by (auto simp: fs1 confined_def split: if_splits)
  have "\<exists>n'. fs_node fs2 (up_temporary u) = Some (i, n') \<and> ino_data n' = ino_data n"
  proof (cases "up_mode u = 0")
    case True
    then show ?thesis using s assms(5) fs1 by simp
  next
    case False
    then have "fs_set_permissions os (up_temporary u) (up_mode u) fs = (fs2, Inr ())"
      using s r2 fs1 by simp
    from at_path_inside [OF assms(1,2) this [unfolded fs_set_permissions_def]]
    have "fs2 = update_inode i (\<lambda>n. n \<lparr> ino_mode := up_mode u \<rparr>) fs" using assms(5) by simp
    then show ?thesis using assms(5) by (simp add: fs_node_update_inode)
  qed
  then show ?thesis using publish_data [OF sep assms(2-4) _ p] by blast
qed

lemma node_at_inside:
  assumes "separated root fs" "inside root p" "node_at fs follow p = Inr m"
  shows "fs_node fs p = Some m"
proof -
  obtain q where q: "fs_resolve fs follow p = Inr q" "fs_node fs q = Some m"
    using assms(3) by (auto simp: node_at_def result_simps split: option.splits)
  then show ?thesis using fs_resolve_inside [OF assms(1,2) q(1)] by simp
qed

lemma commit_upload_data:
  assumes "uploading root target request acks w"
    and "commit_upload os sha p (bu_transfer_id request) w = Some (w', Inr status)"
  shows "\<exists>i n. fs_node (fw_fs w') target = Some (i, n) \<and>
    length (ino_data n) = unat (bu_size request) \<and>
    (length (bu_sha256 request) = 32 \<longrightarrow> sha (ino_data n) = bu_sha256 request) \<and>
    in_place (ino_data n) (unat (bu_size request)) acks"
proof -
  obtain u data where u: "bt_get (svc_uploads (fw_service w)) (bu_transfer_id request) = Some u"
    "upload_ok root target request (fw_fs w) u data" "in_place data (unat (up_committed_offset u)) acks"
    and sep: "separated root (fw_fs w)"
    using assms(1) by (auto simp: uploading_def)
  obtain i n where n: "fs_node (fw_fs w) (up_temporary u) = Some (i, n)" "ino_data n = data"
    using u(2) by (auto simp: upload_ok_def)
  have ok: "up_state u = UploadActive" "up_target u = target" "up_size u = bu_size request"
    "up_expected_sha256 u = bu_sha256 request" "inside root (up_temporary u)" "inside root target"
    "length (up_temporary u) = length target" "unat (up_committed_offset u) \<le> length data"
    "length data \<le> unat (bu_size request)"
    using u(2) by (simp_all add: upload_ok_def)
  note commit = assms(2) [unfolded commit_upload_def, simplified u(1) option.case ok(1-4)]
  have committed: "up_committed_offset u = bu_size request"
    using commit by (auto split: sum.splits if_splits)
  obtain fs' where s: "sync_and_publish os u (fw_fs w) = (fs', Inr ())" "fw_fs w' = fs'"
    using commit committed by (auto simp: Let_def split: sum.splits if_splits prod.splits)
  have digest: "sha data = bu_sha256 request" if "length (bu_sha256 request) = 32"
  proof -
    have "is_ok (sha256_file sha os (fw_fs w) (up_temporary u))"
      "sha256_file sha os (fw_fs w) (up_temporary u) = Inr d \<Longrightarrow> d = bu_sha256 request" for d
      using commit committed that
      by (cases "sha256_file sha os (fw_fs w) (up_temporary u)"; auto split: sum.splits if_splits)+
    moreover have "d = sha data" if "sha256_file sha os (fw_fs w) (up_temporary u) = Inr d" for d
      using that n node_at_inside [OF sep ok(5)]
      by (fastforce simp: sha256_file_def fs_read_file_def guarded_def result_simps
          split: option.splits if_splits)
    ultimately show ?thesis by (auto simp: is_ok_iff)
  qed
  obtain n' where "fs_node fs' target = Some (i, n')" "ino_data n' = data"
    using sync_and_publish_data [OF sep ok(5) _ _ n(1) s(1)] ok n(2) by auto
  then show ?thesis using s(2) ok(8,9) committed u(3) digest by auto
qed

section \<open>A concrete upload\<close>

definition demo_upload_request :: BeginUploadRequest where
  "demo_upload_request = \<lparr> bu_transfer_id = ''u'', bu_path = ''f'', bu_size = 3,
    bu_sha256 = demo_sha [1, 2, 3], bu_overwrite = False, bu_mode = 0 \<rparr>"

definition demo_chunk :: "u64 \<Rightarrow> bytes \<Rightarrow> WriteFileChunkRequest" where
  "demo_chunk offset data = \<lparr> wc_transfer_id = ''u'', wc_offset = offset, wc_data = data,
    wc_sha256 = demo_sha data, wc_encoding = 0, wc_uncompressed_size = 0 \<rparr>"

definition demo_temporary :: path where
  "demo_temporary = [RootDir, Normal ''srv'', Normal ''.astra-upload-u.part'']"

definition demo_data :: "bytes \<Rightarrow> inode" where
  "demo_data data = (demo_node KindFile []) \<lparr> ino_data := data, ino_mode := 384 \<rparr>"

definition demo_fs_data :: "bytes \<Rightarrow> filesystem" where
  "demo_fs_data data = add_node demo_temporary (demo_data data) demo_fs"

definition demo_active :: "u64 \<Rightarrow> Upload" where
  "demo_active offset = new_upload demo_upload_request [RootDir, Normal ''srv'', Normal ''f'']
    demo_temporary offset UploadActive (Some [])"

definition demo_uploading :: "bytes \<Rightarrow> u64 \<Rightarrow> file_world" where
  "demo_uploading data offset = demo_world \<lparr> fw_fs := demo_fs_data data,
    fw_service := demo_service \<lparr> svc_uploads := [(''u'', demo_active offset)] \<rparr> \<rparr>"

lemma demo_resolved:
  "resolve_new demo_os demo_fs [RootDir, Normal ''srv''] ''f'' = Inr [RootDir, Normal ''srv'', Normal ''f'']"
  "upload_temporary_path [RootDir, Normal ''srv'', Normal ''f''] ''u'' = Inr demo_temporary"
  "fs_exists demo_os demo_fs [RootDir, Normal ''srv'', Normal ''f''] = False"
  "fs_resolve demo_fs False demo_temporary = Inr demo_temporary"
  "fs_node demo_fs demo_temporary = None"
  by code_simp+

lemma demo_resolved_data:
  "fs_resolve (demo_fs_data data) False demo_temporary = Inr demo_temporary"
  "fs_node (demo_fs_data data) demo_temporary = Some (3, demo_data data)"
  by (simp_all add: demo_fs_data_def fs_resolve_def add_node_def demo_fs_def demo_temporary_def fs_node_def
    demo_node_def demo_data_def)

lemma demo_open:
  "open_upload_file demo_os demo_temporary demo_fs = (demo_fs_data [], Inr 3)"
  "open_upload_file demo_os demo_temporary (demo_fs_data data) = (demo_fs_data data, Inr 3)"
  by (simp_all add: open_upload_file_def fs_open_create_def at_path_def demo_os_def demo_resolved demo_resolved_data
     guarded_def map_io_def demo_data_def new_file_def demo_node_def)
    (simp_all add: demo_fs_data_def demo_data_def demo_node_def add_node_def demo_fs_def)

lemma demo_started:
  "start_upload demo_os [RootDir, Normal ''srv'', Normal ''f''] demo_temporary
      demo_upload_request demo_world = Some (demo_uploading [] 0, Inr (Upload_status (demo_active 0)))"
proof -
  have "fw_fs demo_world = demo_fs" "svc_resources (fw_service demo_world) = []"
    "fw_store demo_world = []" by (simp_all add: demo_world_def demo_service_def)
  moreover have "length (ino_data (fs_inodes (demo_fs_data []) ! 3)) = 0"
    by (simp add: demo_fs_data_def add_node_def demo_fs_def demo_data_def demo_node_def)
  moreover have "map_io m (guarded demo_os c p (Inr x)) = Inr x" for m c p and x :: nat
    by (simp add: map_io_def guarded_def demo_os_def)
  moreover have "add_upload (new_upload demo_upload_request [RootDir, Normal ''srv'', Normal ''f'']
      demo_temporary 0 UploadActive (Some [])) (demo_world \<lparr> fw_fs := demo_fs_data [], fw_store := [] \<rparr>)
      = demo_uploading [] 0"
    by (simp add: add_upload_def demo_uploading_def demo_active_def with_uploads_def new_upload_def
        demo_world_def demo_service_def demo_upload_request_def)
  ultimately show ?thesis
    by (simp add: start_upload_def ResourceAccount_reserve_def demo_open demo_active_def Let_def)
qed

lemma demo_begin:
  "begin_upload demo_os demo_sha Some demo_upload_request demo_world
    = Some (demo_uploading [] 0, Inr (Upload_status (demo_active 0)))"
proof -
  have e: "existing_target demo_sha demo_os demo_fs [RootDir, Normal ''srv'', Normal ''f'']
      demo_upload_request = Inr False"
    by (simp add: existing_target_def demo_resolved)
  have "retain_active demo_world = Some demo_world"
    by (simp add: retain_active_def demo_world_def demo_service_def with_uploads_def)
  moreover have "fw_fs demo_world = demo_fs" "svc_root (fw_service demo_world) = [RootDir, Normal ''srv'']"
    "svc_uploads (fw_service demo_world) = []" by (simp_all add: demo_world_def demo_service_def)
  moreover have "bu_transfer_id demo_upload_request = ''u''" "bu_path demo_upload_request = ''f''"
    "validate_digest (bu_sha256 demo_upload_request) True = Inr ()"
    by (simp_all add: demo_upload_request_def validate_digest_def demo_sha_def)
  ultimately show ?thesis
    unfolding begin_upload_def by (simp add: e validate_transfer_id_def demo_resolved demo_started)
qed

definition demo_fault_os :: os where
  "demo_fault_os = demo_os \<lparr> os_fault := (\<lambda>call _. if call = ''write_all'' then Some OtherKind else None),
    os_written := 1 \<rparr>"

lemma demo_chunk_ok: "data \<noteq> [] \<Longrightarrow> length data \<le> 3 \<Longrightarrow>
    check_chunk_request demo_sha Some (demo_chunk offset data) = Inr ()"
  by (simp add: check_chunk_request_def demo_chunk_def validate_transfer_id_def validate_digest_def
      demo_sha_def MAX_FILE_CHUNK_SIZE_def)

lemma demo_upload_fields:
  "up_temporary (demo_active k) = demo_temporary" "up_committed_offset (demo_active k) = k"
  "up_size (demo_active k) = 3" "up_state (demo_active k) = UploadActive"
  "demo_active k \<lparr> up_committed_offset := j \<rparr> = demo_active j"
  "bt_get (svc_uploads (fw_service (demo_uploading data k))) ''u'' = Some (demo_active k)"
  "fw_fs (demo_uploading data k) = demo_fs_data data"
  by (simp_all add: demo_active_def new_upload_def demo_upload_request_def demo_uploading_def bt_get_def
      demo_world_def)

lemma demo_open_fault:
  "open_upload_file demo_fault_os demo_temporary (demo_fs_data data) = (demo_fs_data data, Inr 3)"
  by (simp add: open_upload_file_def fs_open_create_def at_path_def demo_os_def demo_fault_os_def
     demo_resolved_data guarded_def map_io_def demo_data_def demo_node_def)
    (simp add: demo_fs_data_def demo_data_def demo_node_def add_node_def demo_fs_def)

lemma demo_write:
  "fs_write_all demo_os demo_temporary 3 n part (demo_fs_data data)
    = (demo_fs_data (write_data n part data), Inr ())"
  "fs_write_all demo_fault_os demo_temporary 3 n part (demo_fs_data data)
    = (demo_fs_data (write_data n (take 1 part) data), Inl OtherKind)"
  by (simp_all add: fs_write_all_def demo_os_def demo_fault_os_def update_inode_def demo_fs_data_def
      demo_data_def demo_node_def add_node_def demo_fs_def)

lemma demo_put:
  assumes "checked_add k (word_of_nat (length part)) = Some j" "j \<le> 3" "part \<noteq> []" "length part \<le> 3"
  shows "write_chunk demo_os demo_sha Some (demo_chunk k part) (demo_uploading data k)
      = (demo_uploading (write_data (unat k) part data) j, Inr (Upload_status (demo_active j)))"
    and "write_chunk demo_fault_os demo_sha Some (demo_chunk k part) (demo_uploading data k)
      = (demo_uploading (write_data (unat k) (take 1 part) data) k,
         file_error ''filesystem'' ''cannot write upload at offset {offset}'')"
proof -
  have c: "wc_transfer_id (demo_chunk k part) = ''u''" "wc_offset (demo_chunk k part) = k"
    "wc_data (demo_chunk k part) = part" by (simp_all add: demo_chunk_def)
  have "with_uploads (bt_insert ''u'' (demo_active j) (svc_uploads (fw_service (demo_uploading d k))))
      (demo_uploading d k) = demo_uploading d j"
    "demo_uploading data k \<lparr> fw_fs := demo_fs_data d \<rparr> = demo_uploading d k" for d
    by (simp_all add: with_uploads_def demo_uploading_def demo_world_def)
  moreover have "\<not> 3 < j" using assms(2) by simp
  ultimately show "write_chunk demo_os demo_sha Some (demo_chunk k part) (demo_uploading data k)
      = (demo_uploading (write_data (unat k) part data) j, Inr (Upload_status (demo_active j)))"
    and "write_chunk demo_fault_os demo_sha Some (demo_chunk k part) (demo_uploading data k)
      = (demo_uploading (write_data (unat k) (take 1 part) data) k,
         file_error ''filesystem'' ''cannot write upload at offset {offset}'')"
    using assms(1,3,4)
    by (simp_all add: write_chunk_def write_to_upload_def c demo_upload_fields demo_chunk_ok demo_open
        demo_open_fault demo_write map_io_def Let_def file_error_def)
qed

lemma demo_committed:
  "\<exists>w status. commit_upload demo_os demo_sha Some ''u'' (demo_uploading [1, 2, 3] 3) = Some (w, Inr status)"
proof -
  have "fs_exists demo_os (demo_fs_data [1, 2, 3]) (up_target (demo_active 3)) = False"
    by code_simp
  moreover have "sha256_file demo_sha demo_os (demo_fs_data [1, 2, 3]) demo_temporary = Inr (demo_sha [1, 2, 3])"
    by (simp add: sha256_file_def fs_read_file_def node_at_def guarded_def demo_os_def map_io_def
       fs_resolve_def demo_fs_data_def add_node_def demo_fs_def demo_temporary_def fs_node_def
    demo_node_def demo_data_def)
  moreover have "is_ok (snd (sync_and_publish demo_os (demo_active 3) (demo_fs_data [1, 2, 3])))"
    by code_simp
  moreover have "up_expected_sha256 (demo_active 3) = demo_sha [1, 2, 3]" "up_resources (demo_active 3) = Some []"
    "up_overwrite (demo_active 3) = False"
    by (simp_all add: demo_active_def new_upload_def demo_upload_request_def)
  ultimately show ?thesis
    by (auto simp: commit_upload_def validate_transfer_id_def demo_upload_fields is_ok_iff Let_def split: prod.splits)
qed

section \<open>The promise\<close>



end
