(* ===== verification/File_Links.thy ===== *)
theory File_Links
  imports File_Listing File_Upload
begin

text \<open>
  Symbolic links and the root of the file service. A request that resolves its paths anew
  stays below the root whatever links there are: the parent is canonicalised before it is
  compared with the root, and the last component is never followed. An upload, however,
  keeps the paths that were resolved when it began; the last theorem shows where they
  lead once a directory on the way was renamed and a link took its place.
\<close>

section \<open>Canonical places\<close>

lemma canonicalized_child:
  assumes "fs_canonicalize os fs p = Inr parent" "fs_resolve fs False (parent @ [Normal name]) = Inr q"
  shows "q = parent @ [Normal name]"
proof -
  have r: "fs_resolve fs True p = Inr parent" "fs_node fs parent \<noteq> None"
    using assms(1) by (auto simp: fs_canonicalize_def guarded_def result_simps split: option.splits if_splits)
  then have c: "canonical parent" by (blast intro: fs_resolve_canonical)
  have w: "fs_walk fs True MAX_LINKS [RootDir] p = Inr parent"
    using r(1) by (auto simp: fs_resolve_def split: if_splits)
  have b: "solid fs (butlast parent)" by (rule fs_walk_solid [OF w]) simp
  show ?thesis
  proof (cases "length parent = 1")
    case True
    then have "parent = [RootDir]" using c by (cases parent) (auto simp: canonical_def)
    then show ?thesis using assms(2) by (auto simp: fs_resolve_def split: option.splits if_splits)
  next
    case False
    then obtain d c' where d: "parent = d @ [c']" "d \<noteq> []"
      using c by (cases parent rule: rev_cases) (auto simp: canonical_def)
    then obtain last where last: "c' = Normal last"
      using c by (cases d; cases c') (auto simp: canonical_def)
    obtain rest where rest: "d = RootDir # rest" "list_all is_normal rest"
      using c d by (cases d) (auto simp: canonical_def)
    obtain j k where k: "fs_node fs parent = Some (j, k)" using r(2) by auto
    have nolink: "ino_kind k \<noteq> KindSymlink"
      by (rule fs_walk_follow_not_link [OF w]) (use d k in \<open>auto simp: Suc_le_eq\<close>)
    have "fs_walk fs False MAX_LINKS [RootDir] (rest @ Normal last # [Normal name])
        = fs_walk fs False MAX_LINKS ([RootDir] @ rest) (Normal last # [Normal name])"
      by (rule fs_walk_again_tail) (use b d rest in simp_all)
    then show ?thesis
      using assms(2) k nolink d rest last
      by (auto simp: fs_resolve_def split: option.splits if_splits)
  qed
qed

lemma canonicalized_self:
  assumes "fs_canonicalize os fs p = Inr d" "fs_resolve fs False d = Inr q"
  shows "q = d"
proof -
  have r: "fs_resolve fs True p = Inr d"
    using assms(1) by (auto simp: fs_canonicalize_def guarded_def result_simps split: option.splits if_splits)
  then have c: "canonical d" by (blast intro: fs_resolve_canonical)
  have w: "fs_walk fs True MAX_LINKS [RootDir] p = Inr d"
    using r by (auto simp: fs_resolve_def split: if_splits)
  have b: "solid fs (butlast d)" by (rule fs_walk_solid [OF w]) simp
  show ?thesis
  proof (cases "length d = 1")
    case True
    then have "d = [RootDir]" using c by (cases d) (auto simp: canonical_def)
    then show ?thesis using assms(2) by (simp add: fs_resolve_def)
  next
    case False
    then obtain e c' where d: "d = e @ [c']" "e \<noteq> []"
      using c by (cases d rule: rev_cases) (auto simp: canonical_def)
    then obtain name where name: "c' = Normal name"
      using c by (cases e; cases c') (auto simp: canonical_def)
    have "canonical e" using c d by (cases e) (auto simp: canonical_def)
    then show ?thesis using assms(2) fs_resolve_child [of fs e name] b d name by simp
  qed
qed

section \<open>Fresh requests\<close>

text \<open>The place a call works on when its path resolves to itself, and what each change
  leaves of the names outside.\<close>

lemma at_path_settled:
  assumes "\<And>q. fs_resolve fs follow p = Inr q \<Longrightarrow> q = p"
  shows "fst (at_path os call follow p fs f) = fs \<or> fst (at_path os call follow p fs f) = fst (f p)"
  using assms by (cases "fs_resolve fs follow p") (auto simp: at_path_def split: option.split)

definition same_outside :: "path \<Rightarrow> filesystem \<Rightarrow> filesystem \<Rightarrow> bool" where
  "same_outside root fs fs' \<longleftrightarrow>
    (\<forall>q. \<not> path_starts_with q root \<longrightarrow> map_of (fs_names fs') q = map_of (fs_names fs) q) \<and>
    take (length (fs_inodes fs)) (fs_inodes fs') = fs_inodes fs"

lemma same_outside_refl [simp]: "same_outside root fs fs"
  by (simp add: same_outside_def)

lemma same_outside_node:
  assumes "same_outside root fs fs'" "fs_ok fs" "\<not> path_starts_with q root"
  shows "fs_node fs' q = fs_node fs q"
proof (cases "map_of (fs_names fs) q")
  case None
  then show ?thesis using assms by (simp add: same_outside_def fs_node_def)
next
  case (Some i)
  have t: "take (length (fs_inodes fs)) (fs_inodes fs') = fs_inodes fs" "map_of (fs_names fs') q = Some i"
    using assms(1,3) Some by (simp_all add: same_outside_def)
  have "fs_node fs q = Some (i, fs_inodes fs ! i)" by (rule fs_ok_member(1) [OF assms(2) map_of_SomeD [OF Some]])
  then have i: "i < length (fs_inodes fs)" using fs_node_member(2) by blast
  then have "i < length (fs_inodes fs')" "fs_inodes fs' ! i = fs_inodes fs ! i"
    using t(1) by (metis length_take min_less_iff_conj, metis nth_take t(1))
  then show ?thesis using i t(2) Some by (simp add: fs_node_def)
qed

lemma same_outside_changes:
  assumes "path_starts_with p root"
  shows "same_outside root fs (add_node p n fs)"
    and "same_outside root fs (fs \<lparr> fs_names := AList.delete p (fs_names fs) \<rparr>)"
    and "path_starts_with r root \<Longrightarrow> same_outside root fs (fs \<lparr> fs_names := rename_names p r (fs_names fs) \<rparr>)"
  using outside_apart [OF assms] map_of_renamed_outside [OF assms]
  by (auto simp: same_outside_def add_node_def update_conv' delete_conv')

lemma resolve_new_settled:
  assumes "resolve_new os fs root raw = Inr p"
  shows "path_starts_with p root" "fs_resolve fs False p = Inr q \<Longrightarrow> q = p"
    and "upload_temporary_path p transfer_id = Inr temporary \<Longrightarrow>
      path_starts_with temporary root \<and> (\<forall>q. fs_resolve fs False temporary = Inr q \<longrightarrow> q = temporary)"
proof -
  obtain c parent name where c: "fs_canonicalize os fs c = Inr parent" "p = path_join parent [Normal name]"
    and i: "path_starts_with parent root"
    using assms unfolding resolve_new_def
    by (auto simp: ensure_inside_root_def Let_def result_simps split: option.splits if_splits)
  have ne: "parent \<noteq> []" using fs_canonicalize_canonical [OF c(1)] by (rule canonical_nonempty)
  have p: "p = parent @ [Normal name]" using c(2) ne by (simp add: join_name)
  have child: "path_starts_with (parent @ [Normal n]) root" for n using i by (auto elim!: path_starts_withE)
  show "path_starts_with p root" using child p by simp
  show "fs_resolve fs False p = Inr q \<Longrightarrow> q = p" using canonicalized_child [OF c(1)] p by simp
  show "upload_temporary_path p transfer_id = Inr temporary \<Longrightarrow>
      path_starts_with temporary root \<and> (\<forall>q. fs_resolve fs False temporary = Inr q \<longrightarrow> q = temporary)"
    using canonicalized_child [OF c(1)] child ne p
    by (auto simp: upload_temporary_path_def path_parent_def join_name)
qed

lemma resolve_existing_settled:
  assumes "resolve_existing os fs root raw False = Inr p" "fs_resolve fs False p = Inr q"
  shows "q = p"
proof -
  consider c where "fs_canonicalize os fs c = Inr p"
    | c parent name where "fs_canonicalize os fs c = Inr parent" "p = path_join parent [Normal name]"
    using assms(1) by (auto simp: resolve_existing_def ensure_inside_root_def Let_def result_simps
        split: option.splits if_splits)
  then show ?thesis
  proof cases
    case 1
    then show ?thesis using canonicalized_self assms(2) by blast
  next
    case 2
    then have "parent \<noteq> []" using fs_canonicalize_canonical canonical_nonempty by blast
    then show ?thesis using canonicalized_child 2 assms(2) by (simp add: join_name)
  qed
qed

lemma same_outside_at:
  assumes "\<And>q. fs_resolve fs follow p = Inr q \<Longrightarrow> q = p" "same_outside root fs (fst (f p))"
  shows "same_outside root fs (fst (at_path os call follow p fs f))"
  using at_path_settled [where os = os and call = call and f = f, OF assms(1)] assms(2)
  by (metis same_outside_refl)

lemma same_outside_calls:
  assumes "path_starts_with p root" "\<And>q. fs_resolve fs False p = Inr q \<Longrightarrow> q = p"
  shows "same_outside root fs (fst (fs_open_create os mode p fs))"
    and "same_outside root fs (fst (fs_create_dir os p fs))"
    and "same_outside root fs (fst (fs_remove_file os p fs))"
    and "same_outside root fs (fst (fs_remove_dir os p fs))"
    and "path_starts_with r root \<Longrightarrow> (\<And>q. fs_resolve fs False r = Inr q \<Longrightarrow> q = r) \<Longrightarrow>
      same_outside root fs (fst (fs_rename os p r fs))"
proof -
  note ch = same_outside_changes [OF assms(1)]
  show "same_outside root fs (fst (fs_open_create os mode p fs))"
    unfolding fs_open_create_def by (rule same_outside_at [OF assms(2)]) (auto simp: ch split: option.split)
  show "same_outside root fs (fst (fs_create_dir os p fs))"
    unfolding fs_create_dir_def by (rule same_outside_at [OF assms(2)]) (auto simp: ch)
  show "same_outside root fs (fst (fs_remove_file os p fs))"
    unfolding fs_remove_file_def by (rule same_outside_at [OF assms(2)]) (auto simp: ch split: option.split)
  show "same_outside root fs (fst (fs_remove_dir os p fs))"
    unfolding fs_remove_dir_def by (rule same_outside_at [OF assms(2)]) (auto simp: ch)
  show "same_outside root fs (fst (fs_rename os p r fs))"
    if "path_starts_with r root" "\<And>q. fs_resolve fs False r = Inr q \<Longrightarrow> q = r"
    unfolding fs_rename_def
    by (rule same_outside_at [OF assms(2)], assumption, rule same_outside_at [OF that(2)], assumption)
      (auto simp: ch that(1) split: option.split)
qed

lemma begin_upload_same_outside:
  assumes "begin_upload os sha p request w = Some (w', r)"
  shows "same_outside (svc_root (fw_service w)) (fw_fs w) (fw_fs w')"
proof (cases "and_then (validate_transfer_id p (bu_transfer_id request)) (\<lambda>_.
        and_then (validate_digest (bu_sha256 request) True) (\<lambda>_.
        and_then (resolve_new os (fw_fs w) (svc_root (fw_service w)) (bu_path request)) (\<lambda>target.
        and_then (upload_temporary_path target (bu_transfer_id request)) (\<lambda>temporary.
          Inr (target, temporary)))))")
  case (Inl e)
  then show ?thesis using assms by (auto simp: begin_upload_def)
next
  case (Inr tt)
  obtain target temporary where tt: "tt = (target, temporary)" by fastforce
  have rn: "resolve_new os (fw_fs w) (svc_root (fw_service w)) (bu_path request) = Inr target"
    and tp: "upload_temporary_path target (bu_transfer_id request) = Inr temporary"
    using Inr tt by (auto simp: result_simps)
  note t = resolve_new_settled(3) [OF rn tp]
  have o: "same_outside (svc_root (fw_service w)) (fw_fs w) (fst (open_upload_file os temporary (fw_fs w)))"
    using same_outside_calls(1) [of temporary _ "fw_fs w" os 384] t
    by (simp add: open_upload_file_def case_prod_beta)
  have st: "same_outside (svc_root (fw_service w)) (fw_fs w) (fw_fs w2)"
    if "start_upload os target temporary request w1 = Some (w2, r2)" "fw_fs w1 = fw_fs w" for w1 w2 r2
    using that o by (auto simp: start_upload_def add_upload_def Let_def split: option.splits sum.splits
        prod.splits if_splits)
  show ?thesis
  proof (cases "bt_get (svc_uploads (fw_service w)) (bu_transfer_id request)")
    case (Some existing)
    then show ?thesis using assms Inr tt by (auto simp: begin_upload_def)
  next
    case None
    then obtain w1 where w1: "retain_active w = Some w1"
      using assms Inr tt by (auto simp: begin_upload_def bind_eq_Some_conv)
    then have fs1: "fw_fs w1 = fw_fs w" by (auto simp: retain_active_def Let_def)
    show ?thesis
      using assms Inr tt None w1 st [OF _ fs1] fs1
      by (auto simp: begin_upload_def add_upload_def Let_def split: sum.splits bool.splits)
  qed
qed

fun resolves_now :: "file_op \<Rightarrow> bool" where
  "resolves_now (BeginUpload os request) = True"
| "resolves_now (MakeDirectory os raw) = True"
| "resolves_now (RemoveEntry os raw) = True"
| "resolves_now (RenameEntry os s d overwrite) = True"
| "resolves_now _ = False"

text \<open>C14. Links do not lead a request out of the root. Whatever symbolic links there are
  anywhere, and whatever path it is given, a request that begins an upload, makes a
  directory, removes or renames leaves every name outside the root as it was.\<close>

theorem request_stays_behind_links:
  assumes "file_step sha parse_uuid op w = Some w'" "resolves_now op" "fs_ok (fw_fs w)"
    and "\<not> path_starts_with q (svc_root (fw_service w))"
  shows "fs_node (fw_fs w') q = fs_node (fw_fs w) q"
proof -
  let ?root = "svc_root (fw_service w)"
  have "same_outside ?root (fw_fs w) (fw_fs w')"
  proof (cases op)
    case (BeginUpload os request)
    then show ?thesis using assms(1) begin_upload_same_outside by fastforce
  next
    case (MakeDirectory os raw)
    then show ?thesis
      using assms(1) same_outside_calls(2) [OF resolve_new_settled(1,2)]
      by (auto simp: make_directory_def case_prod_beta split: sum.splits)
  next
    case (RemoveEntry os raw)
    have "same_outside ?root (fw_fs w) (fst (fs_remove_file os p (fw_fs w)))"
      "same_outside ?root (fw_fs w) (fst (fs_remove_dir os p (fw_fs w)))"
      if "resolve_existing os (fw_fs w) ?root raw False = Inr p" for p
      using same_outside_calls(3,4) [of p ?root "fw_fs w" os] resolve_existing_settled [OF that]
        resolve_existing_inside [OF that] by (simp_all add: inside_def)
    then show ?thesis
      using RemoveEntry assms(1) by (auto simp: remove_entry_def case_prod_beta split: sum.splits)
  next
    case (RenameEntry os s d overwrite)
    have "same_outside ?root (fw_fs w) (fst (fs_rename os p r (fw_fs w)))"
      if "resolve_existing os (fw_fs w) ?root s False = Inr p" "resolve_new os (fw_fs w) ?root d = Inr r" for p r
      using same_outside_calls(5) [of p ?root "fw_fs w" r os] resolve_existing_settled [OF that(1)]
        resolve_existing_inside [OF that(1)] resolve_new_settled(1,2) [OF that(2)] by (simp add: inside_def)
    then show ?thesis
      using RenameEntry assms(1)
      by (auto simp: rename_entry_def case_prod_beta result_simps split: sum.splits)
  qed (use assms(2) in simp_all)
  then show ?thesis by (rule same_outside_node [OF _ assms(3,4)])
qed

section \<open>The path of an upload\<close>

definition demo_link_fs :: "(path \<times> nat) list \<Rightarrow> inode list \<Rightarrow> filesystem" where
  "demo_link_fs names inodes = \<lparr> fs_names = ([RootDir], 0) # ([RootDir, Normal ''srv''], 1)
      # ([RootDir, Normal ''out''], 2) # names,
    fs_inodes = [demo_node KindDir [], demo_node KindDir [], demo_node KindDir [], demo_node KindDir [],
      demo_node KindSymlink [RootDir, Normal ''out'']] @ inodes \<rparr>"

definition demo_fs_before :: filesystem where
  "demo_fs_before = demo_link_fs [([RootDir, Normal ''srv'', Normal ''d''], 3), ([RootDir, Normal ''srv'', Normal ''l''], 4)] []"

definition demo_fs_begun :: filesystem where
  "demo_fs_begun = demo_link_fs [([RootDir, Normal ''srv'', Normal ''d''], 3), ([RootDir, Normal ''srv'', Normal ''l''], 4),
     ([RootDir, Normal ''srv'', Normal ''d'', Normal ''.astra-upload-u.part''], 5)] [demo_data []]"

definition demo_fs_moved :: filesystem where
  "demo_fs_moved = demo_link_fs [([RootDir, Normal ''srv'', Normal ''e''], 3), ([RootDir, Normal ''srv'', Normal ''l''], 4),
     ([RootDir, Normal ''srv'', Normal ''e'', Normal ''.astra-upload-u.part''], 5)] [demo_data []]"

definition demo_fs_linked :: filesystem where
  "demo_fs_linked = demo_link_fs [([RootDir, Normal ''srv'', Normal ''e''], 3), ([RootDir, Normal ''srv'', Normal ''d''], 4),
     ([RootDir, Normal ''srv'', Normal ''e'', Normal ''.astra-upload-u.part''], 5)] [demo_data []]"

definition demo_fs_written :: "bytes \<Rightarrow> filesystem" where
  "demo_fs_written data = demo_link_fs [([RootDir, Normal ''srv'', Normal ''e''], 3), ([RootDir, Normal ''srv'', Normal ''d''], 4),
     ([RootDir, Normal ''srv'', Normal ''e'', Normal ''.astra-upload-u.part''], 5),
     ([RootDir, Normal ''out'', Normal ''.astra-upload-u.part''], 6)] [demo_data [], demo_data data]"

definition demo_escape :: BeginUploadRequest where
  "demo_escape = \<lparr> bu_transfer_id = ''u'', bu_path = ''d/f'', bu_size = 1,
    bu_sha256 = [], bu_overwrite = False, bu_mode = 0 \<rparr>"

definition demo_escaping :: "u64 \<Rightarrow> Upload" where
  "demo_escaping k = new_upload demo_escape [RootDir, Normal ''srv'', Normal ''d'', Normal ''f'']
     [RootDir, Normal ''srv'', Normal ''d'', Normal ''.astra-upload-u.part''] k UploadActive (Some [])"

definition demo_link_world :: "filesystem \<Rightarrow> (string \<times> Upload) list \<Rightarrow> file_world" where
  "demo_link_world fs us = demo_world \<lparr> fw_fs := fs, fw_service := demo_service \<lparr> svc_uploads := us \<rparr> \<rparr>"

lemmas demo_link_defs = demo_fs_before_def demo_fs_begun_def demo_fs_moved_def demo_fs_linked_def demo_fs_written_def
  demo_link_fs_def demo_node_def demo_data_def

lemma demo_link_world_fields: "fw_fs (demo_link_world fs us) = fs" "svc_root (fw_service (demo_link_world fs us)) = [RootDir, Normal ''srv'']"
   "svc_uploads (fw_service (demo_link_world fs us)) = us" "fw_store (demo_link_world fs us) = []"
   "svc_resources (fw_service (demo_link_world fs us)) = []"
   "demo_link_world fs us \<lparr> fw_fs := fs' \<rparr> = demo_link_world fs' us"
   "demo_link_world fs us \<lparr> fw_fs := fs', fw_store := [] \<rparr> = demo_link_world fs' us"
   "with_uploads us' (demo_link_world fs us) = demo_link_world fs us'"
   "demo_link_world fs us \<lparr> fw_store := [] \<rparr> = demo_link_world fs us"
  by (simp_all add: demo_link_world_def demo_world_def demo_service_def with_uploads_def)

lemma escape_resolved: "resolve_new demo_os demo_fs_before [RootDir, Normal ''srv''] ''d/f'' = Inr [RootDir, Normal ''srv'', Normal ''d'', Normal ''f'']"
  "open_upload_file demo_os [RootDir, Normal ''srv'', Normal ''d'', Normal ''.astra-upload-u.part''] demo_fs_before = (demo_fs_begun, Inr 5)"
  "fs_exists demo_os demo_fs_before [RootDir, Normal ''srv'', Normal ''d'', Normal ''f''] = False"
  by (simp_all add: demo_resolution demo_link_defs open_upload_file_def fs_open_create_def add_node_def new_file_def)

lemma escape_renamed: "rename_entry demo_os ''d'' ''e'' False (demo_link_world demo_fs_begun us) = (demo_link_world demo_fs_moved us, Inr ())"
  by (simp add: rename_entry_def demo_link_world_fields resolve_existing_def demo_resolution demo_link_defs fs_rename_def can_replace_def rename_names_def)

lemma escape_linked: "rename_entry demo_os ''l'' ''d'' False (demo_link_world demo_fs_moved us) = (demo_link_world demo_fs_linked us, Inr ())"
  by (simp add: rename_entry_def demo_link_world_fields resolve_existing_def demo_resolution demo_link_defs fs_rename_def can_replace_def rename_names_def)


lemma escape_begun: "begin_upload demo_os demo_sha Some demo_escape (demo_link_world demo_fs_before []) =
   Some (demo_link_world demo_fs_begun [(''u'', demo_escaping 0)], Inr (Upload_status (demo_escaping 0)))"
proof -
  have u: "bu_transfer_id demo_escape = ''u''" "bu_path demo_escape = ''d/f''" "bu_sha256 demo_escape = []"
    "bu_size demo_escape = 1" by (simp_all add: demo_escape_def)
  have "upload_temporary_path [RootDir, Normal ''srv'', Normal ''d'', Normal ''f''] ''u''
      = Inr [RootDir, Normal ''srv'', Normal ''d'', Normal ''.astra-upload-u.part'']"
    by (simp add: upload_temporary_path_def path_parent_def path_join_def path_is_absolute_def)
  moreover have "retain_active (demo_link_world demo_fs_before []) = Some (demo_link_world demo_fs_before [])"
    by (simp add: retain_active_def demo_link_world_fields)
  moreover have "length (ino_data (fs_inodes demo_fs_begun ! 5)) = 0" by (simp add: demo_link_defs)
  moreover have "up_transfer_id (new_upload demo_escape t p k st r) = ''u''" for t p k st r
    by (simp add: new_upload_def u)
  ultimately show ?thesis
    by (simp add: begin_upload_def validate_transfer_id_def validate_digest_def u demo_link_world_fields escape_resolved existing_target_def
       start_upload_def ResourceAccount_reserve_def demo_os_simps map_io_def add_upload_def Let_def
       bt_get_def demo_escaping_def)
qed

lemma demo_escaping_fields: "up_temporary (demo_escaping k) = [RootDir, Normal ''srv'', Normal ''d'', Normal ''.astra-upload-u.part'']"
  "up_target (demo_escaping k) = [RootDir, Normal ''srv'', Normal ''d'', Normal ''f'']"
  "up_committed_offset (demo_escaping k) = k" "up_size (demo_escaping k) = 1" "up_state (demo_escaping k) = UploadActive"
  "up_overwrite (demo_escaping k) = False" "up_expected_sha256 (demo_escaping k) = []" "up_mode (demo_escaping k) = 0" 
  "up_resources (demo_escaping k) = Some []"
  "demo_escaping k \<lparr> up_committed_offset := j \<rparr> = demo_escaping j"
  by (simp_all add: demo_escaping_def new_upload_def demo_escape_def)

lemma escape_opened: "open_upload_file demo_os [RootDir, Normal ''srv'', Normal ''d'', Normal ''.astra-upload-u.part''] demo_fs_linked
   = (demo_fs_written [], Inr 6)"
  "open_upload_file demo_os [RootDir, Normal ''srv'', Normal ''d'', Normal ''.astra-upload-u.part''] (demo_fs_written data)
   = (demo_fs_written data, Inr 6)"
  "fs_write_all demo_os p 6 0 [7] (demo_fs_written []) = (demo_fs_written [7], Inr ())"
  "fs_exists demo_os (demo_fs_written data) [RootDir, Normal ''srv'', Normal ''d'', Normal ''f''] = False"
  by (simp_all add: path_parent_def path_starts_with_def map_io_def write_data_def fs_write_all_def update_inode_def
     demo_lookup demo_link_defs open_upload_file_def fs_open_create_def add_node_def new_file_def)

lemma escape_written: "write_chunk demo_os demo_sha Some (demo_chunk 0 [7]) (demo_link_world demo_fs_linked [(''u'', demo_escaping 0)])
  = (demo_link_world (demo_fs_written [7]) [(''u'', demo_escaping 1)], Inr (Upload_status (demo_escaping 1)))"
proof -
  have c: "wc_transfer_id (demo_chunk k part) = ''u''" "wc_offset (demo_chunk k part) = k"
    "wc_data (demo_chunk k part) = part" for k part by (simp_all add: demo_chunk_def)
  have "checked_add (0 :: u64) 1 = Some 1" by (simp add: checked_add_def)
  then show ?thesis
    by (simp add: write_chunk_def write_to_upload_def demo_chunk_ok c demo_link_world_fields demo_escaping_fields escape_opened map_io_def bt_get_def Let_def)
qed

lemma commit_upload_root:
  "commit_upload os sha p transfer_id w = Some (w', r) \<Longrightarrow> svc_root (fw_service w') = svc_root (fw_service w)"
  by (auto simp: commit_upload_def Let_def split: sum.splits option.splits if_splits prod.splits)

lemma escape_committed: "\<exists>w st i. commit_upload demo_os demo_sha Some ''u'' (demo_link_world (demo_fs_written [7]) [(''u'', demo_escaping 1)])
  = Some (w, Inr st) \<and> fs_node (fw_fs w) [RootDir, Normal ''out'', Normal ''f''] = Some (i, demo_data [7])"
proof -
  have "\<exists>fs i. publish demo_os (demo_escaping 1) (demo_fs_written [7]) = (fs, Inr ())
      \<and> fs_node fs [RootDir, Normal ''out'', Normal ''f''] = Some (i, demo_data [7])"
    by (simp add: demo_escaping_fields map_io_def publish_def fs_hard_link_def fs_remove_file_def demo_lookup demo_link_defs)
  then have "\<exists>fs i. sync_and_publish demo_os (demo_escaping 1) (demo_fs_written [7]) = (fs, Inr ())
      \<and> fs_node fs [RootDir, Normal ''out'', Normal ''f''] = Some (i, demo_data [7])"
    by (simp add: sync_and_publish_def demo_escaping_fields escape_opened map_io_def demo_os_simps)
  then show ?thesis
    by (auto simp: commit_upload_def validate_transfer_id_def bt_get_def demo_link_world_fields demo_escaping_fields escape_opened Let_def)
qed



theorem request_stays_behind_links_witness:
  "\<exists>w. file_step demo_sha Some (MakeDirectory demo_os ''l/x'') (demo_link_world demo_fs_before []) = Some w
    \<and> fs_node (fw_fs w) [RootDir, Normal ''out'', Normal ''x''] = None"
proof -
  have "fs_ok (fw_fs (demo_link_world demo_fs_before []))"
    by (simp add: demo_link_world_fields fs_ok_def demo_link_defs)
  moreover have "\<not> path_starts_with [RootDir, Normal ''out'', Normal ''x'']
      (svc_root (fw_service (demo_link_world demo_fs_before [])))"
    by (simp add: demo_link_world_fields path_starts_with_def)
  ultimately have "fs_node (fw_fs (fst (make_directory demo_os ''l/x'' (demo_link_world demo_fs_before []))))
      [RootDir, Normal ''out'', Normal ''x'']
    = fs_node (fw_fs (demo_link_world demo_fs_before [])) [RootDir, Normal ''out'', Normal ''x'']"
    by (intro request_stays_behind_links [where op = "MakeDirectory demo_os ''l/x''" and sha = demo_sha
        and parse_uuid = Some]) simp_all
  then show ?thesis by (simp add: demo_link_world_fields) (simp add: fs_node_def demo_link_defs)
qed

end
