(* ===== verification/File_Download.thy ===== *)
theory File_Download
  imports File_Listing File_Upload
begin

unbundle bit_operations_syntax

text \<open>
  Downloads from end to end: the snapshot and the chunks the service hands out
  (\<^verbatim>\<open>begin_download\<close> and \<^verbatim>\<open>read_chunk\<close> of \<^verbatim>\<open>src/files.rs\<close>), their way through the request
  handler of \<^verbatim>\<open>src/server.rs\<close> and the calls of \<^verbatim>\<open>src/client.rs\<close>, and the command
  \<^verbatim>\<open>astra files get\<close> of \<^verbatim>\<open>src/bin/astra.rs\<close>, which survives lost connections, continues a
  partial file, checks the digest and renames.

  The connection and everything that happens to the remote files meanwhile are a list of
  moments, one for every attempt of the client to call: whether the call gets through,
  how the remote system behaves, and what the remote files are at that time. The command
  has no result while it is still waiting for the next moment.
\<close>

section \<open>The service\<close>

definition u64_be_bytes :: "u64 \<Rightarrow> bytes" where
  "u64_be_bytes w = map (\<lambda>k. ucast (drop_bit (8 * k) w)) [7, 6, 5, 4, 3, 2, 1, 0]"

definition snapshot_input :: "os \<Rightarrow> path \<Rightarrow> nat \<times> inode \<Rightarrow> bytes" where
  "snapshot_input os p = (\<lambda>(i, n). bytes_of (path_bytes p) @ u64_be_bytes (os_device os)
    @ u64_be_bytes (word_of_nat i) @ u64_be_bytes (word_of_nat (length (ino_data n)))
    @ u64_be_bytes (word_of_int (ino_mtime n)) @ u64_be_bytes (word_of_int (ino_mtime_nsec n)))"

definition file_snapshot :: "(bytes \<Rightarrow> bytes) \<Rightarrow> os \<Rightarrow> path \<Rightarrow> nat \<times> inode \<Rightarrow> bytes" where
  "file_snapshot sha os p m = sha (snapshot_input os p m)"

record BeginDownloadRequest =
  bd_path :: string
  bd_want_sha256 :: bool

record BeginDownloadResponse =
  dl_metadata :: "FileMetadata option"
  dl_snapshot :: bytes
  dl_sha256 :: bytes
  dl_max_chunk_size :: u32

definition begin_download ::
  "os \<Rightarrow> (bytes \<Rightarrow> bytes) \<Rightarrow> BeginDownloadRequest \<Rightarrow> file_world \<Rightarrow> BeginDownloadResponse fresult" where
  "begin_download os sha request w =
    and_then (resolve_existing os (fw_fs w) (svc_root (fw_service w)) (bd_path request) True) (\<lambda>p.
    and_then (map_io ''cannot stat {}'' (fs_metadata os (fw_fs w) p)) (\<lambda>(i, n).
    if ino_kind n \<noteq> KindFile then file_error ''invalid'' ''{} is not a regular file''
    else and_then (if bd_want_sha256 request then sha256_file sha os (fw_fs w) p else Inr []) (\<lambda>digest.
      Inr \<lparr> dl_metadata = Some (file_metadata p n), dl_snapshot = file_snapshot sha os p (i, n),
        dl_sha256 = digest, dl_max_chunk_size = word_of_nat MAX_FILE_CHUNK_SIZE \<rparr>)))"

text \<open>Reading until the buffer is full or the file ends: every call reads at least one byte
  and may read fewer than asked for.\<close>

function read_up_to :: "(nat \<Rightarrow> nat) \<Rightarrow> nat \<Rightarrow> bytes \<Rightarrow> bytes" where
  "read_up_to short wanted rest =
    (let count = min (min wanted (length rest)) (max 1 (short wanted))
     in if wanted = 0 \<or> count = 0 then [] else take count rest @ read_up_to short (wanted - count) (drop count rest))"
  by pat_completeness auto
termination
  by (relation "measure (\<lambda>(short, wanted, rest). wanted)") auto

declare read_up_to.simps [simp del]

definition read_up_to_at :: "os \<Rightarrow> path \<Rightarrow> nat \<Rightarrow> nat \<Rightarrow> nat \<Rightarrow> filesystem \<Rightarrow> bytes fresult" where
  "read_up_to_at os p i offset len fs = map_io ''cannot read file at offset {offset}''
    (guarded os ''read'' p (Inr (read_up_to (os_short_read os) len (drop offset (ino_data (fs_inodes fs ! i))))))"

record ReadFileChunkRequest =
  rc_path :: string
  rc_snapshot :: bytes
  rc_offset :: u64
  rc_length :: u32

definition read_chunk ::
  "os \<Rightarrow> (bytes \<Rightarrow> bytes) \<Rightarrow> ReadFileChunkRequest \<Rightarrow> file_world \<Rightarrow> FileChunkResponse fresult" where
  "read_chunk os sha request w =
    (if length (rc_snapshot request) \<noteq> 32 then
       file_error ''invalid'' ''download snapshot must be a SHA-256 value''
     else
       let len = min (unat (rc_length request)) MAX_FILE_CHUNK_SIZE
       in if len = 0 then file_error ''invalid'' ''download chunk length is zero''
          else and_then (resolve_existing os (fw_fs w) (svc_root (fw_service w)) (rc_path request) True) (\<lambda>p.
            and_then (map_io ''cannot open {}'' (guarded os ''open'' p (node_at (fw_fs w) True p))) (\<lambda>(i, n).
            and_then (map_io ''cannot stat {}'' (guarded os ''file_metadata'' p (Inr ()))) (\<lambda>_.
            if ino_kind n \<noteq> KindFile then file_error ''invalid'' ''{} is not a regular file''
            else if file_snapshot sha os p (i, n) \<noteq> rc_snapshot request then
              file_error ''conflict'' ''remote file changed while it was being downloaded''
            else
              let file_len = word_of_nat (length (ino_data n)) :: u64
              in if file_len < rc_offset request then
                   file_error ''invalid'' ''download offset is beyond end of file''
                 else
                   let remaining = file_len - rc_offset request;
                       requested = unat (min remaining (word_of_nat len))
                   in and_then (read_up_to_at os p i (unat (rc_offset request)) requested (fw_fs w)) (\<lambda>data.
                     Inr \<lparr> fc_offset = rc_offset request, fc_data = data, fc_sha256 = sha data,
                       fc_eof = (file_len \<le> rc_offset request + word_of_nat (length data)),
                       fc_encoding = 0, fc_uncompressed_size = 0 \<rparr>)))))"

lemma read_up_to_eq: "read_up_to short wanted rest = take wanted rest"
proof (induction short wanted rest rule: read_up_to.induct)
  case (1 short wanted rest)
  let ?c = "min (min wanted (length rest)) (max 1 (short wanted))"
  show ?case
  proof (cases "wanted = 0 \<or> ?c = 0")
    case True
    then have "wanted = 0 \<or> rest = []" by (cases rest) (auto simp: min_def max_def split: if_splits)
    then show ?thesis by (subst read_up_to.simps) auto
  next
    case False
    then have "read_up_to short wanted rest = take ?c rest @ take (wanted - ?c) (drop ?c rest)"
      using 1 by (subst read_up_to.simps) (simp add: Let_def)
    also have "\<dots> = take wanted rest" by (metis le_add_diff_inverse min.bounded_iff order_refl take_add)
    finally show ?thesis .
  qed
qed

section \<open>The calls of the client\<close>

datatype fate = Delivered | RequestLost | ReplyLost

record moment =
  mo_fate :: fate
  mo_os :: os
  mo_world :: file_world

text \<open>What a call comes to: an answer, an error of the server or of the payload, which is
  final, or a broken connection.\<close>

datatype 'a outcome = Reply 'a | Permanent error | Transient

definition client_begin_download :: "codec \<Rightarrow> string \<Rightarrow> moment \<Rightarrow> BeginDownloadResponse outcome" where
  "client_begin_download C p m =
    (if mo_fate m \<noteq> Delivered then Transient
     else case begin_download (mo_os m) (sha256 C) \<lparr> bd_path = p, bd_want_sha256 = True \<rparr> (mo_world m) of
       Inl e \<Rightarrow> Permanent [fe_message e]
     | Inr d \<Rightarrow> Reply d)"

definition server_read_file_chunk ::
  "codec \<Rightarrow> bool \<Rightarrow> os \<Rightarrow> ReadFileChunkRequest \<Rightarrow> file_world \<Rightarrow> FileChunkResponse fresult" where
  "server_read_file_chunk C zstd os request w =
    and_then (read_chunk os (sha256 C) request w) (\<lambda>chunk.
      case encode_download C chunk zstd of
        Inl e \<Rightarrow> file_error ''invalid'' (concat e)
      | Inr encoded \<Rightarrow> Inr encoded)"

definition client_read_file_chunk ::
  "codec \<Rightarrow> bool \<Rightarrow> ReadFileChunkRequest \<Rightarrow> moment \<Rightarrow> FileChunkResponse outcome" where
  "client_read_file_chunk C zstd request m =
    (if mo_fate m \<noteq> Delivered then Transient
     else case server_read_file_chunk C zstd (mo_os m) request (mo_world m) of
       Inl e \<Rightarrow> Permanent [fe_message e]
     | Inr chunk \<Rightarrow>
         (case and_then (decode_download C chunk zstd) (\<lambda>chunk.
             if fc_offset chunk = rc_offset request \<and> length (fc_data chunk) \<le> unat (rc_length request)
             then Inr chunk else bail ''file response range does not match request'') of
           Inl e \<Rightarrow> Permanent e
         | Inr chunk \<Rightarrow> Reply chunk))"

text \<open>The loops that reconnect, which take one moment for every attempt.\<close>

fun begin_download_with_reconnect ::
  "codec \<Rightarrow> string \<Rightarrow> moment list \<Rightarrow> (moment list \<times> BeginDownloadResponse result) option" where
  "begin_download_with_reconnect C p [] = None"
| "begin_download_with_reconnect C p (m # ms) =
    (case client_begin_download C p m of
      Reply d \<Rightarrow> Some (ms, Inr d)
    | Permanent e \<Rightarrow> Some (ms, Inl e)
    | Transient \<Rightarrow> begin_download_with_reconnect C p ms)"

lemma begin_download_with_reconnect_less:
  "begin_download_with_reconnect C p ms = Some (ms', r) \<Longrightarrow> length ms' < length ms"
  by (induction C p ms rule: begin_download_with_reconnect.induct)
    (fastforce split: outcome.splits)+

function read_chunk_with_reconnect ::
  "codec \<Rightarrow> bool \<Rightarrow> string \<Rightarrow> BeginDownloadResponse \<Rightarrow> BeginDownloadResponse \<Rightarrow> ReadFileChunkRequest
    \<Rightarrow> moment list \<Rightarrow> (moment list \<times> (BeginDownloadResponse \<times> FileChunkResponse) result) option" where
  "read_chunk_with_reconnect C zstd p download current request [] = None"
| "read_chunk_with_reconnect C zstd p download current request (m # ms) =
    (case client_read_file_chunk C zstd request m of
      Reply chunk \<Rightarrow> Some (ms, Inr (current, chunk))
    | Permanent e \<Rightarrow> Some (ms, Inl e)
    | Transient \<Rightarrow>
        (case begin_download_with_reconnect C p ms of
          None \<Rightarrow> None
        | Some (ms', Inl e) \<Rightarrow> Some (ms', Inl e)
        | Some (ms', Inr resumed) \<Rightarrow>
            if dl_snapshot resumed \<noteq> dl_snapshot download \<or> dl_sha256 resumed \<noteq> dl_sha256 download then
              Some (ms', bail ''remote file changed while reconnecting; download was not resumed'')
            else read_chunk_with_reconnect C zstd p download resumed request ms'))"
  by pat_completeness auto
termination
  by (relation "measure (\<lambda>(C, zstd, p, download, current, request, ms). length ms)")
    (auto dest: begin_download_with_reconnect_less)

lemma read_chunk_with_reconnect_less:
  "read_chunk_with_reconnect C zstd p download current request ms = Some (ms', r) \<Longrightarrow>
    length ms' < length ms"
proof (induction C zstd p download current request ms rule: read_chunk_with_reconnect.induct)
  case (2 C zstd p download current request m ms)
  then show ?case
    by (fastforce split: outcome.splits option.splits sum.splits if_splits
        dest: begin_download_with_reconnect_less)
qed simp

section \<open>Local files\<close>

definition io_result :: "string \<Rightarrow> 'a io \<Rightarrow> 'a result" where
  "io_result m r = (case r of Inl k \<Rightarrow> bail m | Inr x \<Rightarrow> Inr x)"

text \<open>Opening for reading and writing without truncating, and writing a whole file.\<close>

definition fs_open_rw :: "os \<Rightarrow> path \<Rightarrow> filesystem \<Rightarrow> filesystem \<times> nat io" where
  "fs_open_rw os p fs = at_path os ''open_rw'' True p fs (\<lambda>p.
    case fs_node fs p of
      Some (i, n) \<Rightarrow> (fs, if ino_kind n = KindDir then Inl OtherKind else Inr i)
    | None \<Rightarrow> (add_node p (new_file os 420 KindFile) fs, Inr (length (fs_inodes fs))))"

definition fs_set_len :: "os \<Rightarrow> path \<Rightarrow> nat \<Rightarrow> filesystem \<Rightarrow> filesystem \<times> unit io" where
  "fs_set_len os p i fs = (case os_fault os ''set_len'' p of
      Some k \<Rightarrow> (fs, Inl k)
    | None \<Rightarrow> (update_inode i (\<lambda>n. n \<lparr> ino_data := [] \<rparr>) fs, Inr ()))"

definition fs_write_file :: "os \<Rightarrow> path \<Rightarrow> bytes \<Rightarrow> filesystem \<Rightarrow> filesystem \<times> unit io" where
  "fs_write_file os p data fs = (case fs_open_rw os p fs of
      (fs1, Inl k) \<Rightarrow> (fs1, Inl k)
    | (fs1, Inr i) \<Rightarrow> fs_write_all os p i 0 data (update_inode i (\<lambda>n. n \<lparr> ino_data := [] \<rparr>) fs1))"

fun and_fs :: "'s \<times> 'a result \<Rightarrow> ('s \<Rightarrow> 'a \<Rightarrow> 's \<times> 'b result) \<Rightarrow> 's \<times> 'b result" where
  "and_fs (s, Inl e) f = (s, Inl e)"
| "and_fs (s, Inr x) f = f s x"

section \<open>The command\<close>

definition download_temporary_paths :: "path \<Rightarrow> (path \<times> path) result" where
  "download_temporary_paths destination =
    and_then (ok_or ''local download destination has no file name'' (path_file_name destination)) (\<lambda>name.
      let parent = (case path_parent destination of Some p \<Rightarrow> p | None \<Rightarrow> [CurDir])
      in Inr (path_join parent [Normal (name @ ''.astra-part'')],
              path_join parent [Normal (name @ ''.astra-part'' @ ''.snapshot'')]))"

definition reusable_partial :: "os \<Rightarrow> path \<Rightarrow> path \<Rightarrow> bytes \<Rightarrow> filesystem \<Rightarrow> bool result" where
  "reusable_partial os temporary snapshot_file snapshot fs =
    (case fs_read_file os fs snapshot_file of
      Inr existing \<Rightarrow> Inr (existing = snapshot \<and>
        (case fs_metadata os fs temporary of Inr (i, n) \<Rightarrow> ino_kind n = KindFile | Inl _ \<Rightarrow> False))
    | Inl k \<Rightarrow> if k = NotFound then Inr False else bail ''cannot read the snapshot file'')"

definition discard_partial :: "os \<Rightarrow> path \<Rightarrow> filesystem \<Rightarrow> filesystem \<times> unit result" where
  "discard_partial os temporary fs =
    (let (fs1, r) = fs_remove_file os temporary fs
     in (fs1, if r = Inl NotFound then Inr () else io_result ''cannot remove the partial file'' r))"

definition prepare_download_temporary ::
  "os \<Rightarrow> path \<Rightarrow> path \<Rightarrow> bytes \<Rightarrow> filesystem \<Rightarrow> filesystem \<times> unit result" where
  "prepare_download_temporary os temporary snapshot_file snapshot fs =
    (case reusable_partial os temporary snapshot_file snapshot fs of
      Inl e \<Rightarrow> (fs, Inl e)
    | Inr reusable \<Rightarrow>
        and_fs (if reusable then (fs, Inr ()) else discard_partial os temporary fs) (\<lambda>fs _.
          let (fs1, r) = fs_write_file os snapshot_file snapshot fs
          in (fs1, io_result ''cannot write the snapshot file'' r)))"

definition open_partial :: "os \<Rightarrow> path \<Rightarrow> u64 \<Rightarrow> filesystem \<Rightarrow> filesystem \<times> (nat \<times> u64) result" where
  "open_partial os temporary len fs =
    (case fs_open_rw os temporary fs of
      (fs, r) \<Rightarrow> and_fs (fs, io_result ''failed to open {}'' r) (\<lambda>fs i.
        and_fs (fs, io_result ''cannot stat the partial file'' (guarded os ''file_metadata'' temporary
            (Inr (word_of_nat (length (ino_data (fs_inodes fs ! i))))))) (\<lambda>fs offset.
          if len < offset then
            (case fs_set_len os temporary i fs of
              (fs, r) \<Rightarrow> (fs, and_then (io_result ''cannot truncate the partial file'' r) (\<lambda>_. Inr (i, 0))))
          else (fs, Inr (i, offset)))))"

definition client_chunk_size :: "u32 \<Rightarrow> usize" where
  "client_chunk_size max_chunk_size = max 1 (min (1024 * 1024) (unat max_chunk_size))"

function download_loop ::
  "codec \<Rightarrow> bool \<Rightarrow> os \<Rightarrow> path \<Rightarrow> nat \<Rightarrow> string \<Rightarrow> usize \<Rightarrow> u64 \<Rightarrow> BeginDownloadResponse \<Rightarrow> u64
    \<Rightarrow> filesystem \<Rightarrow> moment list \<Rightarrow> (filesystem \<times> BeginDownloadResponse result) option" where
  "download_loop C zstd os temporary i p chunk_size len download offset fs ms =
    (if \<not> offset < len then Some (fs, Inr download)
     else
       case read_chunk_with_reconnect C zstd p download download
           \<lparr> rc_path = p, rc_snapshot = dl_snapshot download, rc_offset = offset,
             rc_length = word_of_nat chunk_size \<rparr> ms of
         None \<Rightarrow> None
       | Some (ms', Inl e) \<Rightarrow> Some (fs, Inl e)
       | Some (ms', Inr (next_download, chunk)) \<Rightarrow>
           if fc_offset chunk \<noteq> offset \<or> fc_data chunk = [] then
             Some (fs, bail ''server returned a non-progressing download chunk'')
           else
             (case fs_write_all os temporary i (unat offset) (fc_data chunk) fs of
               (fs', Inl k) \<Rightarrow> Some (fs', bail ''cannot write the partial file'')
             | (fs', Inr _) \<Rightarrow>
                 download_loop C zstd os temporary i p chunk_size len next_download
                   (offset + word_of_nat (length (fc_data chunk))) fs' ms'))"
  by pat_completeness auto
termination
  by (relation "measure (\<lambda>(C, zstd, os, temporary, i, p, chunk_size, len, download, offset, fs, ms). length ms)")
    (auto dest: read_chunk_with_reconnect_less)

declare download_loop.simps [simp del]

definition finish_download ::
  "codec \<Rightarrow> os \<Rightarrow> path \<Rightarrow> path \<Rightarrow> path \<Rightarrow> u32 \<Rightarrow> bytes \<Rightarrow> filesystem \<Rightarrow> filesystem \<times> unit result" where
  "finish_download C os temporary snapshot_file destination mode digest fs =
    and_fs (fs, io_result ''cannot sync'' (guarded os ''sync_all'' temporary (Inr ()))) (\<lambda>fs _.
    and_fs (fs, io_result ''failed to open {} for checksum'' (fs_read_file os fs temporary)) (\<lambda>fs data.
    if sha256 C data \<noteq> digest then
      (fs, bail ''complete download failed SHA-256 verification; partial file was retained'')
    else
      (case fs_set_permissions os temporary (mode AND 511) fs of
        (fs, r) \<Rightarrow> and_fs (fs, io_result ''cannot set permissions'' r) (\<lambda>fs _.
          case fs_rename os temporary destination fs of
            (fs, r) \<Rightarrow> and_fs (fs, io_result ''failed to commit download {} to {}'' r) (\<lambda>fs _.
              (fst (fs_remove_file os snapshot_file fs), Inr ()))))))"

definition download_file ::
  "codec \<Rightarrow> bool \<Rightarrow> os \<Rightarrow> string \<Rightarrow> path \<Rightarrow> bool \<Rightarrow> filesystem \<Rightarrow> moment list
    \<Rightarrow> (filesystem \<times> unit result) option" where
  "download_file C zstd os p destination overwrite fs ms =
    (if fs_exists os fs destination \<and> \<not> overwrite then
       Some (fs, bail ''local destination {} already exists; pass --overwrite to replace it'')
     else
       case begin_download_with_reconnect C p ms of
         None \<Rightarrow> None
       | Some (ms, Inl e) \<Rightarrow> Some (fs, Inl e)
       | Some (ms, Inr download) \<Rightarrow>
           (case dl_metadata download of
             None \<Rightarrow> Some (fs, bail ''server returned download metadata without a file'')
           | Some metadata \<Rightarrow>
               if FileKind_try_from (fm_kind metadata) \<noteq> Some Regular then
                 Some (fs, bail ''remote path {} is not a regular file'')
               else if length (dl_sha256 download) \<noteq> 32 \<or> length (dl_snapshot download) \<noteq> 32 then
                 Some (fs, bail ''server returned incomplete download integrity metadata'')
               else
                 (case download_temporary_paths destination of
                   Inl e \<Rightarrow> Some (fs, Inl e)
                 | Inr (temporary, snapshot_file) \<Rightarrow>
                     (case and_fs (prepare_download_temporary os temporary snapshot_file (dl_snapshot download) fs)
                         (\<lambda>fs _. open_partial os temporary (fm_size metadata) fs) of
                       (fs, Inl e) \<Rightarrow> Some (fs, Inl e)
                     | (fs, Inr (i, offset)) \<Rightarrow>
                         (case download_loop C zstd os temporary i p
                             (client_chunk_size (dl_max_chunk_size download)) (fm_size metadata)
                             download offset fs ms of
                           None \<Rightarrow> None
                         | Some (fs, Inl e) \<Rightarrow> Some (fs, Inl e)
                         | Some (fs, Inr download) \<Rightarrow>
                             Some (finish_download C os temporary snapshot_file destination
                               (fm_mode metadata) (dl_sha256 download) fs))))))"

section \<open>A download is a version of the file\<close>

text \<open>A local tree without links is \<^const>\<open>separated\<close> from the root on, and stays so.\<close>

abbreviation plain_fs :: "filesystem \<Rightarrow> bool" where
  "plain_fs \<equiv> separated [RootDir]"

lemma inside_root [simp]: "inside [RootDir] p \<longleftrightarrow> canonical p"
  by (cases p) (auto simp: inside_def canonical_def path_starts_with_def)

lemma confined_plain: "confined [RootDir] fs fs' \<Longrightarrow> plain_fs fs \<Longrightarrow> plain_fs fs'"
  by (simp add: confined_def)

lemma fs_open_rw_plain:
  assumes "fs_open_rw os p fs = (fs', r)" "plain_fs fs" "canonical p"
  shows "plain_fs fs'" "r = Inr i \<Longrightarrow> (p, i) \<in> set (fs_names fs')"
proof -
  have r: "fs_resolve fs True p = Inr q \<Longrightarrow> q = p" for q
    using fs_resolve_inside [OF assms(2)] assms(3) by simp
  have i: "path_starts_with p [RootDir]" using assms(3) by (cases p) (auto simp: canonical_def path_starts_with_def)
  have "confined [RootDir] fs (fst (fs_open_rw os p fs))"
    unfolding fs_open_rw_def using i assms(3)
    by (intro confined_at_path) (auto simp: confined_add_node new_file_def split: option.split)
  then show "plain_fs fs'" using assms(1,2) confined_plain by (metis fst_conv)
  have "(p, j) \<in> set (AList.update p j al)" for j and al :: "(path \<times> nat) list"
    by (induction al) auto
  then show "r = Inr i \<Longrightarrow> (p, i) \<in> set (fs_names fs')"
    using assms(1) r by (cases "fs_resolve fs True p")
      (auto simp: fs_open_rw_def at_path_def add_node_def dest: fs_node_member(1)
        split: option.splits if_splits)
qed

lemma starts_root: "canonical p \<Longrightarrow> path_starts_with p [RootDir]"
  by (cases p) (auto simp: canonical_def path_starts_with_def)

lemma confined_truncate:
  assumes "(p, i) \<in> set (fs_names fs)" "canonical p"
  shows "confined [RootDir] fs (update_inode i (\<lambda>n. n \<lparr> ino_data := [] \<rparr>) fs)"
  by (rule confined_inode [OF assms(1) starts_root [OF assms(2)]]) simp

lemma update_inode_names [simp]: "fs_names (update_inode i f fs) = fs_names fs"
  by (simp add: update_inode_def)

lemma fs_write_all_names: "fs_names (fst (fs_write_all os p i offset data fs)) = fs_names fs"
  by (simp add: fs_write_all_def Let_def split: option.split)

lemma fs_write_all_plain:
  assumes "(p, i) \<in> set (fs_names fs)" "canonical p" "plain_fs fs"
    and "fs_write_all os q i offset data fs = (fs', r)"
  shows "plain_fs fs'" "fs_names fs' = fs_names fs"
proof -
  have "confined [RootDir] fs (fst (fs_write_all os q i offset data fs))"
    using confined_inode [OF assms(1) starts_root [OF assms(2)]]
    by (auto simp: fs_write_all_def Let_def split: option.split)
  then show "plain_fs fs'" using assms(3,4) confined_plain by (metis fst_conv)
  show "fs_names fs' = fs_names fs" using fs_write_all_names assms(4) by (metis fst_conv)
qed

lemma fs_write_file_plain:
  assumes "fs_write_file os p data fs = (fs', r)" "plain_fs fs" "canonical p"
  shows "plain_fs fs'"
proof -
  obtain fs1 r1 where o: "fs_open_rw os p fs = (fs1, r1)" by fastforce
  have p1: "plain_fs fs1" by (rule fs_open_rw_plain(1) [OF o assms(2,3)])
  show ?thesis
  proof (cases r1)
    case (Inl k)
    then show ?thesis using assms(1) o p1 by (simp add: fs_write_file_def)
  next
    case (Inr i)
    have m: "(p, i) \<in> set (fs_names fs1)" by (rule fs_open_rw_plain(2) [OF o assms(2,3) Inr])
    let ?fs2 = "update_inode i (\<lambda>n. n \<lparr> ino_data := [] \<rparr>) fs1"
    have p2: "plain_fs ?fs2" using confined_plain [OF confined_truncate [OF m assms(3)] p1] .
    have "fs_write_all os p i 0 data ?fs2 = (fs', r)" using assms(1) o Inr by (simp add: fs_write_file_def)
    then show ?thesis using fs_write_all_plain(1) [of p i ?fs2] m p2 assms(3) by simp
  qed
qed

lemma begin_download_with_reconnect_moment:
  "begin_download_with_reconnect C p ms = Some (ms', Inr d) \<Longrightarrow>
    \<exists>m \<in> set ms. mo_fate m = Delivered \<and>
      begin_download (mo_os m) (sha256 C) \<lparr> bd_path = p, bd_want_sha256 = True \<rparr> (mo_world m) = Inr d"
proof (induction C p ms rule: begin_download_with_reconnect.induct)
  case (2 C p m ms)
  show ?case
  proof (cases "client_begin_download C p m")
    case (Reply d')
    then show ?thesis using 2(2) by (auto simp: client_begin_download_def split: if_splits sum.splits)
  next
    case Transient
    then show ?thesis using 2 by auto
  qed (use 2(2) in simp)
qed simp

lemma read_chunk_with_reconnect_digest:
  "read_chunk_with_reconnect C zstd p download current request ms = Some (ms', Inr (d, chunk)) \<Longrightarrow>
    dl_sha256 current = dl_sha256 download \<Longrightarrow> dl_sha256 d = dl_sha256 download"
proof (induction C zstd p download current request ms rule: read_chunk_with_reconnect.induct)
  case (2 C zstd p download current request m ms)
  show ?case
  proof (cases "client_read_file_chunk C zstd request m")
    case Transient
    then show ?thesis using 2 by (auto split: option.splits sum.splits if_splits)
  qed (use 2(2,3) in auto)
qed simp

lemma download_loop_plain:
  assumes "download_loop C zstd os temporary i p chunk_size len download offset fs ms = Some (fs', Inr d)"
    and "plain_fs fs" "canonical temporary" "(temporary, i) \<in> set (fs_names fs)"
  shows "dl_sha256 d = dl_sha256 download \<and> plain_fs fs'"
  using assms
proof (induction C zstd os temporary i p chunk_size len download offset fs ms rule: download_loop.induct)
  case (1 C zstd os temporary i p chunk_size len download offset fs ms)
  let ?request = "\<lparr> rc_path = p, rc_snapshot = dl_snapshot download, rc_offset = offset,
    rc_length = word_of_nat chunk_size \<rparr>"
  note step = trans [OF download_loop.simps [symmetric] 1(2)]
  show ?case
  proof (cases "offset < len")
    case False
    then show ?thesis using step 1(3) by simp
  next
    case True
    then obtain ms1 d1 chunk where rd: "read_chunk_with_reconnect C zstd p download download ?request ms
        = Some (ms1, Inr (d1, chunk))" and ok: "fc_offset chunk = offset" "fc_data chunk \<noteq> []"
      using step by (auto split: option.splits sum.splits if_splits)
    obtain fs1 r where wr: "fs_write_all os temporary i (unat offset) (fc_data chunk) fs = (fs1, r)" by fastforce
    then have r: "r = Inr ()" and cont: "download_loop C zstd os temporary i p chunk_size len d1
        (offset + word_of_nat (length (fc_data chunk))) fs1 ms1 = Some (fs', Inr d)"
      using step True rd ok by (auto split: sum.splits)
    note w = fs_write_all_plain [OF 1(5,4,3) wr]
    have "dl_sha256 d = dl_sha256 d1 \<and> plain_fs fs'"
      using 1(1) [OF _ rd refl refl refl _ wr [symmetric] r cont] True ok w 1(4,5) by simp
    then show ?thesis using read_chunk_with_reconnect_digest [OF rd] by simp
  qed
qed

lemma io_result_Inr [result_simps]: "io_result m r = Inr x \<longleftrightarrow> r = Inr x"
  by (cases r) (auto simp: io_result_def bail_def)

lemma and_fs_Inr:
  "and_fs s f = (fs', Inr y) \<longleftrightarrow> (\<exists>fs x. s = (fs, Inr x) \<and> f fs x = (fs', Inr y))"
  by (cases s; cases "snd s") auto

lemma and_fs_keeps:
  "P (fst s) \<Longrightarrow> (\<And>fs x. P fs \<Longrightarrow> P (fst (f fs x))) \<Longrightarrow> P (fst (and_fs s f))"
  by (cases s; cases "snd s") auto

lemma remove_plain:
  assumes "fs_remove_file os p fs = (fs', r)" "plain_fs fs" "canonical p"
  shows "plain_fs fs'"
  using confined_plain [OF confined_calls(5) [of "[RootDir]" p fs os] assms(2)] assms(1,3) by simp

lemma prepare_plain:
  assumes "prepare_download_temporary os temporary snapshot_file snapshot fs = (fs', r)" "plain_fs fs"
    and "canonical temporary" "canonical snapshot_file"
  shows "plain_fs fs'"
proof -
  have d: "plain_fs (fst (discard_partial os temporary fs))"
    using remove_plain [OF _ assms(2,3)] by (auto simp: discard_partial_def split: prod.split)
  have w: "plain_fs (fst (let (fs1, r) = fs_write_file os snapshot_file snapshot fs'
      in (fs1, io_result m r)))" if "plain_fs fs'" for fs' m
    using fs_write_file_plain [OF _ that assms(4)] by (auto split: prod.split)
  have "plain_fs (fst (prepare_download_temporary os temporary snapshot_file snapshot fs))"
  proof (cases "reusable_partial os temporary snapshot_file snapshot fs")
    case (Inl e)
    then show ?thesis using assms(2) by (simp add: prepare_download_temporary_def)
  next
    case (Inr b)
    show ?thesis unfolding prepare_download_temporary_def Inr sum.case
      by (rule and_fs_keeps [where P = plain_fs, OF _ w]) (use assms(2) d in auto)
  qed
  then show ?thesis using assms(1) by simp
qed

lemma open_partial_plain:
  assumes "open_partial os temporary len fs = (fs', Inr (i, offset))" "plain_fs fs" "canonical temporary"
  shows "plain_fs fs'" "(temporary, i) \<in> set (fs_names fs')"
proof -
  obtain fs1 r1 where o: "fs_open_rw os temporary fs = (fs1, r1)" by fastforce
  have r1: "r1 = Inr i" using assms(1) o
    by (auto simp: open_partial_def and_fs_Inr result_simps split: if_splits prod.splits)
  note p1 = fs_open_rw_plain [OF o assms(2,3)]
  have m: "(temporary, i) \<in> set (fs_names fs1)" by (rule p1(2) [OF r1])
  have "fs' = fs1 \<or> fs' = update_inode i (\<lambda>n. n \<lparr> ino_data := [] \<rparr>) fs1"
    using assms(1) o r1
    by (auto simp: open_partial_def and_fs_Inr result_simps fs_set_len_def split: if_splits prod.splits option.splits)
  then show "plain_fs fs'" "(temporary, i) \<in> set (fs_names fs')"
    using p1(1) m confined_plain [OF confined_truncate [OF m assms(3)]] by auto
qed

lemma finish_download_data:
  assumes "finish_download C os temporary snapshot_file destination mode digest fs = (fs', Inr ())"
    and "plain_fs fs" "canonical temporary" "canonical destination" "canonical snapshot_file"
    and "length temporary = length destination" "snapshot_file \<noteq> destination"
  shows "\<exists>i n. fs_node fs' destination = Some (i, n) \<and> sha256 C (ino_data n) = digest"
proof -
  obtain data fs1 fs2 where rd: "fs_read_file os fs temporary = Inr data" "sha256 C data = digest"
    and sp: "fs_set_permissions os temporary (mode AND 511) fs = (fs1, Inr ())"
    and rn: "fs_rename os temporary destination fs1 = (fs2, Inr ())"
    and fs': "fs' = fst (fs_remove_file os snapshot_file fs2)"
    using assms(1) unfolding finish_download_def and_fs_Inr
    by (auto simp: result_simps and_fs_Inr split: if_splits prod.splits)
  obtain i n where n: "fs_node fs temporary = Some (i, n)" "ino_data n = data"
    using rd(1) node_at_inside [OF assms(2), of temporary True] assms(3)
    by (fastforce simp: fs_read_file_def guarded_def result_simps split: option.splits if_splits)
  have "fs1 = update_inode i (\<lambda>n. n \<lparr> ino_mode := mode AND 511 \<rparr>) fs"
    using at_path_inside [OF assms(2) _ sp [unfolded fs_set_permissions_def]] assms(3) n(1) by simp
  then have n1: "fs_node fs1 temporary = Some (i, n \<lparr> ino_mode := mode AND 511 \<rparr>)"
    using n(1) by (simp add: fs_node_update_inode)
  have p1: "plain_fs fs1"
    using confined_plain [OF confined_calls(2) [of "[RootDir]" temporary fs os] assms(2)] assms(3) sp
    by (metis fst_conv inside_root)
  have p2: "plain_fs fs2"
    using confined_plain [OF confined_calls(3) [of "[RootDir]" temporary destination fs1 os] p1] assms(3,4) rn
    by simp
  have "fs_node fs2 destination = Some (i, n \<lparr> ino_mode := mode AND 511 \<rparr>)"
    by (rule renamed_node [OF p1 _ _ assms(6) n1 rn]) (simp_all add: assms(3,4))
  moreover have "fs_node fs' destination = fs_node fs2 destination"
  proof (cases "fs_remove_file os snapshot_file fs2")
    case (Pair fs3 r)
    show ?thesis
    proof (cases r)
      case (Inl k)
      then show ?thesis using Pair fs'
        by (auto simp: fs_remove_file_def at_path_def split: option.splits sum.splits if_splits)
    next
      case (Inr u)
      have "fs3 = fs2 \<lparr> fs_names := AList.delete snapshot_file (fs_names fs2) \<rparr>"
        using at_path_inside [OF p2 _ Pair [unfolded fs_remove_file_def Inr]] assms(5)
        by (auto split: option.splits if_splits)
      then show ?thesis using Pair fs' assms(7)
        by (cases "map_of (fs_names fs2) destination") (simp_all add: fs_node_def delete_conv')
    qed
  qed
  ultimately show ?thesis using n(2) rd(2) by simp
qed

lemma download_temporary_paths_shape:
  assumes "download_temporary_paths destination = Inr (temporary, snapshot_file)" "canonical destination"
  shows "canonical temporary" "canonical snapshot_file" "length temporary = length destination"
    "snapshot_file \<noteq> destination"
proof -
  obtain name where name: "path_file_name destination = Some name"
    using assms(1) by (cases "path_file_name destination")
      (auto simp: download_temporary_paths_def bail_def)
  obtain parent where d: "destination = parent @ [Normal name]"
    using name by (cases destination rule: rev_cases) (auto simp: path_file_name_def split: component.splits)
  have "parent \<noteq> []" using assms(2) d by (auto simp: canonical_def)
  moreover from this have "canonical parent" using assms(2) d by (cases parent) (auto simp: canonical_def)
  ultimately have "temporary = parent @ [Normal (name @ ''.astra-part'')]"
    "snapshot_file = parent @ [Normal (name @ ''.astra-part.snapshot'')]" "canonical parent"
    using assms(1) name d by (auto simp: download_temporary_paths_def path_parent_def join_name)
  then show "canonical temporary" "canonical snapshot_file" "length temporary = length destination"
    "snapshot_file \<noteq> destination" using d by simp_all
qed


section \<open>A concrete download\<close>

definition demo_remote :: file_world where
  "demo_remote = demo_world \<lparr> fw_fs := add_node [RootDir, Normal ''srv'', Normal ''f'']
    ((demo_node KindFile []) \<lparr> ino_data := [7] \<rparr>) demo_fs \<rparr>"

definition demo_moment :: moment where
  "demo_moment = \<lparr> mo_fate = Delivered, mo_os = demo_os, mo_world = demo_remote \<rparr>"

definition demo_lost :: moment where
  "demo_lost = demo_moment \<lparr> mo_fate := ReplyLost \<rparr>"

definition demo_remote_path :: path where
  "demo_remote_path = [RootDir, Normal ''srv'', Normal ''f'']"

definition demo_remote_node :: inode where
  "demo_remote_node = (demo_node KindFile []) \<lparr> ino_data := [7] \<rparr>"

definition demo_response :: BeginDownloadResponse where
  "demo_response = \<lparr> dl_metadata = Some (file_metadata demo_remote_path demo_remote_node),
     dl_snapshot = replicate 32 47, dl_sha256 = replicate 32 7, dl_max_chunk_size = 1048576 \<rparr>"

lemma demo_resolve_remote:
  "resolve_existing demo_os (fw_fs demo_remote) (svc_root (fw_service demo_remote)) ''f'' True = Inr demo_remote_path"
  "node_at (fw_fs demo_remote) True demo_remote_path = Inr (3, demo_remote_node)"
  by code_simp+

lemma demo_snapshot: "file_snapshot (sha256 demo_codec) demo_os demo_remote_path (3, n) = replicate 32 47"
  by (simp add: file_snapshot_def snapshot_input_def demo_codec_def demo_remote_path_def path_bytes_def
    bytes_of_def)

lemma demo_sha_codec: "sha256 demo_codec [7] = replicate 32 7" by (simp add: demo_codec_def)

lemma demo_quiet: "guarded demo_os c p r = r" by (simp add: guarded_def demo_os_def)

lemma demo_begin_download:
  "begin_download demo_os (sha256 demo_codec) \<lparr> bd_path = ''f'', bd_want_sha256 = True \<rparr> demo_remote = Inr demo_response"
proof -
  have "ino_kind demo_remote_node = KindFile" "ino_data demo_remote_node = [7]" 
    by (simp_all add: demo_remote_node_def demo_node_def)
  then show ?thesis
  by (simp add: begin_download_def demo_resolve_remote fs_metadata_def demo_quiet sha256_file_def fs_read_file_def
    map_io_def demo_snapshot demo_sha_codec demo_response_def MAX_FILE_CHUNK_SIZE_def)
qed

lemma demo_read_chunk:
  "read_chunk demo_os (sha256 demo_codec) \<lparr> rc_path = ''f'', rc_snapshot = replicate 32 47, rc_offset = 0,
     rc_length = 1048576 \<rparr> demo_remote = Inr \<lparr> fc_offset = 0, fc_data = [7], fc_sha256 = replicate 32 7, fc_eof = True,
     fc_encoding = 0, fc_uncompressed_size = 0 \<rparr>"
proof -
  have "ino_kind demo_remote_node = KindFile" "ino_data demo_remote_node = [7]" "fs_inodes (fw_fs demo_remote) ! 3 = demo_remote_node"
    by (simp_all add: demo_remote_node_def demo_node_def demo_remote_def add_node_def demo_fs_def)
  then show ?thesis
  by (simp add: read_chunk_def demo_resolve_remote demo_quiet map_io_def demo_snapshot demo_sha_codec
    MAX_FILE_CHUNK_SIZE_def Let_def read_up_to_at_def read_up_to_eq)
qed

definition demo_local :: filesystem where
  "demo_local = \<lparr> fs_names = [([RootDir], 0)], fs_inodes = [demo_node KindDir []] \<rparr>"

lemma demo_client_calls:
  "client_begin_download demo_codec ''f'' demo_moment = Reply demo_response"
  "client_begin_download demo_codec ''f'' demo_lost = Transient"
  "client_read_file_chunk demo_codec zstd \<lparr> rc_path = ''f'', rc_snapshot = replicate 32 47, rc_offset = 0,
     rc_length = 1048576 \<rparr> demo_moment = Reply \<lparr> fc_offset = 0, fc_data = [7], fc_sha256 = replicate 32 7, fc_eof = True,
     fc_encoding = 0, fc_uncompressed_size = 0 \<rparr>"
  "client_read_file_chunk demo_codec zstd r demo_lost = Transient"
  using demo_begin_download demo_read_chunk
  by (simp_all add: client_begin_download_def demo_moment_def demo_lost_def client_read_file_chunk_def
     server_read_file_chunk_def encode_download_def EncodedPayload_encode_def MAX_FILE_CHUNK_SIZE_def MIN_INPUT_BYTES_def
     decode_download_def EncodedPayload_decode_def decode_bytes_def validate_header_Inr [THEN iffD2] demo_sha_codec)

lemma demo_temporary_paths: "download_temporary_paths [RootDir, Normal ''g''] =
   Inr ([RootDir, Normal ''g.astra-part''], [RootDir, Normal ''g.astra-part.snapshot''])"
  by (simp add: download_temporary_paths_def path_file_name_def path_parent_def path_join_def path_is_absolute_def)

definition demo_part :: "bytes \<Rightarrow> filesystem" where
  "demo_part data = \<lparr> fs_names = [([RootDir], 0), ([RootDir, Normal ''g.astra-part.snapshot''], 1),
       ([RootDir, Normal ''g.astra-part''], 2)],
     fs_inodes = [demo_node KindDir [], (demo_node KindFile []) \<lparr> ino_data := replicate 32 47, ino_mode := 420 \<rparr>,
      (demo_node KindFile []) \<lparr> ino_data := data, ino_mode := 420 \<rparr>] \<rparr>"

lemma demo_os_fields: "os_fault demo_os c p = None" "os_time demo_os = (0, 0)"
  by (simp_all add: demo_os_def)

lemmas local_calls = fs_read_file_def demo_quiet node_at_def fs_resolve_def fs_node_def fs_remove_file_def at_path_def
  fs_write_file_def fs_open_rw_def add_node_def new_file_def fs_write_all_def update_inode_def write_data_def
  io_result_def demo_os_fields demo_node_def

lemma demo_partial_prepared:
  "and_fs (prepare_download_temporary demo_os [RootDir, Normal ''g.astra-part''] [RootDir, Normal ''g.astra-part.snapshot'']
     (replicate 32 47) demo_local) (\<lambda>fs _. open_partial demo_os [RootDir, Normal ''g.astra-part''] 1 fs) = (demo_part [], Inr (2, 0))"
  by (simp add: prepare_download_temporary_def reusable_partial_def discard_partial_def demo_local_def
     open_partial_def demo_part_def local_calls)

lemma demo_finish:
  "finish_download demo_codec demo_os [RootDir, Normal ''g.astra-part''] [RootDir, Normal ''g.astra-part.snapshot'']
     [RootDir, Normal ''g''] mode (replicate 32 7) (demo_part [7]) = (f, r) \<Longrightarrow> r = Inr ()"
  by (simp add: finish_download_def demo_part_def local_calls demo_sha_codec fs_set_permissions_def fs_rename_def can_replace_def
    rename_names_def path_starts_with_def)

lemma demo_loop:
  "download_loop demo_codec False demo_os [RootDir, Normal ''g.astra-part''] 2 ''f'' 1048576 1 demo_response 0 (demo_part [])
     [demo_lost, demo_moment, demo_moment] = Some (demo_part [7], Inr demo_response)"
proof -
  have "read_chunk_with_reconnect demo_codec False ''f'' demo_response demo_response \<lparr> rc_path = ''f'', rc_snapshot = replicate 32 47, rc_offset = 0,
     rc_length = 1048576 \<rparr> [demo_lost, demo_moment, demo_moment] = Some ([], Inr (demo_response, \<lparr> fc_offset = 0, fc_data = [7], fc_sha256 = replicate 32 7, fc_eof = True,
     fc_encoding = 0, fc_uncompressed_size = 0 \<rparr>))" by (simp add: demo_client_calls)
  moreover have "dl_snapshot demo_response = replicate 32 47" by (simp add: demo_response_def)
  moreover have "fs_write_all demo_os [RootDir, Normal ''g.astra-part''] 2 0 [7] (demo_part []) = (demo_part [7], Inr ())"
    by (simp add: demo_part_def local_calls)
  ultimately show ?thesis
   by (subst download_loop.simps) (simp add: download_loop.simps [where ms = "[]"])
qed

lemma demo_response_fields:
  "dl_metadata demo_response = Some (file_metadata demo_remote_path demo_remote_node)"
  "dl_snapshot demo_response = replicate 32 47" "dl_sha256 demo_response = replicate 32 7"
  "dl_max_chunk_size demo_response = 1048576"
  by (simp_all add: demo_response_def)

lemma demo_download_file:
  "\<exists>fs. download_file demo_codec False demo_os ''f'' [RootDir, Normal ''g''] False demo_local
     [demo_lost, demo_moment, demo_lost, demo_moment, demo_moment] = Some (fs, Inr ())"
proof -
  obtain fs r where f: "finish_download demo_codec demo_os [RootDir, Normal ''g.astra-part''] [RootDir, Normal ''g.astra-part.snapshot'']
     [RootDir, Normal ''g''] (fm_mode (file_metadata demo_remote_path demo_remote_node)) (replicate 32 7) (demo_part [7]) = (fs, r)" by fastforce
  have r: "r = Inr ()" by (rule demo_finish [OF f])
  have "fs_exists demo_os demo_local [RootDir, Normal ''g''] = False"
    by (simp add: fs_exists_def fs_metadata_def local_calls demo_local_def)
  moreover have "begin_download_with_reconnect demo_codec ''f'' [demo_lost, demo_moment, demo_lost, demo_moment, demo_moment]
    = Some ([demo_lost, demo_moment, demo_moment], Inr demo_response)" by (simp add: demo_client_calls)
  moreover have "fm_size (file_metadata demo_remote_path demo_remote_node) = 1" "fm_kind (file_metadata demo_remote_path demo_remote_node) = 1"
    by (simp_all add: file_metadata_def demo_remote_node_def demo_node_def)
  moreover have "client_chunk_size 1048576 = 1048576" by (simp add: client_chunk_size_def)
  ultimately show ?thesis using f r demo_partial_prepared demo_loop
    unfolding download_file_def
    by (simp add: demo_temporary_paths demo_response_fields FileKind_try_from_def)
qed

lemma demo_local_plain: "plain_fs demo_local" 
  by (simp add: separated_def demo_local_def path_starts_with_def on_branch_def demo_node_def)

end
