(* ===== verification/File_Put.thy ===== *)
theory File_Put
  imports File_Download
begin

text \<open>
  The command \<^verbatim>\<open>astra files put\<close> (\<^verbatim>\<open>upload_file\<close> of \<^verbatim>\<open>src/bin/astra.rs\<close>) on top of the file
  service: the request handler decodes and hands on every chunk, the client encodes it,
  and the command begins, writes and commits through connections that may lose the
  request or only its reply. Every attempt to call takes one moment from a list; there is
  no result while the command waits for the next one.
\<close>

section \<open>Calls\<close>

record put_moment =
  pm_fate :: fate
  pm_os :: os

definition server_error :: "'a fresult \<Rightarrow> 'a result" where
  "server_error r = (case r of Inl e \<Rightarrow> Inl [fe_message e] | Inr x \<Rightarrow> Inr x)"

definition server_write_file_chunk ::
  "codec \<Rightarrow> bool \<Rightarrow> (string \<Rightarrow> string option) \<Rightarrow> os \<Rightarrow> WriteFileChunkRequest \<Rightarrow> file_world
    \<Rightarrow> file_world \<times> UploadStatusResponse fresult" where
  "server_write_file_chunk C zstd parse_uuid os request w =
    (case decode_upload C request zstd of
      Inl e \<Rightarrow> (w, file_error ''invalid'' (concat e))
    | Inr chunk \<Rightarrow> write_chunk os (sha256 C) parse_uuid chunk w)"

type_synonym 'a put_result = "(file_world \<times> put_moment list \<times> 'a result) option"

fun begin_upload_with_reconnect ::
  "codec \<Rightarrow> (string \<Rightarrow> string option) \<Rightarrow> BeginUploadRequest \<Rightarrow> file_world \<Rightarrow> put_moment list
    \<Rightarrow> UploadStatusResponse put_result" where
  "begin_upload_with_reconnect C parse_uuid request w [] = None"
| "begin_upload_with_reconnect C parse_uuid request w (m # ms) =
    (if pm_fate m = RequestLost then begin_upload_with_reconnect C parse_uuid request w ms
     else
       case begin_upload (pm_os m) (sha256 C) parse_uuid request w of
         None \<Rightarrow> None
       | Some (w', r) \<Rightarrow>
           if pm_fate m = ReplyLost then begin_upload_with_reconnect C parse_uuid request w' ms
           else Some (w', ms, server_error r))"

definition write_chunk_with_reconnect ::
  "codec \<Rightarrow> bool \<Rightarrow> (string \<Rightarrow> string option) \<Rightarrow> BeginUploadRequest \<Rightarrow> WriteFileChunkRequest
    \<Rightarrow> file_world \<Rightarrow> put_moment list \<Rightarrow> UploadStatusResponse put_result" where
  "write_chunk_with_reconnect C zstd parse_uuid begin chunk w ms =
    (case encode_upload C chunk zstd of
      Inl e \<Rightarrow> Some (w, ms, Inl e)
    | Inr encoded \<Rightarrow>
        (case ms of
          [] \<Rightarrow> None
        | m # ms \<Rightarrow>
            if pm_fate m = RequestLost then begin_upload_with_reconnect C parse_uuid begin w ms
            else
              let (w', r) = server_write_file_chunk C zstd parse_uuid (pm_os m) encoded w
              in if pm_fate m = ReplyLost then begin_upload_with_reconnect C parse_uuid begin w' ms
                 else Some (w', ms, server_error r)))"

lemma begin_upload_with_reconnect_less:
  "begin_upload_with_reconnect C p request w ms = Some (w', ms', r) \<Longrightarrow> length ms' < length ms"
  by (induction C p request w ms rule: begin_upload_with_reconnect.induct)
    (fastforce split: if_splits option.splits)+

lemma write_chunk_with_reconnect_less:
  "write_chunk_with_reconnect C zstd p begin chunk w ms = Some (w', ms', Inr status) \<Longrightarrow>
    length ms' < length ms"
  by (cases ms) (auto simp: write_chunk_with_reconnect_def split: sum.splits if_splits prod.splits
      dest!: begin_upload_with_reconnect_less)

function commit_upload_with_reconnect ::
  "codec \<Rightarrow> (string \<Rightarrow> string option) \<Rightarrow> BeginUploadRequest \<Rightarrow> file_world \<Rightarrow> put_moment list
    \<Rightarrow> UploadStatusResponse put_result" where
  "commit_upload_with_reconnect C parse_uuid begin w [] = None"
| "commit_upload_with_reconnect C parse_uuid begin w (m # ms) =
    (let retry = (\<lambda>w. case begin_upload_with_reconnect C parse_uuid begin w ms of
           None \<Rightarrow> None
         | Some (w', ms', Inl e) \<Rightarrow> Some (w', ms', Inl e)
         | Some (w', ms', Inr status) \<Rightarrow>
             if us_state status = ''completed'' then Some (w', ms', Inr status)
             else commit_upload_with_reconnect C parse_uuid begin w' ms')
     in if pm_fate m = RequestLost then retry w
        else
          case commit_upload (pm_os m) (sha256 C) parse_uuid (bu_transfer_id begin) w of
            None \<Rightarrow> None
          | Some (w', r) \<Rightarrow> if pm_fate m = ReplyLost then retry w' else Some (w', ms, server_error r))"
  by pat_completeness auto
termination
  by (relation "measure (\<lambda>(C, p, begin, w, ms). length ms)") (auto dest: begin_upload_with_reconnect_less)

section \<open>The command\<close>

text \<open>\<open>opened\<close> is how opening the local file for the transfer goes, and \<open>read_local offset n\<close>
  reads exactly \<open>n\<close> of its bytes; the file may change while the command runs.\<close>

function put_loop ::
  "codec \<Rightarrow> bool \<Rightarrow> (string \<Rightarrow> string option) \<Rightarrow> (nat \<Rightarrow> nat \<Rightarrow> bytes result) \<Rightarrow> usize
    \<Rightarrow> BeginUploadRequest \<Rightarrow> u64 \<Rightarrow> file_world \<Rightarrow> put_moment list \<Rightarrow> unit put_result" where
  "put_loop C zstd parse_uuid read_local chunk_size request offset w ms =
    (if \<not> offset < bu_size request then Some (w, ms, Inr ())
     else
       let remaining = unat (min (bu_size request - offset) (word_of_nat chunk_size))
       in case read_local (unat offset) remaining of
            Inl e \<Rightarrow> Some (w, ms, Inl (''local file {} changed while being uploaded'' # e))
          | Inr data \<Rightarrow>
              (case write_chunk_with_reconnect C zstd parse_uuid request
                  \<lparr> wc_transfer_id = bu_transfer_id request, wc_offset = offset, wc_data = data,
                    wc_sha256 = sha256 C data, wc_encoding = 0, wc_uncompressed_size = 0 \<rparr> w ms of
                None \<Rightarrow> None
              | Some (w', ms', Inl e) \<Rightarrow> Some (w', ms', Inl e)
              | Some (w', ms', Inr status) \<Rightarrow>
                  put_loop C zstd parse_uuid read_local chunk_size request (us_committed_offset status) w' ms'))"
  by pat_completeness auto
termination
  by (relation "measure (\<lambda>(C, zstd, p, read, chunk_size, request, offset, w, ms). length ms)")
    (auto dest: write_chunk_with_reconnect_less)

declare put_loop.simps [simp del]

record FileCapabilitiesResponse =
  cap_version :: u32
  cap_max_chunk_size :: u32
  cap_resumable_uploads :: bool
  cap_atomic_upload_commit :: bool
  cap_chunk_sha256 :: bool
  cap_file_watch_events :: bool
  cap_recursive_file_watch_events :: bool

definition FILE_PROTOCOL_VERSION :: u32 where
  "FILE_PROTOCOL_VERSION = 1"

definition capabilities :: FileCapabilitiesResponse where
  "capabilities = \<lparr> cap_version = FILE_PROTOCOL_VERSION, cap_max_chunk_size = word_of_nat MAX_FILE_CHUNK_SIZE,
    cap_resumable_uploads = True, cap_atomic_upload_commit = True, cap_chunk_sha256 = True,
    cap_file_watch_events = True, cap_recursive_file_watch_events = True \<rparr>"

definition sha256_local_file :: "codec \<Rightarrow> os \<Rightarrow> filesystem \<Rightarrow> path \<Rightarrow> bytes result" where
  "sha256_local_file C os fs p =
    and_then (io_result ''failed to open {} for checksum'' (fs_read_file os fs p)) (\<lambda>data. Inr (sha256 C data))"

text \<open>What \<^verbatim>\<open>upload_file\<close> asks for, from the metadata it reads and the digest it computes
  (\<open>hashed\<close> is the local tree at the moment of hashing).\<close>

definition upload_request ::
  "codec \<Rightarrow> os \<Rightarrow> filesystem \<Rightarrow> filesystem \<Rightarrow> path \<Rightarrow> string \<Rightarrow> bool \<Rightarrow> string \<Rightarrow> BeginUploadRequest result" where
  "upload_request C os fs hashed local_path remote overwrite transfer_id =
    and_then (io_result ''failed to inspect local file {}'' (fs_metadata os fs local_path)) (\<lambda>(i, metadata).
    if ino_kind metadata \<noteq> KindFile then bail ''{} is not a regular file''
    else and_then (sha256_local_file C os hashed local_path) (\<lambda>expected_sha256.
      Inr \<lparr> bu_transfer_id = transfer_id, bu_path = remote, bu_size = word_of_nat (length (ino_data metadata)),
        bu_sha256 = expected_sha256, bu_overwrite = overwrite, bu_mode = ino_mode metadata AND 511 \<rparr>))"

definition send_upload ::
  "codec \<Rightarrow> bool \<Rightarrow> (string \<Rightarrow> string option) \<Rightarrow> unit io \<Rightarrow> (nat \<Rightarrow> nat \<Rightarrow> bytes result) \<Rightarrow> usize
    \<Rightarrow> BeginUploadRequest \<Rightarrow> file_world \<Rightarrow> put_moment list \<Rightarrow> unit put_result" where
  "send_upload C zstd parse_uuid opened read_local chunk_size request w ms =
    (case begin_upload_with_reconnect C parse_uuid request w ms of
      None \<Rightarrow> None
    | Some (w, ms, Inl e) \<Rightarrow> Some (w, ms, Inl e)
    | Some (w, ms, Inr status) \<Rightarrow>
        if us_state status = ''completed'' then Some (w, ms, Inr ())
        else if \<not> is_ok opened then Some (w, ms, bail ''failed to open local file {}'')
        else
          (case put_loop C zstd parse_uuid read_local chunk_size request (us_committed_offset status) w ms of
            None \<Rightarrow> None
          | Some (w, ms, Inl e) \<Rightarrow> Some (w, ms, Inl e)
          | Some (w, ms, Inr _) \<Rightarrow>
              (case commit_upload_with_reconnect C parse_uuid request w ms of
                None \<Rightarrow> None
              | Some (w, ms, Inl e) \<Rightarrow> Some (w, ms, Inl e)
              | Some (w, ms, Inr committed) \<Rightarrow>
                  Some (w, ms, if us_state committed \<noteq> ''completed'' then
                    bail ''server did not complete upload {}'' else Inr ()))))"

definition upload_file ::
  "codec \<Rightarrow> bool \<Rightarrow> (string \<Rightarrow> string option) \<Rightarrow> os \<Rightarrow> filesystem \<Rightarrow> filesystem \<Rightarrow> unit io
    \<Rightarrow> (nat \<Rightarrow> nat \<Rightarrow> bytes result) \<Rightarrow> string \<Rightarrow> path \<Rightarrow> string \<Rightarrow> bool \<Rightarrow> file_world \<Rightarrow> put_moment list \<Rightarrow> unit put_result" where
  "upload_file C zstd parse_uuid os fs hashed opened read_local transfer_id local_path remote overwrite w ms =
    (case upload_request C os fs hashed local_path remote overwrite transfer_id of
      Inl e \<Rightarrow> Some (w, ms, Inl e)
    | Inr request \<Rightarrow>
        (case ms of
          [] \<Rightarrow> None
        | m # ms \<Rightarrow>
            if pm_fate m \<noteq> Delivered then Some (w, ms, bail ''connection lost'')
            else if cap_version capabilities \<noteq> 1 \<or> \<not> cap_resumable_uploads capabilities
                \<or> \<not> cap_atomic_upload_commit capabilities \<or> \<not> cap_chunk_sha256 capabilities then
              Some (w, ms, bail ''server does not provide the required Astra Files/1 upload capabilities'')
            else send_upload C zstd parse_uuid opened read_local
              (client_chunk_size (cap_max_chunk_size capabilities)) request w ms))"

section \<open>What the calls keep\<close>

definition published :: "path \<Rightarrow> BeginUploadRequest \<Rightarrow> (bytes \<Rightarrow> bytes) \<Rightarrow> filesystem \<Rightarrow> bool" where
  "published target request sha fs \<longleftrightarrow> (\<exists>i n. fs_node fs target = Some (i, n) \<and>
    length (ino_data n) = unat (bu_size request) \<and> sha (ino_data n) = bu_sha256 request)"

definition entry_ok :: "path \<Rightarrow> path \<Rightarrow> BeginUploadRequest \<Rightarrow> (bytes \<Rightarrow> bytes) \<Rightarrow> filesystem \<Rightarrow> Upload \<Rightarrow> bool" where
  "entry_ok root target request sha fs u \<longleftrightarrow>
    (\<exists>data. upload_ok root target request fs u data) \<or>
    up_state u = UploadCompleted \<and> published target request sha fs"

definition put_inv :: "path \<Rightarrow> path \<Rightarrow> BeginUploadRequest \<Rightarrow> (bytes \<Rightarrow> bytes) \<Rightarrow> file_world \<Rightarrow> bool" where
  "put_inv root target request sha w \<longleftrightarrow>
    root_of w = root \<and> uploads_inside w \<and> separated root (fw_fs w) \<and>
    (\<forall>u. bt_get (svc_uploads (fw_service w)) (bu_transfer_id request) = Some u \<longrightarrow>
      entry_ok root target request sha (fw_fs w) u)"

lemma step_inside_keeps:
  "step_inside w w' \<Longrightarrow> separated (root_of w) (fw_fs w) \<Longrightarrow>
    root_of w' = root_of w \<and> uploads_inside w' \<and> separated (root_of w) (fw_fs w')"
  by (simp add: step_inside_def confined_def)

lemma put_inv_D:
  assumes "put_inv root target request sha w"
  shows "root_of w = root" "svc_root (fw_service w) = root" "uploads_inside w" "separated root (fw_fs w)"
    and "bt_get (svc_uploads (fw_service w)) (bu_transfer_id request) = Some u \<Longrightarrow>
      entry_ok root target request sha (fw_fs w) u"
  using assms by (simp_all add: put_inv_def root_of_def)

lemma put_inv_I:
  assumes "step_inside w w'" "put_inv root target request sha w"
    and "\<And>u. bt_get (svc_uploads (fw_service w')) (bu_transfer_id request) = Some u \<Longrightarrow>
      entry_ok root target request sha (fw_fs w') u"
  shows "put_inv root target request sha w'"
  using step_inside_keeps [OF assms(1)] put_inv_D [OF assms(2)] assms(3) by (simp add: put_inv_def)

lemma uploading_entry:
  assumes "put_inv root target request sha w"
    and "bt_get (svc_uploads (fw_service w)) (bu_transfer_id request) = Some u" "up_state u = UploadActive"
  shows "uploading root target request [] w"
  using put_inv_D [OF assms(1)] assms(2,3) put_inv_D(5) [OF assms(1,2)]
  by (auto simp: uploading_def entry_ok_def in_place_def)

lemma uploading_put_inv: "uploading root target request acks w \<Longrightarrow> put_inv root target request sha w"
  by (auto simp: uploading_def put_inv_def entry_ok_def)

lemma write_chunk_put_inv:
  assumes "put_inv root target request sha w" "wc_transfer_id chunk = bu_transfer_id request"
    and "write_chunk os sha' p chunk w = (w', r)"
  shows "put_inv root target request sha w'"
proof (cases "bt_get (svc_uploads (fw_service w)) (bu_transfer_id request)")
  case None
  then have "w' = w" using assms(2,3) by (auto simp: write_chunk_def split: sum.splits)
  then show ?thesis using assms(1) by simp
next
  case (Some u)
  show ?thesis
  proof (cases "up_state u = UploadActive")
    case True
    show ?thesis
      by (rule uploading_put_inv [OF write_chunk_uploading [OF uploading_entry [OF assms(1) Some True] assms(2,3)]])
  next
    case False
    then have "w' = w" using assms(2,3) Some by (cases "up_state u") (auto simp: write_chunk_def split: sum.splits)
    then show ?thesis using assms(1) by simp
  qed
qed

text \<open>A commit that fails leaves the temporary file and its data in place.\<close>

lemma failed_calls:
  "fs_rename os p q fs = (fs', Inl k) \<Longrightarrow> fs' = fs"
  "fs_hard_link os p q fs = (fs', Inl k) \<Longrightarrow> fs' = fs"
  "fs_remove_file os p fs = (fs', Inl k) \<Longrightarrow> fs' = fs"
  "fs_set_permissions os p mode fs = (fs', Inl k) \<Longrightarrow> fs' = fs"
  by (auto simp: fs_rename_def fs_hard_link_def fs_remove_file_def fs_set_permissions_def at_path_def
      split: option.splits sum.splits if_splits)

lemma publish_keeps:
  assumes "separated root fs" "inside root (up_temporary u)" "inside root (up_target u)"
    and "fs_node fs (up_temporary u) = Some (i, n)" "publish os u fs = (fs', Inl e)"
  shows "fs_node fs' (up_temporary u) = Some (i, n)"
proof -
  note rename = failed_calls(1) [of os _ _ fs] and link = failed_calls(2) [of os _ _ fs]
    and remove = failed_calls(3) [of os]
  show ?thesis
  proof (cases "up_overwrite u")
    case True
    then have "fs' = fs" using assms(5) rename
      by (auto simp: publish_def map_io_def split: prod.splits sum.splits)
    then show ?thesis using assms(4) by simp
  next
    case False
    obtain fs1 r1 where l: "fs_hard_link os (up_temporary u) (up_target u) fs = (fs1, r1)" by fastforce
    show ?thesis
    proof (cases r1)
      case (Inl k)
      then have "fs' = fs" using False assms(5) l link [of "up_temporary u" "up_target u" fs1 k]
        by (auto simp: publish_def map_io_def file_error_def)
      then show ?thesis using assms(4) by simp
    next
      case (Inr x)
      obtain fs2 r2 where d: "fs_remove_file os (up_temporary u) fs1 = (fs2, r2)" by fastforce
      have "fs' = fs1" using False assms(5) l Inr d remove [of "up_temporary u" fs1 fs2]
        by (cases r2) (auto simp: publish_def map_io_def file_error_def)
      moreover have "fs1 = fs \<lparr> fs_names := AList.update (up_target u) i (fs_names fs) \<rparr>"
        "map_of (fs_names fs) (up_target u) = None"
        using at_path_inside [OF assms(1,3) at_path_inside [OF assms(1,2) l [unfolded fs_hard_link_def Inr]]]
          assms(4) by (auto split: if_splits)
      ultimately show ?thesis
        using assms(4) by (auto simp: fs_node_def update_conv' split: bind_splits if_splits)
    qed
  qed
qed

lemma sync_and_publish_keeps:
  assumes "separated root fs" "inside root (up_temporary u)" "inside root (up_target u)"
    and "fs_node fs (up_temporary u) = Some (i, n)" "sync_and_publish os u fs = (fs', Inl e)"
  shows "\<exists>n'. fs_node fs' (up_temporary u) = Some (i, n') \<and> ino_data n' = ino_data n"
proof -
  obtain fs1 opened where o: "open_upload_file os (up_temporary u) fs = (fs1, opened)" by fastforce
  have fs1: "fs1 = fs" by (rule open_existing(1) [OF assms(1,2,4) o])
  obtain fs2 r2 where s: "(if up_mode u \<noteq> 0 then fs_set_permissions os (up_temporary u) (up_mode u) fs1
      else (fs1, Inr ())) = (fs2, r2)" by fastforce
  have sep: "separated root fs2"
    using s confined_calls(2) [OF assms(2), of fs os "up_mode u"] assms(1)
    by (auto simp: fs1 confined_def split: if_splits)
  have n2: "\<exists>n'. fs_node fs2 (up_temporary u) = Some (i, n') \<and> ino_data n' = ino_data n"
  proof (cases "up_mode u = 0")
    case True
    then show ?thesis using s assms(4) fs1 by simp
  next
    case False
    then have sp: "fs_set_permissions os (up_temporary u) (up_mode u) fs = (fs2, r2)" using s fs1 by simp
    show ?thesis
    proof (cases r2)
      case (Inl k)
      then show ?thesis using failed_calls(4) [OF sp [unfolded Inl]] assms(4) by simp
    next
      case (Inr x)
      from at_path_inside [OF assms(1,2) sp [unfolded fs_set_permissions_def Inr]]
      have "fs2 = update_inode i (\<lambda>n. n \<lparr> ino_mode := up_mode u \<rparr>) fs" using assms(4) by simp
      then show ?thesis using assms(4) by (simp add: fs_node_update_inode)
    qed
  qed
  then obtain n2 where n2: "fs_node fs2 (up_temporary u) = Some (i, n2)" "ino_data n2 = ino_data n" by auto
  have "fs' = fs1 \<or> fs' = fs2 \<or> publish os u fs2 = (fs', Inl e)"
    using assms(5) unfolding sync_and_publish_def o Let_def prod.case s by (auto split: sum.splits)
  then show ?thesis
    using publish_keeps [OF sep assms(2,3) n2(1)] n2 fs1 assms(4) by auto
qed

lemma commit_upload_put_inv:
  assumes "put_inv root target request sha w" "length (bu_sha256 request) = 32"
    and "commit_upload os sha p (bu_transfer_id request) w = Some (w', r)"
  shows "put_inv root target request sha w' \<and> (is_ok r \<longrightarrow> published target request sha (fw_fs w'))"
proof -
  note inv = put_inv_D [OF assms(1)]
  have step: "step_inside w w'" by (rule commit_upload_inside [OF assms(3) inv(3)])
  show ?thesis
  proof (cases "bt_get (svc_uploads (fw_service w)) (bu_transfer_id request)")
    case None
    then have "w' = w" "\<not> is_ok r" using assms(3)
      by (auto simp: commit_upload_def file_error_def split: sum.splits)
    then show ?thesis using assms(1) by simp
  next
    case (Some u)
    show ?thesis
    proof (cases "up_state u = UploadActive")
      case True
      note up = uploading_entry [OF assms(1) Some True]
      obtain data where u: "upload_ok root target request (fw_fs w) u data"
        using inv(5) [OF Some] True by (auto simp: entry_ok_def)
      show ?thesis
      proof (cases r)
        case (Inr status)
        obtain i n where "fs_node (fw_fs w') target = Some (i, n)" "length (ino_data n) = unat (bu_size request)"
          "sha (ino_data n) = bu_sha256 request"
          using commit_upload_data [OF up assms(3) [unfolded Inr]] assms(2) by auto
        then have pub: "published target request sha (fw_fs w')" by (auto simp: published_def)
        have "bt_get (svc_uploads (fw_service w')) (bu_transfer_id request)
            = Some (u \<lparr> up_state := UploadCompleted, up_resources := None \<rparr>)"
          using assms(3) Inr Some True
          by (auto simp: commit_upload_def Let_def bt_get_insert_same split: sum.splits if_splits prod.splits)
        then have "put_inv root target request sha w'"
          using pub by (intro put_inv_I [OF step assms(1)]) (auto simp: entry_ok_def)
        then show ?thesis using pub by simp
      next
        case (Inl e)
        have reg: "svc_uploads (fw_service w') = svc_uploads (fw_service w)"
          and fs: "fw_fs w' = fw_fs w \<or> sync_and_publish os u (fw_fs w) = (fw_fs w', Inl e)"
          using assms(3) Inl Some True
          by (auto simp: commit_upload_def Let_def file_error_def split: sum.splits if_splits prod.splits)
        obtain i n where n: "fs_node (fw_fs w) (up_temporary u) = Some (i, n)" "ino_data n = data"
          using u by (auto simp: upload_ok_def)
        have "inside root (up_temporary u)" "inside root (up_target u)" using u by (simp_all add: upload_ok_def)
        then have "\<exists>n'. fs_node (fw_fs w') (up_temporary u) = Some (i, n') \<and> ino_data n' = data"
          using fs n sync_and_publish_keeps [OF inv(4) _ _ n(1)] by auto
        then have "upload_ok root target request (fw_fs w') u data"
          using u by (auto simp: upload_ok_def)
        then have "put_inv root target request sha w'"
          using reg Some by (intro put_inv_I [OF step assms(1)]) (auto simp: entry_ok_def)
        then show ?thesis using Inl by simp
      qed
    next
      case False
      then have c: "up_state u = UploadCompleted" "published target request sha (fw_fs w)"
        using inv(5) [OF Some] by (auto simp: entry_ok_def upload_ok_def)
      then have "w' = w" using assms(3) Some by (auto simp: commit_upload_def split: sum.splits)
      then show ?thesis using assms(1) c by simp
    qed
  qed
qed

text \<open>Without links on the way, a path below the root is its own destination.\<close>

lemma inside_parent:
  assumes "inside root (parent @ [Normal name])" "parent @ [Normal name] \<noteq> root"
  shows "inside root parent"
proof -
  obtain rest where r: "parent @ [Normal name] = root @ rest"
    using assms(1) by (auto simp: inside_def elim: path_starts_withE)
  have "rest \<noteq> []" using r assms(2) by auto
  then obtain rest' c where rest: "rest = rest' @ [c]" by (cases rest rule: rev_cases) auto
  then have p: "parent = root @ rest'" using r by simp
  have "canonical (parent @ [Normal name])" using assms(1) by (simp add: inside_def)
  moreover have "root \<noteq> [] \<or> rest' \<noteq> [] \<or> parent = []" using p by auto
  ultimately have "canonical parent" by (cases parent) (auto simp: canonical_def)
  then show ?thesis using p by (simp add: inside_def)
qed

lemma resolve_new_plain:
  assumes "resolve_new os fs root raw = Inr target" "separated root fs"
    and "requested_path root raw = Inr candidate" "inside root candidate" "candidate \<noteq> root"
  shows "target = candidate"
proof -
  obtain name where name: "path_file_name candidate = Some name"
    using assms(1,3) by (cases "path_file_name candidate") (auto simp: resolve_new_def)
  then obtain parent where c: "candidate = parent @ [Normal name]"
    by (cases candidate rule: rev_cases) (auto simp: path_file_name_def split: component.splits)
  have i: "inside root parent" using inside_parent assms(4,5) c by blast
  have ne: "parent \<noteq> []" using i canonical_nonempty by (auto simp: inside_def)
  have pp: "path_parent candidate = Some parent" using c by (simp add: path_parent_def)
  obtain parent' where "fs_canonicalize os fs parent = Inr parent'" "target = path_join parent' [Normal name]"
    using assms(1,3) name pp by (auto simp: resolve_new_def result_simps split: if_splits)
  moreover from this(1) have "parent' = parent"
    using fs_resolve_inside [OF assms(2) i]
    by (auto simp: fs_canonicalize_def guarded_def result_simps split: option.splits if_splits)
  ultimately show ?thesis using c ne by (simp add: join_name)
qed

lemma existing_target_published:
  assumes "existing_target sha os fs target request = Inr True" "separated root fs" "inside root target"
  shows "published target request sha fs"
proof -
  obtain i n where m: "fs_metadata os fs target = Inr (i, n)" "length (ino_data n) = unat (bu_size request)"
    and d: "sha256_file sha os fs target = Inr (bu_sha256 request)"
    using assms(1) by (auto simp: existing_target_def result_simps split: if_splits)
  have n: "fs_node fs target = Some (i, n)"
    using m(1) node_at_inside [OF assms(2,3)] by (auto simp: fs_metadata_def guarded_def split: option.splits)
  have "fs_read_file os fs target = Inr data \<Longrightarrow> data = ino_data n" for data
    using n node_at_inside [OF assms(2,3)]
    by (fastforce simp: fs_read_file_def guarded_def result_simps split: option.splits if_splits)
  then have "sha (ino_data n) = bu_sha256 request" using d by (auto simp: sha256_file_def result_simps)
  then show ?thesis using n m(2) by (auto simp: published_def)
qed

lemma start_upload_entry:
  assumes "start_upload os target temporary request w = Some (w', r)"
  shows "r = Inr status \<Longrightarrow> us_state status = ''active''"
    and "r = Inl e \<Longrightarrow> svc_uploads (fw_service w') = svc_uploads (fw_service w)"
  using assms
  by (auto simp: start_upload_def Let_def Upload_status_def new_upload_def file_error_def
      split: option.splits sum.splits prod.splits if_splits)

lemma bt_get_filter_None: "bt_get m k = None \<Longrightarrow> bt_get (filter P m) k = None"
  unfolding bt_get_def by (induction m) (auto split: if_splits)

lemma begin_upload_put_inv:
  assumes "put_inv root target request sha w"
    and "requested_path root (bu_path request) = Inr target" "inside root target" "target \<noteq> root"
    and "begin_upload os sha p request w = Some (w', r)"
  shows "put_inv root target request sha w' \<and>
    (\<forall>status. r = Inr status \<longrightarrow> us_state status = ''completed'' \<longrightarrow> published target request sha (fw_fs w'))"
proof -
  note inv = put_inv_D [OF assms(1)]
  have step: "step_inside w w'" by (rule begin_upload_inside [OF assms(5) inv(3)])
  show ?thesis
  proof (cases "and_then (validate_transfer_id p (bu_transfer_id request)) (\<lambda>_.
        and_then (validate_digest (bu_sha256 request) True) (\<lambda>_.
        and_then (resolve_new os (fw_fs w) (svc_root (fw_service w)) (bu_path request)) (\<lambda>target.
        and_then (upload_temporary_path target (bu_transfer_id request)) (\<lambda>temporary.
          Inr (target, temporary)))))")
    case (Inl e)
    then show ?thesis using assms(1,5) by (auto simp: begin_upload_def)
  next
    case (Inr tt)
    obtain target' temporary where tt: "tt = (target', temporary)" by fastforce
    have rn: "resolve_new os (fw_fs w) root (bu_path request) = Inr target'"
      and tp: "upload_temporary_path target' (bu_transfer_id request) = Inr temporary"
      using Inr tt inv(2) by (auto simp: result_simps)
    have t: "target' = target" by (rule resolve_new_plain [OF rn inv(4) assms(2-4)])
    show ?thesis
    proof (cases "bt_get (svc_uploads (fw_service w)) (bu_transfer_id request)")
      case (Some u)
      have w': "w' = w" and r: "r = Inr status \<Longrightarrow> status = Upload_status u" for status
        using assms(5) Inr tt Some by (auto simp: begin_upload_def split: if_splits)
      have "us_state (Upload_status u) = ''completed'' \<Longrightarrow> published target request sha (fw_fs w)"
        using inv(5) [OF Some] by (auto simp: entry_ok_def upload_ok_def Upload_status_def)
      then show ?thesis using w' r assms(1) by auto
    next
      case None
      then obtain w1 where w1: "retain_active w = Some w1"
        using assms(5) Inr tt by (auto simp: begin_upload_def bind_eq_Some_conv)
      have fs1: "fw_fs w1 = fw_fs w" by (rule retain_active_inside [OF w1 inv(3)])
      have none: "bt_get (svc_uploads (fw_service w1)) (bu_transfer_id request) = None"
        using w1 None bt_get_filter_None by (auto simp: retain_active_def Let_def)
      have rest: "(case existing_target sha os (fw_fs w1) target request of
          Inl e \<Rightarrow> Some (w1, Inl e)
        | Inr True \<Rightarrow>
            let u = new_upload request target temporary (bu_size request) UploadCompleted None
            in Some (add_upload u w1, Inr (Upload_status u))
        | Inr False \<Rightarrow> start_upload os target temporary request w1) = Some (w', r)"
        using assms(5) Inr tt None w1 by (simp add: begin_upload_def t)
      show ?thesis
      proof (cases "existing_target sha os (fw_fs w1) target request")
        case (Inl e)
        then show ?thesis using rest none by (auto intro: put_inv_I [OF step assms(1)])
      next
        case (Inr same)
        show ?thesis
        proof (cases same)
          case True
          have pub: "published target request sha (fw_fs w)"
            using existing_target_published [OF _ inv(4) assms(3)] Inr True fs1 by simp
          have "fw_fs w' = fw_fs w" "bt_get (svc_uploads (fw_service w')) (bu_transfer_id request)
              = Some (new_upload request target temporary (bu_size request) UploadCompleted None)"
            using rest Inr True fs1
            by (auto simp: Let_def add_upload_def bt_get_insert_same) (simp add: new_upload_def bt_get_insert_same)
          then show ?thesis
            using pub by (auto intro!: put_inv_I [OF step assms(1)] simp: entry_ok_def new_upload_def)
        next
          case False
          then have st: "start_upload os target temporary request w1 = Some (w', r)" using rest Inr by simp
          show ?thesis
          proof (cases r)
            case (Inl e)
            then show ?thesis
              using start_upload_entry(2) [OF st Inl] none by (auto intro: put_inv_I [OF step assms(1)])
          next
            case (Inr status)
            obtain u data where "bt_get (svc_uploads (fw_service w')) (bu_transfer_id request) = Some u"
              "upload_ok root target request (fw_fs w') u data"
              using start_upload_uploading [OF st [unfolded Inr], of root] inv(4) fs1 assms(3)
                temporary_inside [OF rn tp] temporary_length [OF rn tp] t by (metis (no_types))
            then show ?thesis
              using start_upload_entry(1) [OF st Inr] Inr
              by (auto intro!: put_inv_I [OF step assms(1)] simp: entry_ok_def)
          qed
        qed
      qed
    qed
  qed
qed

section \<open>The promise\<close>

text \<open>The calls of one command keep the invariant, whatever gets lost.\<close>

lemma begin_with_reconnect_inv:
  assumes "requested_path root (bu_path request) = Inr target" "inside root target" "target \<noteq> root"
  shows "put_inv root target request (sha256 C) w \<Longrightarrow>
    begin_upload_with_reconnect C p request w ms = Some (w', ms', r) \<Longrightarrow>
    put_inv root target request (sha256 C) w' \<and>
    (\<forall>status. r = Inr status \<longrightarrow> us_state status = ''completed'' \<longrightarrow>
      published target request (sha256 C) (fw_fs w'))"
proof (induction ms arbitrary: w)
  case (Cons m ms)
  show ?case
  proof (cases "pm_fate m = RequestLost")
    case True
    then show ?thesis using Cons by simp
  next
    case False
    then obtain w1 r1 where b: "begin_upload (pm_os m) (sha256 C) p request w = Some (w1, r1)"
      using Cons.prems(2) by (auto split: option.splits)
    note i = begin_upload_put_inv [OF Cons.prems(1) assms b]
    show ?thesis
    proof (cases "pm_fate m = ReplyLost")
      case True
      then have "begin_upload_with_reconnect C p request w1 ms = Some (w', ms', r)"
        using Cons.prems(2) b False by simp
      then show ?thesis by (rule Cons.IH [OF conjunct1 [OF i]])
    next
      case d: False
      then show ?thesis using Cons.prems(2) i b False by (auto simp: server_error_def split: sum.splits)
    qed
  qed
qed simp

lemma server_write_put_inv:
  assumes "put_inv root target request sha w" "wc_transfer_id chunk = bu_transfer_id request"
    and "server_write_file_chunk C zstd p os chunk w = (w', r)"
  shows "put_inv root target request sha w'"
proof (cases "decode_upload C chunk zstd")
  case (Inr c)
  then have "wc_transfer_id c = bu_transfer_id request" using assms(2) by (auto simp: decode_upload_def result_simps)
  then show ?thesis using write_chunk_put_inv [OF assms(1)] assms(3) Inr by (simp add: server_write_file_chunk_def)
qed (use assms in \<open>simp add: server_write_file_chunk_def\<close>)

lemma write_with_reconnect_inv:
  assumes "requested_path root (bu_path request) = Inr target" "inside root target" "target \<noteq> root"
    and "put_inv root target request (sha256 C) w" "wc_transfer_id chunk = bu_transfer_id request"
    and "write_chunk_with_reconnect C zstd p request chunk w ms = Some (w', ms', r)"
  shows "put_inv root target request (sha256 C) w'"
proof (cases "encode_upload C chunk zstd")
  case (Inl e)
  then show ?thesis using assms(4,6) by (simp add: write_chunk_with_reconnect_def)
next
  case (Inr encoded)
  then have id: "wc_transfer_id encoded = bu_transfer_id request"
    using assms(5) by (auto simp: encode_upload_def result_simps split: if_splits)
  note started = begin_with_reconnect_inv [OF assms(1-3)]
  obtain m ms1 where ms: "ms = m # ms1" using assms(6) Inr by (cases ms) (auto simp: write_chunk_with_reconnect_def)
  obtain w1 r1 where s: "server_write_file_chunk C zstd p (pm_os m) encoded w = (w1, r1)" by fastforce
  have i: "put_inv root target request (sha256 C) w1" by (rule server_write_put_inv [OF assms(4) id s])
  show ?thesis
    using assms(6) Inr ms s started [OF assms(4), of p ms1 w' ms' r] started [OF i, of p ms1 w' ms' r] i
    by (auto simp: write_chunk_with_reconnect_def split: if_splits)
qed

lemma put_loop_inv:
  assumes "requested_path root (bu_path request) = Inr target" "inside root target" "target \<noteq> root"
  shows "put_inv root target request (sha256 C) w \<Longrightarrow>
    put_loop C zstd p read_local chunk_size request offset w ms = Some (w', ms', r) \<Longrightarrow>
    put_inv root target request (sha256 C) w'"
proof (induction "length ms" arbitrary: ms w offset rule: less_induct)
  case less
  note eq = trans [OF put_loop.simps [symmetric] less.prems(2)]
  let ?chunk = "\<lambda>data. \<lparr> wc_transfer_id = bu_transfer_id request, wc_offset = offset, wc_data = data,
    wc_sha256 = sha256 C data, wc_encoding = 0, wc_uncompressed_size = 0 \<rparr>"
  have step: "put_inv root target request (sha256 C) w1"
    if "write_chunk_with_reconnect C zstd p request (?chunk data) w ms = Some (w1, ms1, r1)" for data w1 ms1 r1
    by (rule write_with_reconnect_inv [OF assms less.prems(1) _ that]) simp
  show ?case
    using eq less.prems(1) step less.hyps write_chunk_with_reconnect_less
    by (auto simp: Let_def split: if_splits sum.splits option.splits) blast
qed

lemma commit_with_reconnect_inv:
  assumes "requested_path root (bu_path request) = Inr target" "inside root target" "target \<noteq> root"
    and "length (bu_sha256 request) = 32"
  shows "put_inv root target request (sha256 C) w \<Longrightarrow>
    commit_upload_with_reconnect C p request w ms = Some (w', ms', Inr status) \<Longrightarrow>
    published target request (sha256 C) (fw_fs w')"
proof (induction "length ms" arbitrary: ms w rule: less_induct)
  case less
  note started = begin_with_reconnect_inv [OF assms(1-3)]
  obtain m ms1 where ms: "ms = m # ms1" using less.prems(2) by (cases ms) auto
  have again: "published target request (sha256 C) (fw_fs w')"
    if i: "put_inv root target request (sha256 C) v"
      and r: "(case begin_upload_with_reconnect C p request v ms1 of
           None \<Rightarrow> None
         | Some (w', ms', Inl e) \<Rightarrow> Some (w', ms', Inl e)
         | Some (w', ms', Inr status) \<Rightarrow>
             if us_state status = ''completed'' then Some (w', ms', Inr status)
             else commit_upload_with_reconnect C p request w' ms') = Some (w', ms', Inr status)" for v
  proof -
    obtain v1 ms2 st where b: "begin_upload_with_reconnect C p request v ms1 = Some (v1, ms2, Inr st)"
      using r by (auto split: option.splits sum.splits)
    note k = started [OF i b] begin_upload_with_reconnect_less [OF b]
    show ?thesis
    proof (cases "us_state st = ''completed''")
      case True
      then show ?thesis using r b k by simp
    next
      case False
      then have "commit_upload_with_reconnect C p request v1 ms2 = Some (w', ms', Inr status)" using r b by simp
      then show ?thesis using less.hyps [of ms2 v1] k ms by simp
    qed
  qed
  show ?case
  proof (cases "pm_fate m = RequestLost")
    case True
    then show ?thesis using again [OF less.prems(1)] less.prems(2) ms by (simp add: Let_def)
  next
    case False
    then obtain w1 r1 where c: "commit_upload (pm_os m) (sha256 C) p (bu_transfer_id request) w = Some (w1, r1)"
      using less.prems(2) ms by (auto simp: Let_def split: option.splits)
    note i = commit_upload_put_inv [OF less.prems(1) assms(4) c]
    show ?thesis
    proof (cases "pm_fate m = ReplyLost")
      case True
      then show ?thesis using again [of w1] i c less.prems(2) ms by (simp add: Let_def)
    next
      case d: False
      then show ?thesis using i c False less.prems(2) ms
        by (auto simp: Let_def server_error_def is_ok_iff split: sum.splits)
    qed
  qed
qed

lemma send_upload_published:
  assumes "requested_path root (bu_path request) = Inr target" "inside root target" "target \<noteq> root"
    and "length (bu_sha256 request) = 32" "put_inv root target request (sha256 C) w"
    and "send_upload C zstd p opened read_local chunk_size request w ms = Some (w', ms', Inr ())"
  shows "published target request (sha256 C) (fw_fs w')"
proof -
  obtain w1 ms1 status where b: "begin_upload_with_reconnect C p request w ms = Some (w1, ms1, Inr status)"
    using assms(6) by (auto simp: send_upload_def split: option.splits sum.splits)
  note i = begin_with_reconnect_inv [OF assms(1-3,5) b]
  show ?thesis
  proof (cases "us_state status = ''completed''")
    case True
    then show ?thesis using assms(6) b i by (simp add: send_upload_def)
  next
    case False
    obtain w2 ms2 where l: "put_loop C zstd p read_local chunk_size request (us_committed_offset status) w1 ms1
        = Some (w2, ms2, Inr ())"
      using assms(6) b False by (auto simp: send_upload_def bail_def split: option.splits sum.splits if_splits)
    obtain w3 ms3 st where c: "commit_upload_with_reconnect C p request w2 ms2 = Some (w3, ms3, Inr st)"
      using assms(6) b False l by (auto simp: send_upload_def bail_def split: option.splits sum.splits if_splits)
    have "w' = w3" using assms(6) b False l c by (simp add: send_upload_def bail_def split: if_splits)
    then show ?thesis
      using commit_with_reconnect_inv [OF assms(1-4) put_loop_inv [OF assms(1-3) conjunct1 [OF i] l] c] by simp
  qed
qed


text \<open>The reply to the only chunk is lost, and the command resumes after it.\<close>

definition put_codec :: codec where
  "put_codec = demo_codec \<lparr> sha256 := demo_sha \<rparr>"

definition demo_put_moment :: "fate \<Rightarrow> put_moment" where
  "demo_put_moment fate = \<lparr> pm_fate = fate, pm_os = demo_os \<rparr>"

definition demo_put_local :: filesystem where
  "demo_put_local = \<lparr> fs_names = [([RootDir], 0), ([RootDir, Normal ''g''], 1)],
     fs_inodes = [demo_node KindDir [], (demo_node KindFile []) \<lparr> ino_data := [1, 2, 3], ino_mode := 0 \<rparr>] \<rparr>"

definition demo_put_read :: "nat \<Rightarrow> nat \<Rightarrow> bytes result" where
  "demo_put_read offset n = Inr (take n (drop offset [1, 2, 3]))"

lemma put_codec_sha [simp]: "sha256 put_codec = demo_sha"
  by (simp add: put_codec_def)

lemma demo_put_request:
  "upload_request put_codec demo_os demo_put_local demo_put_local [RootDir, Normal ''g''] ''f'' False ''u''
    = Inr demo_upload_request"
  by (simp add: upload_request_def sha256_local_file_def fs_metadata_def local_calls demo_put_local_def
      demo_upload_request_def)

lemma demo_begin_again:
  "begin_upload demo_os demo_sha Some demo_upload_request (demo_uploading [1, 2, 3] 3)
    = Some (demo_uploading [1, 2, 3] 3, Inr (Upload_status (demo_active 3)))"
proof -
  have "resolve_new demo_os (demo_fs_data [1, 2, 3]) [RootDir, Normal ''srv''] ''f''
      = Inr [RootDir, Normal ''srv'', Normal ''f'']"
    by code_simp
  moreover have "svc_root (fw_service (demo_uploading [1, 2, 3] 3)) = [RootDir, Normal ''srv'']"
    by (simp add: demo_uploading_def demo_world_def demo_service_def)
  moreover have "bu_transfer_id demo_upload_request = ''u''" "bu_path demo_upload_request = ''f''"
    "validate_digest (bu_sha256 demo_upload_request) True = Inr ()" "bu_size demo_upload_request = 3"
    by (simp_all add: demo_upload_request_def validate_digest_def demo_sha_def)
  moreover have "up_target (demo_active 3) = [RootDir, Normal ''srv'', Normal ''f'']"
    "up_expected_sha256 (demo_active 3) = bu_sha256 demo_upload_request"
    by (simp_all add: demo_active_def new_upload_def)
  ultimately show ?thesis
    unfolding begin_upload_def
    by (simp add: demo_upload_fields validate_transfer_id_def demo_resolved(2))
qed

lemma demo_sent:
  "write_chunk_with_reconnect put_codec False Some demo_upload_request (demo_chunk 0 [1, 2, 3]) (demo_uploading [] 0)
      (demo_put_moment ReplyLost # demo_put_moment Delivered # ms)
    = Some (demo_uploading [1, 2, 3] 3, ms, Inr (Upload_status (demo_active 3)))"
proof -
  have e: "encode_upload put_codec (demo_chunk 0 [1, 2, 3]) False = Inr (demo_chunk 0 [1, 2, 3])"
    "decode_upload put_codec (demo_chunk 0 [1, 2, 3]) False = Inr (demo_chunk 0 [1, 2, 3])"
    by (simp_all add: encode_upload_def decode_upload_def demo_chunk_def EncodedPayload_encode_def
        decode_bytes_def validate_header_def PayloadEncoding_try_from_def MAX_FILE_CHUNK_SIZE_def)
  have "checked_add (0 :: u64) (word_of_nat (length [1, 2, 3 :: u8])) = Some 3" by (simp add: checked_add_def)
  note p = demo_put(1) [OF this, of "[]"]
  show ?thesis
    by (simp add: write_chunk_with_reconnect_def e server_write_file_chunk_def p write_data_def
        demo_put_moment_def demo_begin_again server_error_def)
qed

lemma demo_uploaded:
  "\<exists>w. upload_file put_codec False Some demo_os demo_put_local demo_put_local (Inr ()) demo_put_read ''u'' [RootDir, Normal ''g'']
      ''f'' False demo_world (map demo_put_moment [Delivered, Delivered, ReplyLost, Delivered, Delivered])
    = Some (w, [], Inr ())"
proof -
  let ?m = "map demo_put_moment [ReplyLost, Delivered, Delivered]"
  have size: "bu_size demo_upload_request = 3" "bu_transfer_id demo_upload_request = ''u''"
    by (simp_all add: demo_upload_request_def)
  have cap: "client_chunk_size (cap_max_chunk_size capabilities) = 1048576"
    by (simp add: client_chunk_size_def capabilities_def MAX_FILE_CHUNK_SIZE_def)
  have active: "us_state (Upload_status (demo_active k)) = ''active''"
    "us_committed_offset (Upload_status (demo_active k)) = k" for k
    by (simp_all add: Upload_status_def demo_upload_fields)
  have chunk: "\<lparr> wc_transfer_id = ''u'', wc_offset = 0, wc_data = [1, 2, 3], wc_sha256 = demo_sha [1, 2, 3],
      wc_encoding = 0, wc_uncompressed_size = 0 \<rparr> = demo_chunk 0 [1, 2, 3]" by (simp add: demo_chunk_def)
  have loop: "put_loop put_codec False Some demo_put_read 1048576 demo_upload_request 0 (demo_uploading [] 0) ?m
      = Some (demo_uploading [1, 2, 3] 3, [demo_put_moment Delivered], Inr ())"
    by (subst put_loop.simps) (simp add: size demo_put_read_def chunk demo_sent active put_loop.simps)
  obtain w status where c: "commit_upload demo_os demo_sha Some ''u'' (demo_uploading [1, 2, 3] 3)
      = Some (w, Inr status)" using demo_committed by blast
  have "us_state status = ''completed''"
    using c by (auto simp: commit_upload_def Upload_status_def demo_upload_fields Let_def file_error_def
        split: sum.splits if_splits prod.splits)
  then have "commit_upload_with_reconnect put_codec Some demo_upload_request (demo_uploading [1, 2, 3] 3)
      [demo_put_moment Delivered] = Some (w, [], Inr status) \<and> us_state status = ''completed''"
    using c by (simp add: demo_put_moment_def size server_error_def)
  moreover have "begin_upload_with_reconnect put_codec Some demo_upload_request demo_world (demo_put_moment Delivered # ?m)
      = Some (demo_uploading [] 0, ?m, Inr (Upload_status (demo_active 0)))"
    by (simp add: demo_put_moment_def demo_begin server_error_def)
  ultimately have "send_upload put_codec False Some (Inr ()) demo_put_read 1048576 demo_upload_request demo_world
      (demo_put_moment Delivered # ?m) = Some (w, [], Inr ())"
    using loop by (simp add: send_upload_def active is_ok_iff)
  moreover have "pm_fate (demo_put_moment Delivered) = Delivered" by (simp add: demo_put_moment_def)
  ultimately show ?thesis
    by (simp add: upload_file_def demo_put_request cap) (simp add: capabilities_def FILE_PROTOCOL_VERSION_def)
qed


end
