(* ===== verification/Framing.thy ===== *)
theory Framing
  imports Prelude
begin

text \<open>
  Message framing (\<^verbatim>\<open>write_message\<close> and \<^verbatim>\<open>MessageReader\<close> of \<^verbatim>\<open>src/protocol.rs\<close>): a message is
  its encoding behind a big-endian length. The reader is fed by a transport that gives
  any number of bytes at a time, and a read that is still waiting may be cancelled at any
  moment; what it consumed stays in the reader. The encoding of the messages is an
  argument.
\<close>

unbundle bit_operations_syntax

section \<open>Writing\<close>

definition MAX_FRAME_SIZE :: usize where
  "MAX_FRAME_SIZE = 4 * 1024 * 1024"

definition write_message :: "('m \<Rightarrow> bytes) \<Rightarrow> 'm \<Rightarrow> bytes result" where
  "write_message encode message =
    (let payload = encode message
     in if MAX_FRAME_SIZE < length payload then bail ''frame is too large: {} bytes''
        else Inr (to_be_bytes (word_of_nat (length payload)) @ payload))"

section \<open>Reading\<close>

definition from_be_bytes :: "bytes \<Rightarrow> u32" where
  "from_be_bytes bs = foldl (\<lambda>w b. push_bit 8 w OR ucast b) 0 bs"

definition overlay :: "nat \<Rightarrow> bytes \<Rightarrow> bytes \<Rightarrow> bytes" where
  "overlay pos piece buf = take pos buf @ piece @ drop (pos + length piece) buf"

definition resize :: "nat \<Rightarrow> bytes \<Rightarrow> bytes" where
  "resize n buf = take n buf @ replicate (n - length buf) 0"

record MessageReader =
  mr_header :: bytes
  mr_header_read :: usize
  mr_payload :: bytes
  mr_payload_read :: usize

definition MessageReader_default :: MessageReader where
  "MessageReader_default = \<lparr> mr_header = [0, 0, 0, 0], mr_header_read = 0, mr_payload = [], mr_payload_read = 0 \<rparr>"

datatype fill_end = Full | Waiting | Eof

text \<open>The loop that fills a buffer. Each number of \<open>polls\<close> is how much the transport has ready
  when the reader asks; with no number left the reader is waiting.\<close>

fun fill :: "bytes \<Rightarrow> usize \<Rightarrow> bytes \<Rightarrow> nat list \<Rightarrow> bytes \<times> usize \<times> bytes \<times> nat list \<times> fill_end" where
  "fill buf pos stream polls =
    (if \<not> pos < length buf then (buf, pos, stream, polls, Full)
     else
       case polls of
         [] \<Rightarrow> (buf, pos, stream, [], Waiting)
       | n # polls \<Rightarrow>
           let piece = take (min (max 1 n) (length buf - pos)) stream
           in if piece = [] then (buf, pos, stream, polls, Eof)
              else fill (overlay pos piece buf) (pos + length piece) (drop (length piece) stream) polls)"

declare fill.simps [simp del]

datatype 'm read_end = Pending | Closed | Message 'm | Failed error

definition read_payload ::
  "(bytes \<Rightarrow> 'm result) \<Rightarrow> usize \<Rightarrow> MessageReader \<Rightarrow> bytes \<Rightarrow> nat list \<Rightarrow> MessageReader \<times> bytes \<times> 'm read_end" where
  "read_payload decode len reader stream polls =
    (let (p, pr, stream, polls, e) = fill (resize len (mr_payload reader)) (mr_payload_read reader) stream polls;
         reader = reader \<lparr> mr_payload := p, mr_payload_read := pr \<rparr>
     in case e of
          Waiting \<Rightarrow> (reader, stream, Pending)
        | Eof \<Rightarrow> (reader, stream, Failed [''truncated protocol frame payload''])
        | Full \<Rightarrow> (reader \<lparr> mr_header_read := 0, mr_payload_read := 0, mr_payload := [] \<rparr>, stream,
            case decode p of Inl e \<Rightarrow> Failed e | Inr m \<Rightarrow> Message m))"

definition read_limited ::
  "(bytes \<Rightarrow> 'm result) \<Rightarrow> usize \<Rightarrow> MessageReader \<Rightarrow> bytes \<Rightarrow> nat list \<Rightarrow> MessageReader \<times> bytes \<times> 'm read_end" where
  "read_limited decode limit reader stream polls =
    (let (h, hr, stream, polls, e) = fill (mr_header reader) (mr_header_read reader) stream polls;
         reader = reader \<lparr> mr_header := h, mr_header_read := hr \<rparr>
     in case e of
          Waiting \<Rightarrow> (reader, stream, Pending)
        | Eof \<Rightarrow> (reader, stream, if hr = 0 then Closed else Failed [''truncated protocol frame header''])
        | Full \<Rightarrow>
            let len = unat (from_be_bytes h)
            in if min limit MAX_FRAME_SIZE < len then
                 (reader, stream, Failed [''peer sent oversized frame: {length} bytes''])
               else read_payload decode len reader stream polls)"

definition MessageReader_read ::
  "(bytes \<Rightarrow> 'm result) \<Rightarrow> MessageReader \<Rightarrow> bytes \<Rightarrow> nat list \<Rightarrow> MessageReader \<times> bytes \<times> 'm read_end" where
  "MessageReader_read decode = read_limited decode MAX_FRAME_SIZE"

definition read_message_limited ::
  "(bytes \<Rightarrow> 'm result) \<Rightarrow> usize \<Rightarrow> bytes \<Rightarrow> nat list \<Rightarrow> bytes \<times> 'm read_end" where
  "read_message_limited decode limit stream polls =
    snd (read_limited decode limit MessageReader_default stream polls)"

definition read_message :: "(bytes \<Rightarrow> 'm result) \<Rightarrow> bytes \<Rightarrow> nat list \<Rightarrow> bytes \<times> 'm read_end" where
  "read_message decode stream polls = snd (MessageReader_read decode MessageReader_default stream polls)"

definition require_message :: "(bytes \<Rightarrow> 'm result) \<Rightarrow> bytes \<Rightarrow> nat list \<Rightarrow> bytes \<times> 'm read_end" where
  "require_message decode stream polls =
    (case read_message decode stream polls of
      (stream, Closed) \<Rightarrow> (stream, Failed [''peer closed the stream before sending a message''])
    | r \<Rightarrow> r)"

text \<open>One reader called again and again, each call cancelled when its polls are used up.\<close>

fun read_calls ::
  "(bytes \<Rightarrow> 'm result) \<Rightarrow> MessageReader \<Rightarrow> bytes \<Rightarrow> nat list list \<Rightarrow> 'm read_end list" where
  "read_calls decode reader stream [] = []"
| "read_calls decode reader stream (polls # calls) =
    (let (reader, stream, e) = MessageReader_read decode reader stream polls
     in e # read_calls decode reader stream calls)"

section \<open>Filling a buffer\<close>

lemma from_to_be_bytes: "from_be_bytes (to_be_bytes w) = w"
proof (rule bit_word_eqI)
  fix n assume "n < LENGTH(32)"
  then consider "n < 8" | "8 \<le> n" "n < 16" | "16 \<le> n" "n < 24" | "24 \<le> n" "n < 32" by fastforce
  then show "bit (from_be_bytes (to_be_bytes w)) n = bit w n"
    by cases (simp_all add: from_be_bytes_def to_be_bytes_def bit_simps less_diff_conv2)
qed

lemma length_to_be_bytes [simp]: "length (to_be_bytes w) = 4"
  by (simp add: to_be_bytes_def)

lemma overlay_length: "pos + length piece \<le> length buf \<Longrightarrow> length (overlay pos piece buf) = length buf"
  by (simp add: overlay_def)

lemma take_overlay: "pos + length piece \<le> length buf \<Longrightarrow>
    take (pos + length piece) (overlay pos piece buf) = take pos buf @ piece"
  by (simp add: overlay_def)

lemma take_then_drop: "take k xs @ drop (length (take k xs)) xs = xs"
  by (cases "k \<le> length xs") auto

lemma fill_keeps:
  assumes "fill buf pos stream polls = (buf', pos', stream', polls', e)" "pos \<le> length buf"
  shows "length buf' = length buf \<and> pos \<le> pos' \<and> pos' \<le> length buf \<and>
    take pos' buf' @ stream' = take pos buf @ stream \<and>
    (e = Full \<longleftrightarrow> pos' = length buf) \<and> (e = Eof \<longrightarrow> stream' = []) \<and>
    (e \<noteq> Eof \<longrightarrow> length polls \<le> length polls' + (pos' - pos)) \<and> (e = Waiting \<longrightarrow> polls' = [])"
  using assms
proof (induction buf pos stream polls rule: fill.induct)
  case (1 buf pos stream polls)
  show ?case
  proof (cases "pos < length buf")
    case False
    then show ?thesis using 1(2,3) by (subst (asm) fill.simps) auto
  next
    case True
    show ?thesis
    proof (cases polls)
      case Nil
      then show ?thesis using 1(2) True by (subst (asm) fill.simps) auto
    next
      case (Cons n ps)
      define piece where "piece = take (min (max 1 n) (length buf - pos)) stream"
      have eq: "(if piece = [] then (buf, pos, stream, ps, Eof)
          else fill (overlay pos piece buf) (pos + length piece) (drop (length piece) stream) ps)
          = (buf', pos', stream', polls', e)"
        using trans [OF fill.simps [symmetric] 1(2)] True Cons by (simp only: Let_def piece_def) simp
      show ?thesis
      proof (cases "piece = []")
        case e: True
        then have "stream = []" using True by (auto simp: piece_def)
        then show ?thesis using eq e True Cons by auto
      next
        case ne: False
        have "length piece \<le> length buf - pos" by (simp add: piece_def)
        then have fit: "pos + length piece \<le> length buf" using True by linarith
        have "fill (overlay pos piece buf) (pos + length piece) (drop (length piece) stream) ps
            = (buf', pos', stream', polls', e)" using eq ne by simp
        from 1(1) [OF _ Cons piece_def ne this] True fit
        have ih: "length buf' = length buf \<and> pos + length piece \<le> pos' \<and> pos' \<le> length buf \<and>
            take pos' buf' @ stream' = (take pos buf @ piece) @ drop (length piece) stream \<and>
            (e = Full \<longleftrightarrow> pos' = length buf) \<and> (e = Eof \<longrightarrow> stream' = []) \<and>
            (e \<noteq> Eof \<longrightarrow> length ps \<le> length polls' + (pos' - (pos + length piece))) \<and>
            (e = Waiting \<longrightarrow> polls' = [])"
          unfolding overlay_length [OF fit] take_overlay [OF fit] by blast
        have "piece @ drop (length piece) stream = stream"
          unfolding piece_def by (rule take_then_drop)
        moreover have "1 \<le> length piece" using ne by (simp add: Suc_le_eq)
        ultimately show ?thesis using ih Cons by auto
      qed
    qed
  qed
qed

section \<open>Reading what was written\<close>

text \<open>A reader that has consumed \<open>seen\<close>, the beginning of a frame.\<close>

definition reader_at :: "MessageReader \<Rightarrow> bytes \<Rightarrow> bool" where
  "reader_at reader seen \<longleftrightarrow> length (mr_header reader) = 4 \<and> mr_header_read reader \<le> 4 \<and>
    mr_payload_read reader \<le> length (mr_payload reader) \<and>
    (mr_header_read reader < 4 \<longrightarrow> mr_payload_read reader = 0) \<and>
    (0 < mr_payload_read reader \<longrightarrow> length (mr_payload reader) = unat (from_be_bytes (mr_header reader))) \<and>
    seen = take (mr_header_read reader) (mr_header reader) @ take (mr_payload_read reader) (mr_payload reader)"

lemma reader_at_default: "reader_at MessageReader_default []"
  by (simp add: reader_at_def MessageReader_default_def)

lemma resize_same: "length buf = n \<Longrightarrow> resize n buf = buf"
  by (simp add: resize_def)

lemma length_resize [simp]: "length (resize n buf) = n"
  by (simp add: resize_def)

lemma read_frame:
  assumes at: "reader_at reader seen"
    and wire: "seen @ stream = to_be_bytes (word_of_nat (length data)) @ data @ rest"
    and fits: "length data \<le> limit" "length data \<le> MAX_FRAME_SIZE"
    and ok: "decode data = Inr m"
    and read: "read_limited decode limit reader stream polls = (reader', stream', e)"
  shows "e = Message m \<and> reader_at reader' [] \<and> stream' = rest \<or>
    e = Pending \<and> length polls < length seen + length stream \<and>
      (\<exists>seen'. reader_at reader' seen' \<and> seen' @ stream' = seen @ stream)"
proof -
  let ?len = "word_of_nat (length data) :: u32" and ?pr = "mr_payload_read reader"
  have len: "unat ?len = length data" using fits(2) by (simp add: unat_of_nat MAX_FRAME_SIZE_def)
  note r = at [unfolded reader_at_def]
  have total: "length seen + length stream = 4 + length data + length rest"
    using arg_cong [OF wire, of length] by simp
  have seen: "length seen = mr_header_read reader + ?pr" using r by simp
  obtain h hr s1 p1 e1 where f1: "fill (mr_header reader) (mr_header_read reader) stream polls = (h, hr, s1, p1, e1)"
    by (metis prod_cases5)
  note k1 = fill_keeps [OF f1]
  have head: "length h = 4" "hr \<le> 4" "e1 = Full \<longleftrightarrow> hr = 4" "mr_header_read reader \<le> hr"
    "take hr h @ take ?pr (mr_payload reader) @ s1 = seen @ stream"
    "hr < 4 \<Longrightarrow> ?pr = 0"
  proof -
    show "length h = 4" "hr \<le> 4" "e1 = Full \<longleftrightarrow> hr = 4" "mr_header_read reader \<le> hr" "hr < 4 \<Longrightarrow> ?pr = 0"
      using k1 r by auto
    show "take hr h @ take ?pr (mr_payload reader) @ s1 = seen @ stream"
    proof (cases "mr_header_read reader < 4")
      case True
      then show ?thesis using k1 r by auto
    next
      case False
      then show ?thesis using f1 r by (subst (asm) fill.simps) auto
    qed
  qed
  have "e1 \<noteq> Eof"
  proof
    assume e: "e1 = Eof"
    then have "s1 = []" "hr < 4" using k1 r head(2,3) by auto
    then have "length (take hr h) = length (seen @ stream)" using head(5,6) by simp
    then show False using total \<open>hr < 4\<close> by simp
  qed
  then consider "e1 = Waiting" | "e1 = Full" by (cases e1) auto
  then show ?thesis
  proof cases
    case 1
    then have hr: "hr < 4" using head(2,3) by (cases "hr = 4") auto
    have out: "e = Pending" "stream' = s1" "reader' = reader \<lparr> mr_header := h, mr_header_read := hr \<rparr>"
      using read f1 1 by (auto simp: read_limited_def)
    have "reader_at reader' (take hr h @ take ?pr (mr_payload reader))"
      using out(3) r head hr by (auto simp: reader_at_def)
    moreover have "length polls < length seen + length stream"
      using k1 1 r hr total by auto
    ultimately show ?thesis using out head(5) by auto
  next
    case 2
    then have hr: "hr = 4" using head(3) by simp
    then have h: "h = to_be_bytes ?len" and s1: "take ?pr (mr_payload reader) @ s1 = data @ rest"
      using head(1,5) wire append_eq_append_conv [of h "to_be_bytes ?len"] by auto
    have pr: "?pr \<le> length data \<and> take ?pr (resize (length data) (mr_payload reader)) = take ?pr (mr_payload reader)"
    proof (cases "?pr = 0")
      case False
      then have "mr_header_read reader = 4" using r by (metis le_neq_implies_less)
      then have "h = mr_header reader" using f1 r by (subst (asm) fill.simps) auto
      then have "unat (from_be_bytes (mr_header reader)) = length data"
        using h len from_to_be_bytes [of ?len] by simp
      then have "length (mr_payload reader) = length data" using False r by simp
      then show ?thesis using r by (simp add: resize_same)
    qed simp
    obtain p pr' s2 p2 e2 where f2: "fill (resize (length data) (mr_payload reader)) ?pr s1 p1 = (p, pr', s2, p2, e2)"
      by (metis prod_cases5)
    note k2 = fill_keeps [OF f2]
    have payload: "(reader', stream', e) = read_payload decode (length data)
        (reader \<lparr> mr_header := h, mr_header_read := hr \<rparr>) s1 p1"
      using read f1 2 fits h by (simp add: read_limited_def Let_def from_to_be_bytes len min_less_iff_disj not_less)
    have p: "length p = length data" "pr' \<le> length data" "e2 = Full \<longleftrightarrow> pr' = length data" "take pr' p @ s2 = data @ rest"
      using k2 pr s1 by auto
    have "e2 \<noteq> Eof"
    proof
      assume e: "e2 = Eof"
      then have "s2 = []" "pr' < length data" using k2 pr p(2,3) by auto
      moreover have "length (take pr' p @ s2) = length (data @ rest)" by (simp only: p(4))
      ultimately show False using p(1) by simp
    qed
    then consider "e2 = Waiting" | "e2 = Full" by (cases e2) auto
    then show ?thesis
    proof cases
      case w: 1
      have out: "e = Pending" "stream' = s2"
        "reader' = reader \<lparr> mr_header := h, mr_header_read := hr, mr_payload := p, mr_payload_read := pr' \<rparr>"
        using payload f2 w by (simp_all add: read_payload_def)
      have "reader_at reader' (h @ take pr' p)"
        using out(3) hr head(1) p(1,2) h len by (auto simp: reader_at_def from_to_be_bytes)
      moreover have "length polls < length seen + length stream"
        using k1 k2 r 2 w hr pr total p(2,3) head(4) by (cases "pr' = length data") auto
      ultimately show ?thesis using out h p(4) wire by auto
    next
      case 2
      have "p = data" "s2 = rest" using 2 p by auto
      then show ?thesis
        using payload f2 2 ok head(1) by (simp add: read_payload_def reader_at_def)
    qed
  qed
qed

lemma read_closed:
  assumes "reader_at reader []" "read_limited decode limit reader [] polls = (reader', stream', e)"
  shows "stream' = [] \<and> reader_at reader' [] \<and> e = (if polls = [] then Pending else Closed)"
proof -
  have "mr_header_read reader = 0" "length (mr_header reader) = 4" "mr_payload_read reader = 0"
    using assms(1) by (auto simp: reader_at_def)
  moreover from this have "fill (mr_header reader) 0 [] polls =
      (mr_header reader, 0, [], tl polls, if polls = [] then Waiting else Eof)"
    by (subst fill.simps) (auto split: list.splits)
  ultimately show ?thesis using assms by (auto simp: read_limited_def reader_at_def)
qed

fun messages :: "'m read_end list \<Rightarrow> 'm list" where
  "messages [] = []"
| "messages (Message m # es) = m # messages es"
| "messages (e # es) = messages es"

definition is_failed :: "'m read_end \<Rightarrow> bool" where
  "is_failed e \<longleftrightarrow> (case e of Failed _ \<Rightarrow> True | _ \<Rightarrow> False)"

lemma written:
  assumes "write_message encode m = Inr w"
  shows "w = to_be_bytes (word_of_nat (length (encode m))) @ encode m" "length (encode m) \<le> MAX_FRAME_SIZE"
  using assms by (auto simp: write_message_def Let_def split: if_splits)

lemma read_calls_sound:
  assumes "\<And>m. m \<in> set ms \<Longrightarrow> decode (encode m) = Inr m"
    and "list_all2 (\<lambda>m w. write_message encode m = Inr w) ms ws"
    and "reader_at reader seen" "seen @ stream = concat ws"
  shows "\<not> list_ex is_failed (read_calls decode reader stream calls) \<and>
    (\<exists>rest. ms = messages (read_calls decode reader stream calls) @ rest \<and>
      (Closed \<in> set (read_calls decode reader stream calls) \<longrightarrow> rest = []))"
  using assms
proof (induction calls arbitrary: ms ws reader seen stream)
  case Nil
  then show ?case by simp
next
  case (Cons polls calls)
  obtain reader' stream' e where r: "MessageReader_read decode reader stream polls = (reader', stream', e)"
    by (metis prod_cases3)
  show ?case
  proof (cases ms)
    case Nil
    then have "seen = []" "stream = []" using Cons.prems(2,4) by auto
    then have c: "stream' = []" "reader_at reader' []" "e = (if polls = [] then Pending else Closed)"
      using read_closed [of reader decode MAX_FRAME_SIZE polls] Cons.prems(3) r
      by (auto simp: MessageReader_read_def)
    from Cons.IH [of "[]" "[]" reader' "[]" stream'] c Nil show ?thesis
      by (auto simp: r is_failed_def)
  next
    case (Cons m ms')
    obtain w ws' where ws: "ws = w # ws'" "write_message encode m = Inr w"
        "list_all2 (\<lambda>m w. write_message encode m = Inr w) ms' ws'"
      using Cons.prems(2) Cons by (auto simp: list_all2_Cons1)
    note w = written [OF ws(2)]
    have wire: "seen @ stream = to_be_bytes (word_of_nat (length (encode m))) @ encode m @ concat ws'"
      using Cons.prems(4) ws(1) w(1) by simp
    have ok: "decode (encode m) = Inr m" using Cons.prems(1) Cons by simp
    from read_frame [OF Cons.prems(3) wire w(2) w(2) ok r [unfolded MessageReader_read_def]]
    consider "e = Message m" "reader_at reader' []" "stream' = concat ws'"
      | seen' where "e = Pending" "reader_at reader' seen'" "seen' @ stream' = seen @ stream" by blast
    then show ?thesis
    proof cases
      case 1
      have "\<And>m. m \<in> set ms' \<Longrightarrow> decode (encode m) = Inr m" using Cons.prems(1) Cons by simp
      from Cons.IH [OF this ws(3) 1(2), of stream'] 1 show ?thesis
        by (auto simp: r is_failed_def Cons)
    next
      case 2
      have "seen' @ stream' = concat ws" using 2(3) Cons.prems(4) by simp
      from Cons.IH [OF Cons.prems(1,2) 2(2) this] 2 show ?thesis
        by (auto simp: r is_failed_def)
    qed
  qed
qed

lemma read_calls_live:
  assumes "\<And>m. m \<in> set ms \<Longrightarrow> decode (encode m) = Inr m"
    and "list_all2 (\<lambda>m w. write_message encode m = Inr w) ms ws" "reader_at reader []"
    and "list_all (\<lambda>polls. length (concat ws) < length polls) calls"
  shows "read_calls decode reader (concat ws) calls
    = take (length calls) (map Message ms @ replicate (length calls) Closed)"
  using assms
proof (induction calls arbitrary: ms ws reader)
  case Nil
  then show ?case by simp
next
  case (Cons polls calls)
  obtain reader' stream' e where r: "MessageReader_read decode reader (concat ws) polls = (reader', stream', e)"
    by (metis prod_cases3)
  show ?case
  proof (cases ms)
    case Nil
    then have ws: "ws = []" using Cons.prems(2) by simp
    then have c: "stream' = []" "reader_at reader' []" "e = Closed"
      using read_closed [of reader decode MAX_FRAME_SIZE polls] Cons.prems(3,4) r
      by (auto simp: MessageReader_read_def)
    have "read_calls decode reader' [] calls = take (length calls) (replicate (length calls) Closed)"
      using Cons.IH [of "[]" "[]" reader'] c Cons.prems(4) ws by simp
    then show ?thesis using c r ws Nil by simp
  next
    case (Cons m ms')
    obtain w ws' where ws: "ws = w # ws'" "write_message encode m = Inr w"
        "list_all2 (\<lambda>m w. write_message encode m = Inr w) ms' ws'"
      using Cons.prems(2) Cons by (auto simp: list_all2_Cons1)
    note w = written [OF ws(2)]
    have wire: "[] @ concat ws = to_be_bytes (word_of_nat (length (encode m))) @ encode m @ concat ws'"
      using ws(1) w(1) by simp
    have ok: "decode (encode m) = Inr m" using Cons.prems(1) Cons by simp
    have out: "e = Message m" "reader_at reader' []" "stream' = concat ws'"
      using read_frame [OF Cons.prems(3) wire w(2) w(2) ok r [unfolded MessageReader_read_def]] Cons.prems(4)
      by auto
    have less: "list_all (\<lambda>polls. length (concat ws') < length polls) calls"
      using Cons.prems(4) ws(1) by (auto simp: list_all_iff)
    have "\<And>m. m \<in> set ms' \<Longrightarrow> decode (encode m) = Inr m" using Cons.prems(1) Cons by simp
    from Cons.IH [OF this ws(3) out(2) less] show ?thesis
      using r out Cons by (simp flip: replicate_Suc)
  qed
qed

section \<open>The promise\<close>

text \<open>C15. Framing is transparent. Write any messages one after the other and read them back
  from a transport that hands over the bytes in any pieces, while reads that still wait
  are cancelled at any point and repeated: no read fails, the messages come out in order
  with none skipped, changed or repeated, and the end is only reported after the last
  one. Calls that are not cancelled before the bytes have arrived return exactly the
  messages and then the end.\<close>

theorem framing_round_trip:
  assumes "\<And>m. m \<in> set ms \<Longrightarrow> decode (encode m) = Inr m"
    and "list_all2 (\<lambda>m w. write_message encode m = Inr w) ms ws"
  shows "\<not> list_ex is_failed (read_calls decode MessageReader_default (concat ws) calls) \<and>
    (\<exists>rest. ms = messages (read_calls decode MessageReader_default (concat ws) calls) @ rest \<and>
      (Closed \<in> set (read_calls decode MessageReader_default (concat ws) calls) \<longrightarrow> rest = [])) \<and>
    (list_all (\<lambda>polls. length (concat ws) < length polls) calls \<longrightarrow>
      read_calls decode MessageReader_default (concat ws) calls
        = take (length calls) (map Message ms @ replicate (length calls) Closed))"
  using read_calls_sound [OF assms reader_at_default, of "concat ws" calls]
    read_calls_live [OF assms reader_at_default] by simp

text \<open>Two messages, a header cut in two and a read that is cancelled inside it.\<close>

theorem framing_round_trip_witness:
  "\<exists>rest. [[7, 8], []] = messages (read_calls Inr MessageReader_default [0, 0, 0, 2, 7, 8, 0, 0, 0, 0]
        [[3], [5, 1, 1], [9]]) @ rest
    \<and> read_calls Inr MessageReader_default [0, 0, 0, 2, 7, 8, 0, 0, 0, 0] [replicate 11 1, replicate 11 2, replicate 11 1]
      = [Message [7, 8], Message [], Closed]"
proof -
  let ?ws = "[[0, 0, 0, 2, 7, 8], [0, 0, 0, 0]]"
  have w: "list_all2 (\<lambda>m w. write_message (\<lambda>b. b) m = Inr w) [[7, 8], []] ?ws"
    by (simp add: write_message_def MAX_FRAME_SIZE_def to_be_bytes_def)
  note f = framing_round_trip [OF _ w, of Inr, simplified]
  from f [of "[[3], [5, 1, 1], [9]]"] f [of "[replicate 11 1, replicate 11 2, replicate 11 1]"]
  show ?thesis by auto
qed

end
