(* ===== verification/Queued_Writer.thy ===== *)
theory Queued_Writer
  imports Prelude "HOL-Library.Sublist"
begin

text \<open>
  The queued writer (\<^verbatim>\<open>src/queued_writer.rs\<close>): an attachment hands its output to a draining
  task over a bounded channel and counts the bytes in flight in an atomic counter, so
  that it never blocks on the peer. The two sides interleave at their atomic operations:
  the load, the compare-and-exchange and the send of \<^verbatim>\<open>poll_write\<close>, the check and the
  wake-up of \<^verbatim>\<open>wait_until_drained\<close>, and the receive, the write, the decrement and the
  notification of the drain.
\<close>

section \<open>State\<close>

definition MAX_QUEUED_BYTES :: usize where
  "MAX_QUEUED_BYTES = 20 * 1024 * 1024"

definition CHANNEL_CAPACITY :: nat where
  "CHANNEL_CAPACITY = 1024"

text \<open>Where the owner of the writer is: between calls, inside \<^verbatim>\<open>poll_write\<close> (with the value it
  loaded, with its bytes counted, or about to take them back), or inside
  \<^verbatim>\<open>wait_until_drained\<close> (awaiting the notification, or about to look again).\<close>

datatype producer = Idle | Loaded bytes usize | Counted bytes | Rejected bytes | Awaiting | Rechecking

datatype drain = Receiving | Writing bytes | Written bytes | Notifying | Finished | Broken

record queued_writer =
  qw_sender :: bool
  qw_queued :: usize
  qw_permit :: bool
  qw_channel :: "bytes list"
  qw_producer :: producer
  qw_drain :: drain
  qw_sink :: bytes
  qw_accepted :: bytes

definition new_queued_writer :: queued_writer where
  "new_queued_writer = \<lparr> qw_sender = True, qw_queued = 0, qw_permit = False, qw_channel = [], qw_producer = Idle,
    qw_drain = Receiving, qw_sink = [], qw_accepted = [] \<rparr>"

text \<open>\<^verbatim>\<open>AtomicUsize::fetch_sub\<close> wraps around.\<close>

definition fetch_sub :: "usize \<Rightarrow> usize \<Rightarrow> usize" where
  "fetch_sub q n = (q + 2 ^ 64 - n) mod 2 ^ 64"

definition receiver_alive :: "drain \<Rightarrow> bool" where
  "receiver_alive d \<longleftrightarrow> d \<noteq> Finished \<and> d \<noteq> Broken"

section \<open>Steps\<close>

datatype event =
    Load bytes
  | Exchange bool
  | TrySend
  | Rollback
  | Shutdown
  | Check
  | Wake
  | Cancel
  | Recv
  | WriteAll "nat option"
  | Decrement
  | Notify

text \<open>\<^verbatim>\<open>poll_write\<close> of a nonempty buffer, one atomic operation at a time. The weak exchange may fail
  without a reason.\<close>

fun poll_write_step :: "event \<Rightarrow> queued_writer \<Rightarrow> queued_writer option" where
  "poll_write_step (Load bytes) s =
    (if qw_producer s = Idle \<and> qw_sender s \<and> bytes \<noteq> [] then
       Some (s \<lparr> qw_producer := Loaded bytes (qw_queued s) \<rparr>)
     else None)"
| "poll_write_step (Exchange spurious) s =
    (case qw_producer s of
      Loaded bytes current \<Rightarrow>
        Some (if 2 ^ 64 \<le> current + length bytes \<or> MAX_QUEUED_BYTES < current + length bytes then
            s \<lparr> qw_producer := Idle \<rparr>
          else if qw_queued s = current \<and> \<not> spurious then
            s \<lparr> qw_queued := current + length bytes, qw_producer := Counted bytes \<rparr>
          else s \<lparr> qw_producer := Loaded bytes (qw_queued s) \<rparr>)
    | _ \<Rightarrow> None)"
| "poll_write_step TrySend s =
    (case qw_producer s of
      Counted bytes \<Rightarrow>
        Some (if receiver_alive (qw_drain s) \<and> length (qw_channel s) < CHANNEL_CAPACITY then
            s \<lparr> qw_channel := qw_channel s @ [bytes], qw_accepted := qw_accepted s @ bytes, qw_producer := Idle \<rparr>
          else s \<lparr> qw_producer := Rejected bytes \<rparr>)
    | _ \<Rightarrow> None)"
| "poll_write_step Rollback s =
    (case qw_producer s of
      Rejected bytes \<Rightarrow> Some (s \<lparr> qw_queued := fetch_sub (qw_queued s) (length bytes), qw_producer := Idle \<rparr>)
    | _ \<Rightarrow> None)"
| "poll_write_step _ s = None"

fun poll_shutdown_step :: "event \<Rightarrow> queued_writer \<Rightarrow> queued_writer option" where
  "poll_shutdown_step Shutdown s = (if qw_producer s = Idle then Some (s \<lparr> qw_sender := False \<rparr>) else None)"
| "poll_shutdown_step _ s = None"

definition poll_flush :: "queued_writer \<Rightarrow> unit result" where
  "poll_flush s = (if \<not> qw_sender s \<or> \<not> receiver_alive (qw_drain s) then bail ''broken pipe'' else Inr ())"

text \<open>\<^verbatim>\<open>wait_until_drained\<close>. A notification without a waiter is kept as a permit, which the next
  waiter consumes; a wait may be cancelled.\<close>

fun wait_until_drained_step :: "event \<Rightarrow> queued_writer \<Rightarrow> queued_writer option" where
  "wait_until_drained_step Check s =
    (if qw_producer s = Idle \<or> qw_producer s = Rechecking then
       Some (s \<lparr> qw_producer := (if qw_queued s = 0 then Idle else Awaiting) \<rparr>)
     else None)"
| "wait_until_drained_step Wake s =
    (if qw_producer s = Awaiting \<and> qw_permit s then
       Some (s \<lparr> qw_permit := False, qw_producer := Rechecking \<rparr>)
     else None)"
| "wait_until_drained_step Cancel s =
    (if qw_producer s = Awaiting then Some (s \<lparr> qw_producer := Idle \<rparr>) else None)"
| "wait_until_drained_step _ s = None"

text \<open>The draining task. \<^verbatim>\<open>recv\<close> waits while the channel is empty and its sender lives; a write may
  break after any number of bytes.\<close>

fun drain_step :: "event \<Rightarrow> queued_writer \<Rightarrow> queued_writer option" where
  "drain_step Recv s =
    (if qw_drain s = Receiving then
       case qw_channel s of
         bytes # channel \<Rightarrow> Some (s \<lparr> qw_channel := channel, qw_drain := Writing bytes \<rparr>)
       | [] \<Rightarrow> if qw_sender s then None else Some (s \<lparr> qw_drain := Finished \<rparr>)
     else None)"
| "drain_step (WriteAll fault) s =
    (case qw_drain s of
      Writing bytes \<Rightarrow>
        Some (case fault of
          None \<Rightarrow> s \<lparr> qw_sink := qw_sink s @ bytes, qw_drain := Written bytes \<rparr>
        | Some n \<Rightarrow> s \<lparr> qw_sink := qw_sink s @ take n bytes, qw_drain := Broken, qw_channel := [] \<rparr>)
    | _ \<Rightarrow> None)"
| "drain_step Decrement s =
    (case qw_drain s of
      Written bytes \<Rightarrow>
        Some (s \<lparr> qw_queued := fetch_sub (qw_queued s) (length bytes),
          qw_drain := (if qw_queued s = length bytes then Notifying else Receiving) \<rparr>)
    | _ \<Rightarrow> None)"
| "drain_step Notify s =
    (if qw_drain s = Notifying then Some (s \<lparr> qw_permit := True, qw_drain := Receiving \<rparr>) else None)"
| "drain_step _ s = None"

definition queue_steps :: "event \<Rightarrow> queued_writer \<Rightarrow> queued_writer list" where
  "queue_steps e s = List.map_filter (\<lambda>f. f e s)
    [poll_write_step, poll_shutdown_step, wait_until_drained_step, drain_step]"

inductive queue_reachable :: "queued_writer \<Rightarrow> bool" where
  start: "queue_reachable new_queued_writer"
| step: "queue_reachable s \<Longrightarrow> s' \<in> set (queue_steps e s) \<Longrightarrow> queue_reachable s'"

section \<open>The invariant\<close>

fun held :: "producer \<Rightarrow> bytes" where
  "held (Counted bytes) = bytes"
| "held (Rejected bytes) = bytes"
| "held _ = []"

fun on_its_way :: "drain \<Rightarrow> bytes" where
  "on_its_way (Writing bytes) = bytes"
| "on_its_way _ = []"

fun not_yet_subtracted :: "drain \<Rightarrow> bytes" where
  "not_yet_subtracted (Writing bytes) = bytes"
| "not_yet_subtracted (Written bytes) = bytes"
| "not_yet_subtracted _ = []"

definition in_flight :: "queued_writer \<Rightarrow> nat" where
  "in_flight s = length (concat (qw_channel s)) + length (not_yet_subtracted (qw_drain s))
    + length (held (qw_producer s))"

definition counted :: "queued_writer \<Rightarrow> bool" where
  "counted s \<longleftrightarrow> in_flight s \<le> qw_queued s \<and> qw_queued s \<le> MAX_QUEUED_BYTES \<and>
    (qw_drain s \<noteq> Broken \<longrightarrow> qw_queued s = in_flight s)"

definition in_order :: "queued_writer \<Rightarrow> bool" where
  "in_order s \<longleftrightarrow> prefix (qw_sink s) (qw_accepted s) \<and>
    (qw_drain s \<noteq> Broken \<longrightarrow> qw_accepted s = qw_sink s @ on_its_way (qw_drain s) @ concat (qw_channel s)) \<and>
    (qw_drain s = Finished \<longrightarrow> qw_channel s = []) \<and> length (qw_channel s) \<le> CHANNEL_CAPACITY"

definition woken :: "queued_writer \<Rightarrow> bool" where
  "woken s \<longleftrightarrow> (qw_producer s = Awaiting \<and> qw_queued s = 0 \<longrightarrow> qw_permit s \<or> qw_drain s = Notifying)"

definition queue_inv :: "queued_writer \<Rightarrow> bool" where
  "queue_inv s \<longleftrightarrow> counted s \<and> in_order s \<and> woken s"

lemma fetch_sub_le: "n \<le> q \<Longrightarrow> q \<le> MAX_QUEUED_BYTES \<Longrightarrow> fetch_sub q n = q - n"
proof -
  assume "n \<le> q" "q \<le> MAX_QUEUED_BYTES"
  then have "q + 2 ^ 64 - n = (q - n) + 2 ^ 64" "q - n < 2 ^ 64" by (simp_all add: MAX_QUEUED_BYTES_def)
  then show ?thesis by (simp only: fetch_sub_def mod_add_self2 mod_less)
qed

lemma queue_inv_new: "queue_inv new_queued_writer"
  by (simp add: queue_inv_def counted_def in_order_def woken_def in_flight_def new_queued_writer_def)

lemma poll_write_inv:
  assumes "queue_inv s" "poll_write_step e s = Some s'"
  shows "queue_inv s'"
proof -
  have c: "counted s" and i: "in_order s" using assms(1) by (simp_all add: queue_inv_def)
  have "woken s'" using assms(2)
    by (cases e) (auto simp: woken_def split: if_splits producer.splits)
  moreover have "in_order s'" using assms(2) i
    by (cases e) (auto simp: in_order_def receiver_alive_def prefix_def split: if_splits producer.splits)
  moreover have "counted s'"
  proof (cases e)
    case (Load bytes)
    then show ?thesis using assms(2) c by (auto simp: counted_def in_flight_def split: if_splits)
  next
    case (Exchange spurious)
    then obtain bytes current where p: "qw_producer s = Loaded bytes current"
      using assms(2) by (auto split: producer.splits)
    then consider "s' = s \<lparr> qw_producer := Idle \<rparr>" | "s' = s \<lparr> qw_producer := Loaded bytes (qw_queued s) \<rparr>"
      | "s' = s \<lparr> qw_queued := qw_queued s + length bytes, qw_producer := Counted bytes \<rparr>"
        "qw_queued s + length bytes \<le> MAX_QUEUED_BYTES"
      using assms(2) Exchange by (auto split: if_splits)
    then show ?thesis using c p by cases (simp_all add: counted_def in_flight_def)
  next
    case TrySend
    then obtain bytes where p: "qw_producer s = Counted bytes" using assms(2) by (auto split: producer.splits)
    then consider "s' = s \<lparr> qw_channel := qw_channel s @ [bytes], qw_accepted := qw_accepted s @ bytes, qw_producer := Idle \<rparr>"
      | "s' = s \<lparr> qw_producer := Rejected bytes \<rparr>"
      using assms(2) TrySend by (auto split: if_splits)
    then show ?thesis using c p by cases (simp_all add: counted_def in_flight_def)
  next
    case Rollback
    then obtain bytes where p: "qw_producer s = Rejected bytes" using assms(2) by (auto split: producer.splits)
    have le: "length bytes \<le> qw_queued s" "qw_queued s \<le> MAX_QUEUED_BYTES"
      using c p by (simp_all add: counted_def in_flight_def)
    then have s': "s' = s \<lparr> qw_queued := qw_queued s - length bytes, qw_producer := Idle \<rparr>"
      using assms(2) p Rollback by (simp add: fetch_sub_le)
    have "in_flight s' = in_flight s - length bytes" "length bytes \<le> in_flight s"
      using p by (simp_all add: s' in_flight_def)
    then show ?thesis using c le unfolding counted_def by (auto simp: s')
  qed (use assms(2) in simp_all)
  ultimately show ?thesis by (simp add: queue_inv_def)
qed

lemma waiting_inv:
  assumes "queue_inv s" "wait_until_drained_step e s = Some s'"
  shows "queue_inv s'"
proof -
  consider "qw_producer s = Idle \<or> qw_producer s = Rechecking" "qw_queued s = 0" "s' = s \<lparr> qw_producer := Idle \<rparr>"
    | "qw_producer s = Idle \<or> qw_producer s = Rechecking" "qw_queued s \<noteq> 0" "s' = s \<lparr> qw_producer := Awaiting \<rparr>"
    | "qw_producer s = Awaiting" "s' = s \<lparr> qw_permit := False, qw_producer := Rechecking \<rparr>"
    | "qw_producer s = Awaiting" "s' = s \<lparr> qw_producer := Idle \<rparr>"
    using assms(2) by (cases e) (auto split: if_splits)
  then show ?thesis using assms(1)
    by cases (auto simp: queue_inv_def counted_def in_flight_def in_order_def woken_def)
qed

lemma shutdown_inv:
  assumes "queue_inv s" "poll_shutdown_step e s = Some s'"
  shows "queue_inv s'"
proof -
  have "s' = s \<lparr> qw_sender := False \<rparr>" using assms(2) by (cases e) (auto split: if_splits)
  then show ?thesis using assms(1)
    by (simp add: queue_inv_def counted_def in_flight_def in_order_def woken_def)
qed

lemma drain_inv:
  assumes "queue_inv s" "drain_step e s = Some s'"
  shows "queue_inv s'"
proof -
  have c: "counted s" and i: "in_order s" and w: "woken s" using assms(1) by (simp_all add: queue_inv_def)
  show ?thesis
  proof (cases e)
    case Recv
    then consider bytes channel where "qw_drain s = Receiving" "qw_channel s = bytes # channel"
        "s' = s \<lparr> qw_channel := channel, qw_drain := Writing bytes \<rparr>"
      | "qw_drain s = Receiving" "qw_channel s = []" "s' = s \<lparr> qw_drain := Finished \<rparr>"
      using assms(2) by (auto split: if_splits list.splits)
    then show ?thesis using c i w
      by cases (simp_all add: queue_inv_def counted_def in_flight_def in_order_def woken_def)
  next
    case (WriteAll fault)
    then obtain bytes where d: "qw_drain s = Writing bytes" using assms(2) by (auto split: drain.splits)
    show ?thesis
    proof (cases fault)
      case None
      then have "s' = s \<lparr> qw_sink := qw_sink s @ bytes, qw_drain := Written bytes \<rparr>"
        using assms(2) WriteAll d by simp
      then show ?thesis using c i w d
        by (simp add: queue_inv_def counted_def in_flight_def in_order_def woken_def)
    next
      case (Some n)
      then have s': "s' = s \<lparr> qw_sink := qw_sink s @ take n bytes, qw_drain := Broken, qw_channel := [] \<rparr>"
        using assms(2) WriteAll d by simp
      have "prefix (qw_sink s @ take n bytes) (qw_sink s @ (take n bytes @ drop n bytes) @ concat (qw_channel s))"
        by (simp only: append_assoc same_prefix_prefix prefix_def) blast
      then show ?thesis using c i w d unfolding s'
        by (simp add: queue_inv_def counted_def in_flight_def in_order_def woken_def)
    qed
  next
    case Decrement
    then obtain bytes where d: "qw_drain s = Written bytes" using assms(2) by (auto split: drain.splits)
    have le: "length bytes \<le> qw_queued s" "qw_queued s \<le> MAX_QUEUED_BYTES"
      using c d by (simp_all add: counted_def in_flight_def)
    then have s': "s' = s \<lparr> qw_queued := qw_queued s - length bytes,
        qw_drain := (if qw_queued s = length bytes then Notifying else Receiving) \<rparr>"
      using assms(2) d Decrement by (simp add: fetch_sub_le)
    have "in_flight s' = in_flight s - length bytes" "length bytes \<le> in_flight s"
      using d by (simp_all add: s' in_flight_def)
    then have "counted s'" using c le d unfolding counted_def by (auto simp: s')
    moreover have "in_order s'" "woken s'" using i w d le by (auto simp: s' in_order_def woken_def)
    ultimately show ?thesis by (simp add: queue_inv_def)
  next
    case Notify
    then have "qw_drain s = Notifying" "s' = s \<lparr> qw_permit := True, qw_drain := Receiving \<rparr>"
      using assms(2) by (simp_all split: if_splits)
    then show ?thesis using c i w
      by (simp add: queue_inv_def counted_def in_flight_def in_order_def woken_def)
  qed (use assms(2) in simp_all)
qed

lemma queue_reachable_inv: "queue_reachable s \<Longrightarrow> queue_inv s"
proof (induction rule: queue_reachable.induct)
  case start
  then show ?case by (rule queue_inv_new)
next
  case (step s s' e)
  then consider "poll_write_step e s = Some s'" | "poll_shutdown_step e s = Some s'"
    | "wait_until_drained_step e s = Some s'" | "drain_step e s = Some s'"
    by (auto simp: queue_steps_def map_filter_simps split: option.splits)
  then show ?case
    using step.IH poll_write_inv waiting_inv shutdown_inv drain_inv by cases blast+
qed

section \<open>Waiting ends\<close>

text \<open>What the draining task does on its own while the sink works.\<close>

definition drains :: "queued_writer \<Rightarrow> queued_writer \<Rightarrow> bool" where
  "drains s s' \<longleftrightarrow> (\<exists>e. (\<forall>n. e \<noteq> WriteAll (Some n)) \<and> drain_step e s = Some s')"

lemma drainsI: "drain_step e s = Some s' \<Longrightarrow> (\<And>n. e \<noteq> WriteAll (Some n)) \<Longrightarrow> drains s s'"
  by (auto simp: drains_def)

lemma drains_inv: "drains s s' \<Longrightarrow> queue_inv s \<Longrightarrow> queue_inv s' \<and> qw_producer s' = qw_producer s"
proof -
  assume "drains s s'" "queue_inv s"
  then obtain e where e: "drain_step e s = Some s'" by (auto simp: drains_def)
  have "qw_producer s' = qw_producer s"
    using e by (cases e) (auto split: if_splits list.splits drain.splits option.splits)
  then show ?thesis using drain_inv [OF \<open>queue_inv s\<close> e] by simp
qed

lemma written_wakes:
  assumes "queue_inv s" "qw_producer s = Awaiting" "qw_drain s = Written bytes"
    and "\<And>s'. queue_inv s' \<Longrightarrow> qw_producer s' = Awaiting \<Longrightarrow> qw_drain s' = Receiving \<Longrightarrow>
      qw_channel s' = qw_channel s \<Longrightarrow> qw_queued s' \<noteq> 0 \<Longrightarrow> \<exists>t. drains\<^sup>*\<^sup>* s' t \<and> qw_permit t \<and> qw_producer t = Awaiting"
  shows "\<exists>t. drains\<^sup>*\<^sup>* s t \<and> qw_permit t \<and> qw_producer t = Awaiting"
proof -
  obtain s1 where s1: "drain_step Decrement s = Some s1" using assms(3) by simp
  then have d1: "drains s s1" by (rule drainsI) simp
  note k1 = drains_inv [OF d1 assms(1)]
  show ?thesis
  proof (cases "qw_drain s1 = Notifying")
    case True
    let ?t = "s1 \<lparr> qw_permit := True, qw_drain := Receiving \<rparr>"
    have "drains s1 ?t" by (rule drainsI [of Notify]) (simp_all add: True)
    then show ?thesis using d1 k1 assms(2) by (intro exI [of _ ?t]) (auto intro: rtranclp.intros)
  next
    case False
    then have r: "qw_drain s1 = Receiving" "qw_channel s1 = qw_channel s" "qw_queued s \<noteq> length bytes"
      using s1 assms(3) by (auto split: if_splits)
    have le: "length bytes \<le> qw_queued s" "qw_queued s \<le> MAX_QUEUED_BYTES"
      using assms(1,3) by (simp_all add: queue_inv_def counted_def in_flight_def)
    then have "qw_queued s1 = qw_queued s - length bytes" using s1 assms(3) by (auto simp: fetch_sub_le)
    then have "qw_queued s1 \<noteq> 0" using r(3) le by simp
    then obtain t where "drains\<^sup>*\<^sup>* s1 t" "qw_permit t" "qw_producer t = Awaiting"
      using assms(4) [of s1] k1 r assms(2) by auto
    then show ?thesis using d1 by (auto intro: converse_rtranclp_into_rtranclp)
  qed
qed

lemma receiving_wakes:
  "queue_inv s \<Longrightarrow> qw_producer s = Awaiting \<Longrightarrow> qw_drain s = Receiving \<Longrightarrow> qw_queued s \<noteq> 0 \<Longrightarrow>
    \<exists>t. drains\<^sup>*\<^sup>* s t \<and> qw_permit t \<and> qw_producer t = Awaiting"
proof (induction "length (qw_channel s)" arbitrary: s rule: less_induct)
  case less
  have "qw_channel s \<noteq> []"
    using less.prems by (auto simp: queue_inv_def counted_def in_flight_def)
  then obtain bytes channel where ch: "qw_channel s = bytes # channel" by (cases "qw_channel s") auto
  let ?s1 = "s \<lparr> qw_channel := channel, qw_drain := Writing bytes \<rparr>"
  let ?s2 = "?s1 \<lparr> qw_sink := qw_sink s @ bytes, qw_drain := Written bytes \<rparr>"
  have d1: "drains s ?s1" by (rule drainsI [of Recv]) (simp_all add: ch less.prems)
  note k1 = drains_inv [OF d1 less.prems(1)]
  have d2: "drains ?s1 ?s2" by (rule drainsI [of "WriteAll None"]) simp_all
  note k2 = drains_inv [OF d2 conjunct1 [OF k1]]
  have "\<exists>t. drains\<^sup>*\<^sup>* ?s2 t \<and> qw_permit t \<and> qw_producer t = Awaiting"
  proof (rule written_wakes)
    show "queue_inv ?s2" using k2 by simp
    show "qw_producer ?s2 = Awaiting" using less.prems(2) by simp
    show "qw_drain ?s2 = Written bytes" by simp
    show "\<exists>t. drains\<^sup>*\<^sup>* s' t \<and> qw_permit t \<and> qw_producer t = Awaiting"
      if "queue_inv s'" "qw_producer s' = Awaiting" "qw_drain s' = Receiving" "qw_channel s' = qw_channel ?s2"
        "qw_queued s' \<noteq> 0" for s'
      by (rule less.hyps) (use that ch in simp_all)
  qed
  then show ?case using d1 d2 by (blast intro: converse_rtranclp_into_rtranclp)
qed

lemma waiting_ends:
  assumes "queue_inv s" "qw_producer s = Awaiting" "qw_drain s \<noteq> Broken"
  shows "\<exists>t. drains\<^sup>*\<^sup>* s t \<and> qw_permit t \<and> qw_producer t = Awaiting"
proof (cases "qw_permit s")
  case True
  then show ?thesis using assms(2) by blast
next
  case np: False
  show ?thesis
  proof (cases "qw_drain s")
    case Receiving
    then have "qw_queued s \<noteq> 0" using assms(1,2) np by (auto simp: queue_inv_def woken_def)
    then show ?thesis using receiving_wakes assms(1,2) Receiving by blast
  next
    case (Writing bytes)
    let ?t = "s \<lparr> qw_sink := qw_sink s @ bytes, qw_drain := Written bytes \<rparr>"
    have d: "drains s ?t" by (rule drainsI [of "WriteAll None"]) (simp_all add: Writing)
    have "\<exists>t. drains\<^sup>*\<^sup>* ?t t \<and> qw_permit t \<and> qw_producer t = Awaiting"
      by (rule written_wakes [of _ bytes])
        (use drains_inv [OF d assms(1)] assms(2) receiving_wakes in auto)
    then show ?thesis using d by (blast intro: converse_rtranclp_into_rtranclp)
  next
    case (Written bytes)
    show ?thesis by (rule written_wakes [OF assms(1,2) Written]) (use receiving_wakes in blast)
  next
    case Notifying
    let ?t = "s \<lparr> qw_permit := True, qw_drain := Receiving \<rparr>"
    have "drains s ?t" by (rule drainsI [of Notify]) (simp_all add: Notifying)
    then show ?thesis using assms(2) by (intro exI [of _ ?t]) auto
  next
    case Finished
    then have "qw_queued s = 0" using assms(1,2)
      by (simp add: queue_inv_def counted_def in_flight_def in_order_def)
    then show ?thesis using assms(1,2) np Finished by (auto simp: queue_inv_def woken_def)
  qed (use assms(3) in simp)
qed

section \<open>The promise\<close>

text \<open>C16. However the owner of a queued writer and its draining task interleave, the counter
  never wraps and stays within the budget, and so do the bytes in the channel; the sink
  receives the accepted writes in order, all of them when the counter is back at zero or
  the task has finished. An owner that waits for the drain is never left behind: as long
  as the sink works, the task by itself reaches the notification that ends the wait.\<close>

theorem queued_writer_delivers:
  assumes "queue_reachable s"
  shows "qw_queued s \<le> MAX_QUEUED_BYTES \<and> length (concat (qw_channel s)) \<le> MAX_QUEUED_BYTES \<and>
    prefix (qw_sink s) (qw_accepted s) \<and>
    (qw_drain s = Finished \<or> qw_queued s = 0 \<and> qw_drain s \<noteq> Broken \<longrightarrow> qw_sink s = qw_accepted s) \<and>
    (qw_producer s = Awaiting \<and> qw_drain s \<noteq> Broken \<longrightarrow>
      (\<exists>t. drains\<^sup>*\<^sup>* s t \<and> wait_until_drained_step Wake t \<noteq> None))"
proof -
  note inv = queue_reachable_inv [OF assms]
  then have "counted s" "in_order s" by (simp_all add: queue_inv_def)
  moreover have "qw_sink s = qw_accepted s" if "qw_queued s = 0" "qw_drain s \<noteq> Broken"
    using that \<open>counted s\<close> \<open>in_order s\<close>
    by (cases "qw_drain s") (auto simp: counted_def in_order_def in_flight_def)
  moreover have "\<exists>t. drains\<^sup>*\<^sup>* s t \<and> wait_until_drained_step Wake t \<noteq> None"
    if "qw_producer s = Awaiting" "qw_drain s \<noteq> Broken"
    using waiting_ends [OF inv that] by fastforce
  ultimately show ?thesis by (auto simp: counted_def in_order_def in_flight_def)
qed

text \<open>One write is in the channel and the owner waits for it.\<close>

definition demo_waiting :: queued_writer where
  "demo_waiting = \<lparr> qw_sender = True, qw_queued = 2, qw_permit = False, qw_channel = [[7, 8]],
    qw_producer = Awaiting, qw_drain = Receiving, qw_sink = [], qw_accepted = [7, 8] \<rparr>"

lemma demo_waiting_reachable: "queue_reachable demo_waiting"
proof -
  let ?s1 = "new_queued_writer \<lparr> qw_producer := Loaded [7, 8] 0 \<rparr>"
  let ?s2 = "new_queued_writer \<lparr> qw_queued := 2, qw_producer := Counted [7, 8] \<rparr>"
  let ?s3 = "new_queued_writer \<lparr> qw_queued := 2, qw_channel := [[7, 8]], qw_accepted := [7, 8] \<rparr>"
  have steps: "poll_write_step (Load [7, 8]) new_queued_writer = Some ?s1"
    "poll_write_step (Exchange False) ?s1 = Some ?s2" "poll_write_step TrySend ?s2 = Some ?s3"
    "wait_until_drained_step Check ?s3 = Some demo_waiting"
    by (simp_all add: new_queued_writer_def MAX_QUEUED_BYTES_def CHANNEL_CAPACITY_def receiver_alive_def
        demo_waiting_def)
  have "poll_write_step e s = Some s' \<or> wait_until_drained_step e s = Some s' \<Longrightarrow> s' \<in> set (queue_steps e s)" for e s s'
    by (auto simp: queue_steps_def map_filter_simps split: option.splits)
  note step = queue_reachable.step [OF _ this]
  show ?thesis
    by (rule step [OF step [OF step [OF step [OF queue_reachable.start]]]]) (use steps in blast)+
qed

theorem queued_writer_delivers_witness:
  "\<exists>t. drains\<^sup>*\<^sup>* demo_waiting t \<and> wait_until_drained_step Wake t \<noteq> None"
  using queued_writer_delivers [OF demo_waiting_reachable] by (simp add: demo_waiting_def)

end
