(* ===== verification/Spec2Isabelle.thy ===== *)
theory Spec2Isabelle
  imports Resources Streaming Input_Lease Negotiation Payload_Transfer Session File_Links File_Put Framing Queued_Writer
begin

text \<open>
  A verification development of \<^bold>\<open>astra-shell\<close>, a persistent multi-terminal shell over QUIC.
  A server keeps the terminals of its users alive; clients attach to them, follow their
  screens over unreliable datagrams, type into them under a lease, and transfer files.
  The development models the protocol cores and the services behind them; sockets, the
  terminal emulator and the processes stay outside (see the end of this text). Paths are
  those of the repository: \<^verbatim>\<open>files.rs\<close> is \<^verbatim>\<open>src/files.rs\<close>.

  \<^bold>\<open>Conventions.\<close> Structs are records, enums are datatypes, \<^verbatim>\<open>u8\<close> to \<^verbatim>\<open>u64\<close> are words,
  \<^verbatim>\<open>usize\<close> is \<^typ>\<open>nat\<close>. \<^verbatim>\<open>anyhow::Result\<close> is a sum with the chain of messages on the left,
  a panic is no result at all or an error of its own, and the state that an operation
  changes is an argument and a result. Names follow the source; \<^verbatim>\<open>T::f\<close> is \<open>T_f\<close>.
  Code from other packages is an argument: the Protocol Buffers encoding, Zstandard,
  SHA-256, the UUID parser, grapheme segmentation, random identifiers. What is assumed of
  it (decoding undoes encoding, digests have 32 bytes) is a hypothesis of the theorem that
  needs it, and a witness instantiates it.

  \<^bold>\<open>Vocabulary.\<close>
  \<^item> \<open>Prelude\<close>: results, checked arithmetic, bytes.
  \<^item> \<open>Ordered_Map\<close>: \<^verbatim>\<open>BTreeMap\<close> with its laws as a locale.
  \<^item> \<open>Text_Support\<close>: Unicode classes, decimal numbers, paths and their components.
  \<^item> \<open>Filesystem\<close>: what is used of \<^verbatim>\<open>std::fs\<close>: names for inodes, directories, hard and
    symbolic links (at most 40 are followed, as Linux does), and calls that may fail.

  \<^bold>\<open>Following a screen.\<close>
  \<^item> \<open>Terminal_State\<close> (\<^verbatim>\<open>terminal_state_v2.rs\<close>): the semantic state and its validator. An
    accepted state can be drawn: rows in order, cells that do not overlap, cursor inside.
  \<^item> \<open>Terminal_Sync\<close> (\<^verbatim>\<open>terminal_sync.rs\<close>): diffs of states and the acknowledged window.
    A diff gives back its target; sender and receiver agree on acknowledged states.
  \<^item> \<open>Viewport_Delta\<close> (\<^verbatim>\<open>terminal_streaming.rs\<close>): the compact delta of the live viewport
    and its round trip.
  \<^item> \<open>Streaming\<close> (\<^verbatim>\<open>terminal_streaming.rs\<close>): the server window, the client replica and
    the repairs between them, as a step relation over a network that loses, repeats and
    reorders. A client never shows a viewport the server did not have, never goes back,
    and converges when a keyframe arrives; what is retained is bounded.
  \<^item> \<open>Datagram_V3\<close> (\<^verbatim>\<open>terminal_datagram_v3.rs\<close>, the envelope of \<^verbatim>\<open>worker.rs\<close>): fragments
    fit the path, validate, and reassemble in any order.
  \<^item> \<open>Compression\<close> (\<^verbatim>\<open>compression.rs\<close>) and \<open>Payload_Transfer\<close> (\<^verbatim>\<open>terminal_streaming.rs\<close>,
    \<^verbatim>\<open>server.rs\<close>): negotiated compression, chunked keyframes and history pages, and the
    bounds of the assembler against hostile chunks.

  \<^bold>\<open>Terminals and sessions.\<close>
  \<^item> \<open>Input_Lease\<close> (\<^verbatim>\<open>terminal.rs\<close>): who may type. Commands are executed once, in order and
    only under the lease; recovery tokens survive a disconnection and die when revoked.
  \<^item> \<open>Terminal_Manager\<close> (\<^verbatim>\<open>terminal.rs\<close>): spawning, selectors, directories, quotas.
  \<^item> \<open>Session\<close> (\<^verbatim>\<open>session.rs\<close>): workspaces, attachments, and the catalog on disk; the
    directory of workspaces refines a map.
  \<^item> \<open>Resources\<close> (\<^verbatim>\<open>resources.rs\<close>): hierarchical quotas. What is in use is the sum of the
    live reservations, on every level and for every resource.
  \<^item> \<open>Negotiation\<close> (\<^verbatim>\<open>negotiation.rs\<close>, \<^verbatim>\<open>server.rs\<close>): versions and capabilities. The choice
    is the greatest common one, and every party accepts what the other chose.
  \<^item> \<open>Framing\<close> (\<^verbatim>\<open>protocol.rs\<close>): length-prefixed messages and the reader that survives
    cancellation.
  \<^item> \<open>Queued_Writer\<close> (\<^verbatim>\<open>queued_writer.rs\<close>): the bounded hand-over of output to a draining task,
    interleaved at its atomic operations. Nothing is lost or reordered, the budget holds,
    and no wake-up is missed.

  \<^bold>\<open>Files.\<close>
  \<^item> \<open>File_Service\<close> (\<^verbatim>\<open>files.rs\<close>): path resolution and every operation that changes files.
    No sequence of requests changes anything outside the root.
  \<^item> \<open>File_Upload\<close>: an upload that commits holds every acknowledged chunk.
  \<^item> \<open>File_Links\<close>: the same confinement with links present, and the schedule of requests by
    which an upload leaves the root all the same.
  \<^item> \<open>File_Listing\<close>, \<open>File_Download\<close>, \<open>File_Put\<close> (\<^verbatim>\<open>files.rs\<close>, \<^verbatim>\<open>client.rs\<close>, \<^verbatim>\<open>server.rs\<close>,
    \<^verbatim>\<open>bin/astra.rs\<close>): \<^verbatim>\<open>astra files ls\<close>, \<^verbatim>\<open>get\<close> and \<^verbatim>\<open>put\<close> from end to end over connections
    that lose requests and replies.

  \<^bold>\<open>Interfaces.\<close> Four locales state what clients rely on, each interpreted on the model:
  \<open>ordered_map\<close> (\<open>Ordered_Map\<close>), \<open>quota_ledger\<close> (\<open>Resources\<close>), \<open>fenced_commands\<close>
  (\<open>Input_Lease\<close>) and \<open>directory_update\<close> (\<open>Session\<close>).

  \<^bold>\<open>Bounds and fuel.\<close> Loops are structural or have a termination proof. The loop of
  \<^verbatim>\<open>files ls\<close> takes fuel, and its theorem shows that one more request than the directory has full
  pages is enough. The commands \<^verbatim>\<open>get\<close> and \<^verbatim>\<open>put\<close> consume one moment of the network per
  call from a list of any length; no result means that they still wait for the next one.
  The reader of \<open>Framing\<close> likewise consumes polls, and enough of them give a result.

  \<^bold>\<open>Not modelled.\<close>
  \<^item> The terminal emulator (\<^verbatim>\<open>terminal_engine.rs\<close> and the crates under \<^verbatim>\<open>vendor\<close>): the model
    starts from the state it exports.
  \<^item> QUIC, Unix sockets, processes, timers and the tasks that connect the components
    (\<^verbatim>\<open>transport.rs\<close>, \<^verbatim>\<open>worker.rs\<close>, most of \<^verbatim>\<open>server.rs\<close>, \<^verbatim>\<open>client.rs\<close> and the binaries): their
    effect is a schedule of operations, which the theorems quantify over.
  \<^item> Signatures, accounts and certificates (\<^verbatim>\<open>auth.rs\<close>, \<^verbatim>\<open>accounts.rs\<close>, \<^verbatim>\<open>known_hosts.rs\<close>), TCP
    forwarding, stream hellos, Git status and file watching.
  \<^item> Ownership and permission checks of the operating system; the mode of a file is
    recorded but grants nothing.
\<close>

end
